(* ===== verification/Prelude.thy ===== *)
theory Prelude
  imports Main "HOL-Library.Word" "HOL-Library.Sublist"
begin

text \<open>
  What the components share: the parts of the Go language and of its standard library that the
  sources use (\<^verbatim>\<open>strings.Split\<close>, \<^verbatim>\<open>strings.Join\<close>, \<^verbatim>\<open>fmt.Sprintf("%d")\<close>,
  \<^verbatim>\<open>strconv.ParseInt\<close>, buffered channels, panics), the proof collections, and the two
  locales over which the state machines of the library are verified: an invariant of an event
  machine and a refinement between two machines.

  A Go \<^verbatim>\<open>string\<close> and a \<^verbatim>\<open>[]byte\<close> are both byte sequences and are modelled as
  \<open>string\<close> (a list of 8-bit characters); a Go \<^verbatim>\<open>int64\<close> is a \<open>64 word\<close> read with
  \<open>sint\<close>.
\<close>

named_theorems chan_laws \<open>laws of buffered channels\<close>
named_theorems machine_defs \<open>definitions unfolded in proofs about event machines\<close>

type_synonym int64 = "64 word"
type_synonym bytes = string

section \<open>Outcomes of Go calls\<close>

text \<open>
  A call either returns a value or panics. \<open>Returns\<close> and \<open>Panics\<close> are used wherever the
  source can panic (a send on a closed channel, an index out of range, a nil dereference, an
  explicit \<^verbatim>\<open>panic\<close>).
\<close>

datatype ('p, 'a) outcome = Returns 'a | Panics 'p

fun panicked :: "('p, 'a) outcome \<Rightarrow> bool" where
  "panicked (Returns _) = False"
| "panicked (Panics _) = True"

section \<open>Strings\<close>

fun split_acc :: "'a list \<Rightarrow> 'a list \<Rightarrow> 'a list \<Rightarrow> 'a list list" where
  "split_acc sep acc [] = [rev acc]"
| "split_acc sep acc (c # cs) =
     (if prefix sep (c # cs) then rev acc # split_acc sep [] (drop (length sep - 1) cs)
      else split_acc sep (c # acc) cs)"

text \<open>
  \<^verbatim>\<open>strings.Split(s, sep)\<close> for a non-empty separator: cut at every leftmost,
  non-overlapping occurrence of \<open>sep\<close>.
\<close>

definition strings_Split :: "'a list \<Rightarrow> 'a list \<Rightarrow> 'a list list" where
  "strings_Split s sep = split_acc sep [] s"

fun strings_Join :: "'a list list \<Rightarrow> 'a list \<Rightarrow> 'a list" where
  "strings_Join [] sep = []"
| "strings_Join [x] sep = x"
| "strings_Join (x # y # ys) sep = x @ sep @ strings_Join (y # ys) sep"

text \<open>\<^verbatim>\<open>strings.Replace(s, old, new, -1)\<close> for a non-empty \<open>old\<close>.\<close>

definition strings_ReplaceAll :: "'a list \<Rightarrow> 'a list \<Rightarrow> 'a list \<Rightarrow> 'a list" where
  "strings_ReplaceAll s old new = strings_Join (strings_Split s old) new"

lemma split_acc_not_Nil [simp]: "split_acc sep acc s \<noteq> []"
  by (induction sep acc s rule: split_acc.induct) auto

lemma strings_Split_not_Nil [simp]: "strings_Split s sep \<noteq> []"
  by (simp add: strings_Split_def)

lemma strings_Join_Cons: "xs \<noteq> [] \<Longrightarrow> strings_Join (x # xs) sep = x @ sep @ strings_Join xs sep"
  by (cases xs) auto

lemma join_split_acc: "sep \<noteq> [] \<Longrightarrow> strings_Join (split_acc sep acc s) sep = rev acc @ s"
proof (induction sep acc s rule: split_acc.induct)
  case (2 sep acc c cs)
  show ?case
  proof (cases "prefix sep (c # cs)")
    case True
    with "2.prems" have "sep @ drop (length sep - 1) cs = c # cs"
      by (cases sep) (auto elim!: prefixE)
    with True "2.IH"(1) "2.prems" show ?thesis
      by (simp add: strings_Join_Cons)
  next
    case False
    with "2.IH"(2) "2.prems" show ?thesis by simp
  qed
qed simp

lemma strings_Join_Split: "sep \<noteq> [] \<Longrightarrow> strings_Join (strings_Split s sep) sep = s"
  by (simp add: strings_Split_def join_split_acc)

text \<open>No occurrence of the separator: one piece. A first occurrence: cut there.\<close>

lemma split_acc_none: "\<not> sublist sep s \<Longrightarrow> split_acc sep acc s = [rev acc @ s]"
proof (induction sep acc s rule: split_acc.induct)
  case (2 sep acc c cs)
  then have "\<not> prefix sep (c # cs)" and "\<not> sublist sep cs"
    by (auto simp: sublist_Cons_right)
  with "2.IH"(2) show ?case by simp
qed simp

lemma overlap_prefix:
  assumes "sep \<noteq> []" and "x # xs @ sep @ b = sep @ zs"
  shows "prefix sep (x # xs @ butlast sep)"
proof -
  have "sep = take (length sep) (x # xs @ sep @ b)"
    by (simp add: assms(2))
  also have "\<dots> = take (length sep) (x # xs @ butlast sep @ last sep # b)"
    using assms(1) by (metis append_Cons append_Nil append_assoc append_butlast_last_id)
  also have "\<dots> = take (length sep) (x # xs @ butlast sep)"
    using assms(1) by (simp add: take_Cons' flip: append_assoc)
  finally show ?thesis by (metis take_is_prefix)
qed

lemma split_acc_first:
  assumes "sep \<noteq> []" and "\<not> sublist sep (a @ butlast sep)"
  shows "split_acc sep acc (a @ sep @ b) = (rev acc @ a) # split_acc sep [] b"
  using assms(2)
proof (induction a arbitrary: acc)
  case Nil
  from assms(1) obtain c cs where "sep = c # cs" by (cases sep) auto
  then show ?case by simp
next
  case (Cons x xs)
  have "\<not> prefix sep (x # xs @ sep @ b)"
  proof
    assume "prefix sep (x # xs @ sep @ b)"
    then obtain zs where zs: "x # xs @ sep @ b = sep @ zs" by (auto elim: prefixE)
    from zs have "prefix sep (x # xs @ butlast sep)"
      by (rule overlap_prefix [OF assms(1)])
    with Cons.prems show False by (auto simp: sublist_Cons_right)
  qed
  moreover from Cons.prems have "\<not> sublist sep (xs @ butlast sep)"
    by (simp add: sublist_Cons_right)
  ultimately show ?case using Cons.IH [of "x # acc"] by simp
qed

lemma strings_Split_none: "\<not> sublist sep s \<Longrightarrow> strings_Split s sep = [s]"
  by (simp add: strings_Split_def split_acc_none)

lemma strings_Split_first:
  "sep \<noteq> [] \<Longrightarrow> \<not> sublist sep (a @ butlast sep) \<Longrightarrow>
   strings_Split (a @ sep @ b) sep = a # strings_Split b sep"
  by (simp add: strings_Split_def split_acc_first)

lemma sublist_single_iff [simp]: "sublist [c] s \<longleftrightarrow> c \<in> set s"
  by (induction s) (auto simp: sublist_Cons_right)

lemma strings_Split_char_none [simp]: "c \<notin> set s \<Longrightarrow> strings_Split s [c] = [s]"
  by (simp add: strings_Split_none)

lemma strings_Split_char_first [simp]:
  "c \<notin> set a \<Longrightarrow> strings_Split (a @ c # b) [c] = a # strings_Split b [c]"
  using strings_Split_first [of "[c]" a b] by simp

text \<open>Cutting at a character that a non-separating prefix precedes.\<close>

lemma strings_Split_char_append:
  "c \<notin> set a \<Longrightarrow> strings_Split (a @ b) [c] =
     (a @ hd (strings_Split b [c])) # tl (strings_Split b [c])"
proof (cases "c \<in> set b")
  case True
  assume a: "c \<notin> set a"
  from True obtain b1 b2 where b: "b = b1 @ c # b2" and b1: "c \<notin> set b1"
    by (auto dest: split_list_first)
  have "strings_Split ((a @ b1) @ c # b2) [c] = (a @ b1) # strings_Split b2 [c]"
    using a b1 by (intro strings_Split_char_first) simp
  with b b1 show ?thesis by simp
qed simp

lemma strings_Split_char_app:
  "strings_Split (a @ c # b) [c] = strings_Split a [c] @ strings_Split b [c]"
proof -
  have "split_acc [c] acc (a @ c # b) = split_acc [c] acc a @ split_acc [c] [] b" for acc
    by (induction a arbitrary: acc) auto
  then show ?thesis by (simp add: strings_Split_def)
qed

lemma strings_Split_char_Join:
  "xs \<noteq> [] \<Longrightarrow> (\<And>x. x \<in> set xs \<Longrightarrow> c \<notin> set x) \<Longrightarrow> strings_Split (strings_Join xs [c]) [c] = xs"
  by (induction xs "[c]" rule: strings_Join.induct) auto

section \<open>Decimal numbers\<close>

fun nat_digits :: "nat \<Rightarrow> string" where
  "nat_digits n = (if n < 10 then [char_of (48 + n)]
                   else nat_digits (n div 10) @ [char_of (48 + n mod 10)])"

declare nat_digits.simps [simp del]

text \<open>\<^verbatim>\<open>fmt.Sprintf("%d", i)\<close>\<close>

definition Sprint_d :: "int \<Rightarrow> string" where
  "Sprint_d i = (if i < 0 then CHR ''-'' # nat_digits (nat (- i)) else nat_digits (nat i))"

definition digit_val :: "char \<Rightarrow> nat option" where
  "digit_val c = (let n = of_char c :: nat in if 48 \<le> n \<and> n \<le> 57 then Some (n - 48) else None)"

datatype num_result = NumOk nat | NumSyntax | NumRange

text \<open>
  The digit loop of \<^verbatim>\<open>strconv.ParseUint\<close> in base 10: a number above \<open>maxv\<close> is a range
  error as soon as it is seen, even when a later character is no digit.
\<close>

fun scan_uint :: "nat \<Rightarrow> nat \<Rightarrow> string \<Rightarrow> num_result" where
  "scan_uint maxv n [] = NumOk n"
| "scan_uint maxv n (c # cs) =
     (case digit_val c of None \<Rightarrow> NumSyntax
      | Some d \<Rightarrow> if maxv < n * 10 + d then NumRange else scan_uint maxv (n * 10 + d) cs)"

text \<open>
  \<^verbatim>\<open>strconv.ParseInt(s, 10, bits)\<close>: the value (0 on a syntax error, clamped on a range error)
  and whether an error is reported beside it. \<^verbatim>\<open>strconv.Atoi\<close> is the 64-bit instance.
\<close>

definition ParseInt :: "nat \<Rightarrow> string \<Rightarrow> int \<times> bool" where
  "ParseInt bits s =
     (if s = [] then (0, True)
      else let neg = (hd s = CHR ''-'');
               t = (if hd s = CHR ''-'' \<or> hd s = CHR ''+'' then tl s else s)
           in if t = [] then (0, True)
              else case scan_uint (2 ^ bits - 1) 0 t of
                     NumSyntax \<Rightarrow> (0, True)
                   | NumRange \<Rightarrow> (if neg then - (2 ^ (bits - 1)) else 2 ^ (bits - 1) - 1, True)
                   | NumOk n \<Rightarrow>
                       if \<not> neg \<and> 2 ^ (bits - 1) \<le> n then (2 ^ (bits - 1) - 1, True)
                       else if neg \<and> 2 ^ (bits - 1) < n then (- (2 ^ (bits - 1)), True)
                       else (if neg then - int n else int n, False))"

text \<open>\<^verbatim>\<open>strconv.ParseUint(s, 10, bits)\<close>, which accepts no sign.\<close>

definition ParseUint :: "nat \<Rightarrow> string \<Rightarrow> nat \<times> bool" where
  "ParseUint bits s =
     (if s = [] then (0, True)
      else case scan_uint (2 ^ bits - 1) 0 s of
             NumSyntax \<Rightarrow> (0, True)
           | NumRange \<Rightarrow> (2 ^ bits - 1, True)
           | NumOk n \<Rightarrow> (n, False))"

definition Atoi :: "string \<Rightarrow> int \<times> bool" where
  "Atoi s = ParseInt 64 s"

lemma digit_val_char_of: "n < 10 \<Longrightarrow> digit_val (char_of (48 + n)) = Some n"
  by (simp add: digit_val_def of_char_of take_bit_eq_mod)

lemma nat_digits_not_Nil [simp]: "nat_digits n \<noteq> []"
  by (subst nat_digits.simps) simp

lemma nat_digits_are_digits: "c \<in> set (nat_digits n) \<Longrightarrow> digit_val c \<noteq> None"
proof (induction n rule: nat_digits.induct)
  case (1 n)
  then show ?case
    by (cases "n < 10") (auto simp: nat_digits.simps [of n] digit_val_char_of)
qed

lemma nat_digits_length: "n < 10 ^ k \<Longrightarrow> 0 < k \<Longrightarrow> length (nat_digits n) \<le> k"
proof (induction n arbitrary: k rule: nat_digits.induct)
  case (1 n)
  show ?case
  proof (cases "n < 10")
    case True
    then show ?thesis using "1.prems" by (simp add: nat_digits.simps [of n])
  next
    case False
    then obtain j where j: "k = Suc j" "0 < j" using "1.prems" by (cases k; cases "k = 1") auto
    then have "n div 10 < 10 ^ j" using "1.prems" by (simp add: less_mult_imp_div_less mult.commute)
    then show ?thesis using "1.IH" [OF False, of j] False j by (simp add: nat_digits.simps [of n])
  qed
qed

lemma scan_uint_append:
  "scan_uint m n (xs @ ys) =
     (case scan_uint m n xs of NumOk k \<Rightarrow> scan_uint m k ys | e \<Rightarrow> e)"
  by (induction m n xs rule: scan_uint.induct) (auto split: option.splits)

lemma scan_nat_digits: "n \<le> m \<Longrightarrow> scan_uint m 0 (nat_digits n) = NumOk n"
proof (induction n rule: nat_digits.induct)
  case (1 n)
  show ?case
  proof (cases "n < 10")
    case True
    with "1.prems" show ?thesis
      by (simp add: nat_digits.simps [of n] digit_val_char_of)
  next
    case False
    moreover from "1.prems" have "n div 10 \<le> m" by arith
    ultimately show ?thesis using "1.IH" "1.prems"
      by (simp add: nat_digits.simps [of n] scan_uint_append digit_val_char_of)
  qed
qed

lemma digit_not_sign: "digit_val c \<noteq> None \<Longrightarrow> c \<noteq> CHR ''-'' \<and> c \<noteq> CHR ''+''"
  by (auto simp: digit_val_def)

lemma Sprint_d_chars: "c \<in> set (Sprint_d i) \<Longrightarrow> c = CHR ''-'' \<or> digit_val c \<noteq> None"
  using nat_digits_are_digits by (auto simp: Sprint_d_def split: if_splits)

lemma Sprint_d_no_sep [simp]:
  "CHR '':'' \<notin> set (Sprint_d i)" "CHR ''|'' \<notin> set (Sprint_d i)"
  by (auto dest!: Sprint_d_chars simp: digit_val_def)

text \<open>Printing and parsing: a number in the signed range comes back, without an error.\<close>

lemma hd_nat_digits: "digit_val (hd (nat_digits n)) \<noteq> None"
  by (rule nat_digits_are_digits [of _ n]) simp

lemma ParseInt_Sprint_d:
  assumes "0 < bits" and "- (2 ^ (bits - 1)) \<le> i" and "i < 2 ^ (bits - 1)"
  shows "ParseInt bits (Sprint_d i) = (i, False)"
proof (cases "i < 0")
  case True
  define n where "n = nat (- i)"
  have n: "n \<le> 2 ^ (bits - 1)" and i: "i = - int n" and "0 < n"
    using True assms(2) by (auto simp: n_def)
  have "(2::nat) ^ (bits - 1) \<le> 2 ^ bits - 1"
    using assms(1) by (cases bits) auto
  with n have "scan_uint (2 ^ bits - 1) 0 (nat_digits n) = NumOk n"
    by (intro scan_nat_digits) simp
  with True n i show ?thesis
    by (simp add: ParseInt_def Sprint_d_def n_def [symmetric] Let_def)
next
  case False
  define n where "n = nat i"
  have i: "i = int n" and n: "n < 2 ^ (bits - 1)"
    using False assms(3) by (auto simp: n_def nat_less_iff)
  have "n \<le> 2 ^ bits - 1"
    using n assms(1) by (cases bits) auto
  then have "scan_uint (2 ^ bits - 1) 0 (nat_digits n) = NumOk n"
    by (rule scan_nat_digits)
  with False n i digit_not_sign [OF hd_nat_digits [of n]] show ?thesis
    by (simp add: ParseInt_def Sprint_d_def n_def [symmetric] Let_def)
qed

lemma ParseUint_nat_digits: "n < 2 ^ bits \<Longrightarrow> ParseUint bits (nat_digits n) = (n, False)"
  by (simp add: ParseUint_def scan_nat_digits)

section \<open>Buffered channels\<close>

text \<open>
  A buffered channel: its queue, its capacity, and whether it was closed. A send on a closed
  channel panics, on a full one it blocks; a receive drains the queue even after a close, then
  reports the close; closing twice panics.
\<close>

record 'a chan =
  chan_buf :: "'a list"
  chan_cap :: nat
  chan_closed :: bool

datatype 'c send_result = Sent 'c | SendBlocks | SendPanics

datatype ('a, 'c) recv_result = Received 'a 'c | RecvClosed | RecvBlocks

definition make_chan :: "nat \<Rightarrow> 'a chan" where
  "make_chan n = \<lparr>chan_buf = [], chan_cap = n, chan_closed = False\<rparr>"

definition chan_send :: "'a \<Rightarrow> 'a chan \<Rightarrow> 'a chan send_result" where
  "chan_send x c =
     (if chan_closed c then SendPanics
      else if length (chan_buf c) < chan_cap c then Sent (c\<lparr>chan_buf := chan_buf c @ [x]\<rparr>)
      else SendBlocks)"

definition chan_recv :: "'a chan \<Rightarrow> ('a, 'a chan) recv_result" where
  "chan_recv c =
     (case chan_buf c of
        x # xs \<Rightarrow> Received x (c\<lparr>chan_buf := xs\<rparr>)
      | [] \<Rightarrow> if chan_closed c then RecvClosed else RecvBlocks)"

definition chan_close :: "'a chan \<Rightarrow> 'a chan option" where
  "chan_close c = (if chan_closed c then None else Some (c\<lparr>chan_closed := True\<rparr>))"

definition chan_ok :: "'a chan \<Rightarrow> bool" where
  "chan_ok c \<longleftrightarrow> length (chan_buf c) \<le> chan_cap c"

text \<open>What a client of a channel relies on: first in, first out, within the capacity.\<close>

locale bounded_fifo =
  fixes contents :: "'q \<Rightarrow> 'a list"
    and capacity :: "'q \<Rightarrow> nat"
    and shut :: "'q \<Rightarrow> bool"
    and send :: "'a \<Rightarrow> 'q \<Rightarrow> 'q send_result"
    and recv :: "'q \<Rightarrow> ('a, 'q) recv_result"
    and close :: "'q \<Rightarrow> 'q option"
    and ok :: "'q \<Rightarrow> bool"
  assumes ok_bound: "ok q \<Longrightarrow> length (contents q) \<le> capacity q"
    and send_ok: "ok q \<Longrightarrow> send x q = Sent q' \<Longrightarrow>
      ok q' \<and> contents q' = contents q @ [x] \<and> capacity q' = capacity q \<and> \<not> shut q \<and> \<not> shut q'"
    and send_panics: "send x q = SendPanics \<longleftrightarrow> shut q"
    and recv_ok: "ok q \<Longrightarrow> recv q = Received x q' \<Longrightarrow>
      ok q' \<and> contents q = x # contents q' \<and> capacity q' = capacity q \<and> shut q' = shut q"
    and recv_closed: "recv q = RecvClosed \<longleftrightarrow> shut q \<and> contents q = []"
    and recv_blocks: "recv q = RecvBlocks \<longleftrightarrow> \<not> shut q \<and> contents q = []"
    and close_ok: "close q = Some q' \<Longrightarrow>
      ok q' = ok q \<and> contents q' = contents q \<and> capacity q' = capacity q \<and> \<not> shut q \<and> shut q'"
    and close_twice: "close q = None \<longleftrightarrow> shut q"
begin

lemma accepted_fits: "ok q \<Longrightarrow> send x q = Sent q' \<Longrightarrow> length (contents q) < capacity q"
  using send_ok [of q x q'] ok_bound [of q'] by simp

lemma no_send_after_close: "close q = Some q' \<Longrightarrow> send x q' = SendPanics"
  using close_ok [of q q'] send_panics [of x q'] by simp

lemma close_once: "close q = Some q' \<Longrightarrow> close q' = None"
  using close_ok [of q q'] close_twice [of q'] by simp

lemma drained_after_close:
  "close q = Some q' \<Longrightarrow> contents q = [] \<Longrightarrow> recv q' = RecvClosed"
  using close_ok [of q q'] recv_closed [of q'] by simp

end

interpretation go_chan: bounded_fifo chan_buf chan_cap chan_closed chan_send chan_recv chan_close chan_ok
  by unfold_locales
    (auto simp: chan_ok_def chan_send_def chan_recv_def chan_close_def
      split: if_splits list.splits)

lemmas [chan_laws] =
  go_chan.send_ok go_chan.recv_ok go_chan.close_ok go_chan.send_panics
  go_chan.recv_closed go_chan.recv_blocks go_chan.close_twice

section \<open>Event machines\<close>

text \<open>
  A component with concurrent callers is an event machine: \<open>step e s\<close> is the state after one
  atomic action \<open>e\<close> of one goroutine or of the environment (the event names the goroutine, the
  \<^verbatim>\<open>select\<close> case taken and what the environment answered), or \<open>None\<close> when the action is not
  possible in \<open>s\<close>. A schedule is a list of events.
\<close>

fun run_events :: "('e \<Rightarrow> 's \<Rightarrow> 's option) \<Rightarrow> 'e list \<Rightarrow> 's \<Rightarrow> 's option" where
  "run_events step [] s = Some s"
| "run_events step (e # es) s =
     (case step e s of None \<Rightarrow> None | Some t \<Rightarrow> run_events step es t)"

lemma run_events_append:
  "run_events step (es @ fs) s =
     (case run_events step es s of None \<Rightarrow> None | Some t \<Rightarrow> run_events step fs t)"
  by (induction es arbitrary: s) (auto split: option.splits)

locale event_invariant =
  fixes step :: "'e \<Rightarrow> 's \<Rightarrow> 's option"
    and inv :: "'s \<Rightarrow> bool"
  assumes step_keeps: "inv s \<Longrightarrow> step e s = Some t \<Longrightarrow> inv t"
begin

lemma run_keeps: "inv s \<Longrightarrow> run_events step es s = Some t \<Longrightarrow> inv t"
  by (induction es arbitrary: s) (auto split: option.splits intro: step_keeps)

end

text \<open>
  A refinement: every concrete step is a (possibly empty) list of steps of the specification
  between the abstracted states.
\<close>

locale event_refinement = event_invariant cstep inv
  for cstep :: "'e \<Rightarrow> 's \<Rightarrow> 's option" and inv :: "'s \<Rightarrow> bool" +
  fixes astep :: "'f \<Rightarrow> 'a \<Rightarrow> 'a option"
    and abs :: "'s \<Rightarrow> 'a"
    and evs :: "'e \<Rightarrow> 's \<Rightarrow> 'f list"
  assumes simulates: "inv s \<Longrightarrow> cstep e s = Some t \<Longrightarrow>
    run_events astep (evs e s) (abs s) = Some (abs t)"
begin

lemma run_refines:
  "inv s \<Longrightarrow> run_events cstep es s = Some t \<Longrightarrow> \<exists>fs. run_events astep fs (abs s) = Some (abs t)"
proof (induction es arbitrary: s)
  case Nil
  then have "run_events astep [] (abs s) = Some (abs t)" by simp
  then show ?case by blast
next
  case (Cons e es)
  from Cons.prems(2) obtain u where u: "cstep e s = Some u" "run_events cstep es u = Some t"
    by (auto split: option.splits)
  from Cons.IH [OF step_keeps [OF Cons.prems(1) u(1)] u(2)]
  obtain fs where fs: "run_events astep fs (abs u) = Some (abs t)" by blast
  have "run_events astep (evs e s @ fs) (abs s) = Some (abs t)"
    using simulates [OF Cons.prems(1) u(1)] fs by (simp add: run_events_append)
  then show ?case by blast
qed

end

end
