(* ===== verification/Uuid.thy ===== *)
theory Uuid
  imports Prelude
begin

unbundle bit_operations_syntax

text \<open>
  The identifier generators of \<^verbatim>\<open>libs/uuid\<close> and \<^verbatim>\<open>libs/jwt/genid.go\<close>: the snowflake worker
  (\<^verbatim>\<open>NewUuidWorker\<close>, \<^verbatim>\<open>Get\<close>, \<^verbatim>\<open>Unmarshal\<close>) on 64-bit words, and the random strings
  (\<^verbatim>\<open>GenString\<close>, \<^verbatim>\<open>GenNumberString\<close>, \<^verbatim>\<open>GenDateRnString\<close>, \<^verbatim>\<open>GenBytes\<close>).

  The wall clock and the random source are the environment: \<open>clk k\<close> is what the \<open>k\<close>-th call
  of \<^verbatim>\<open>time.Now().UnixNano()\<close> returns, \<open>rnd k n\<close> what the \<open>k\<close>-th call of
  \<^verbatim>\<open>rand.Int(rand.Reader, n)\<close> returns (\<open>None\<close> for an error, after which the nil result is
  dereferenced). The loop of \<^verbatim>\<open>Get\<close> that waits for the next millisecond ends only if the
  clock moves on, so it is a \<^theory_text>\<open>partial_function\<close> and its termination is proved from the
  clock.
\<close>

section \<open>The snowflake worker\<close>

definition workerBits :: nat where "workerBits = 10"
definition numberBits :: nat where "numberBits = 12"
definition workerMax :: int64 where "workerMax = (-1) XOR (push_bit workerBits (-1))"
definition numberMax :: int64 where "numberMax = (-1) XOR (push_bit numberBits (-1))"
definition timeShift :: nat where "timeShift = workerBits + numberBits"
definition workerShift :: nat where "workerShift = numberBits"
definition epoch :: int64 where "epoch = 1652751577000"

record UuidWorker =
  timestamp :: int64
  workerID :: int64
  number :: int64

definition NewUuidWorker :: "int64 \<Rightarrow> string + UuidWorker" where
  "NewUuidWorker w =
     (if w <s 0 \<or> workerMax <s w then Inl ''worker ID excess of quantity''
      else Inr \<lparr>timestamp = 0, workerID = w, number = 0\<rparr>)"

text \<open>Go's signed division truncates.\<close>

definition sdiv64 :: "int64 \<Rightarrow> int64 \<Rightarrow> int64" where
  "sdiv64 a b = word_of_int (sgn (sint a) * sgn (sint b) * (\<bar>sint a\<bar> div \<bar>sint b\<bar>))"

definition nowMs :: "(nat \<Rightarrow> int64) \<Rightarrow> nat \<Rightarrow> int64" where
  "nowMs clk k = sdiv64 (clk k) 1000000"

definition mkID :: "int64 \<Rightarrow> UuidWorker \<Rightarrow> int64" where
  "mkID now w = push_bit timeShift (now - epoch) OR push_bit workerShift (workerID w) OR number w"

partial_function (option) spin ::
  "(nat \<Rightarrow> int64) \<Rightarrow> int64 \<Rightarrow> nat \<Rightarrow> int64 \<Rightarrow> (int64 \<times> nat) option" where
  "spin clk ts k now =
     (if now \<le>s ts then spin clk ts (Suc k) (nowMs clk k) else Some (now, k))"

text \<open>
  \<^verbatim>\<open>Get\<close>: the identifier, the worker afterwards and the number of clock readings made so far;
  \<open>None\<close> when the wait never ends.
\<close>

definition Get :: "(nat \<Rightarrow> int64) \<Rightarrow> UuidWorker \<Rightarrow> nat \<Rightarrow> (int64 \<times> UuidWorker \<times> nat) option" where
  "Get clk w k =
     (let now = nowMs clk k in
      if timestamp w = now then
        let w1 = w\<lparr>number := number w + 1\<rparr> in
        if numberMax <s number w1 then
          (case spin clk (timestamp w1) (Suc k) now of
             None \<Rightarrow> None
           | Some (now', k') \<Rightarrow> Some (mkID now' w1, w1, k'))
        else Some (mkID now w1, w1, Suc k)
      else
        let w1 = w\<lparr>number := 0, timestamp := now\<rparr> in
        Some (mkID now w1, w1, Suc k))"

record UuidFields =
  f_id :: int64
  f_time :: int64
  f_worker :: int64
  f_number :: int64

definition Unmarshal :: "int64 \<Rightarrow> UuidFields" where
  "Unmarshal i =
     \<lparr>f_id = i,
      f_time = sdiv64 (signed_drop_bit timeShift i + epoch) 1000,
      f_worker = signed_drop_bit workerShift (i AND (push_bit timeShift 1 - 1)),
      f_number = i AND (push_bit workerShift 1 - 1)\<rparr>"

text \<open>A sequence of \<^verbatim>\<open>Get\<close> calls under the worker's mutex.\<close>

fun GetMany :: "(nat \<Rightarrow> int64) \<Rightarrow> nat \<Rightarrow> UuidWorker \<Rightarrow> nat \<Rightarrow> (int64 list \<times> UuidWorker \<times> nat) option" where
  "GetMany clk 0 w k = Some ([], w, k)"
| "GetMany clk (Suc n) w k =
     (case Get clk w k of
        None \<Rightarrow> None
      | Some (i, w', k') \<Rightarrow>
          (case GetMany clk n w' k' of
             None \<Rightarrow> None
           | Some (is, w'', k'') \<Rightarrow> Some (i # is, w'', k'')))"

definition GetUuidString :: "(nat \<Rightarrow> int64) \<Rightarrow> UuidWorker \<Rightarrow> nat \<Rightarrow> (string \<times> UuidWorker \<times> nat) option" where
  "GetUuidString clk w k =
     (case Get clk w k of None \<Rightarrow> None
      | Some (i, w', k') \<Rightarrow> Some (Sprint_d (sint i), w', k'))"

section \<open>Random strings\<close>

definition alphabet62 :: string where
  "alphabet62 = ''abcdefghijklmnopqrstuvwxyzABCDEFGHIJKLMNOPQRSTUVWXYZ1234567890''"

definition alphabet10 :: string where
  "alphabet10 = ''0123456789''"

text \<open>
  The loop \<^verbatim>\<open>for i := 0; i < len; i++\<close> of the generators: a draw below the alphabet's length, then
  the character appended. A failed draw leaves a nil \<^verbatim>\<open>randomInt\<close>, and the method call on it
  panics.
\<close>

fun gen_loop :: "(nat \<Rightarrow> nat \<Rightarrow> nat option) \<Rightarrow> string \<Rightarrow> nat \<Rightarrow> nat \<Rightarrow> string \<Rightarrow> (string, string) outcome" where
  "gen_loop rnd str k 0 container = Returns container"
| "gen_loop rnd str k (Suc n) container =
     (case rnd k (length str) of
        None \<Rightarrow> Panics ''nil pointer dereference''
      | Some r \<Rightarrow> if r < length str then gen_loop rnd str (Suc k) n (container @ [str ! r])
                  else Panics ''index out of range'')"

definition GenString :: "(nat \<Rightarrow> nat \<Rightarrow> nat option) \<Rightarrow> int \<Rightarrow> (string, string) outcome" where
  "GenString rnd len = gen_loop rnd alphabet62 0 (nat len) []"

definition GenNumberString :: "(nat \<Rightarrow> nat \<Rightarrow> nat option) \<Rightarrow> int \<Rightarrow> (string, string) outcome" where
  "GenNumberString rnd len = gen_loop rnd alphabet10 0 (nat len) []"

text \<open>\<open>date\<close> is \<^verbatim>\<open>time.Now().Format("20060102")\<close>.\<close>

definition GenDateRnString :: "(nat \<Rightarrow> nat \<Rightarrow> nat option) \<Rightarrow> string \<Rightarrow> string \<Rightarrow> (string, string) outcome" where
  "GenDateRnString rnd date idString =
     (case gen_loop rnd alphabet10 0 2 [] of
        Returns container \<Rightarrow> Returns (strings_Join [date, idString, container] [])
      | Panics p \<Rightarrow> Panics p)"

text \<open>\<^verbatim>\<open>make([]byte, len)\<close> panics on a negative length and otherwise gives zero bytes.\<close>

definition GenBytes :: "(nat \<Rightarrow> nat \<Rightarrow> nat option) \<Rightarrow> int \<Rightarrow> (string, bytes) outcome" where
  "GenBytes rnd len =
     (if len < 0 then Panics ''makeslice: len out of range''
      else gen_loop rnd alphabet62 0 (nat len) (replicate (nat len) (CHR 0x00)))"

text \<open>\<^verbatim>\<open>GenString\<close> of \<^verbatim>\<open>libs/jwt\<close> is a copy of the one above.\<close>

definition jwt_GenString :: "(nat \<Rightarrow> nat \<Rightarrow> nat option) \<Rightarrow> int \<Rightarrow> (string, string) outcome" where
  "jwt_GenString rnd len = gen_loop rnd alphabet62 0 (nat len) []"

text \<open>The documented contract of \<^verbatim>\<open>rand.Int\<close>: a value in \<open>[0, n)\<close>, no error.\<close>

definition rnd_ok :: "(nat \<Rightarrow> nat \<Rightarrow> nat option) \<Rightarrow> bool" where
  "rnd_ok rnd \<longleftrightarrow> (\<forall>k n. 0 < n \<longrightarrow> (\<exists>r<n. rnd k n = Some r))"

section \<open>What the clock and the worker satisfy\<close>

text \<open>The 41 bits of milliseconds after the epoch that the identifier has room for.\<close>

definition in_range :: "int64 \<Rightarrow> bool" where
  "in_range now \<longleftrightarrow> sint epoch \<le> sint now \<and> sint now < sint epoch + 2 ^ 41"

text \<open>
  What the clock does over the first \<open>n\<close> readings for the worker to be used as intended: it
  stays in the 41-bit range, never goes back, and shows no millisecond to more than 4096 readings.
\<close>

definition clock_ok :: "(nat \<Rightarrow> int64) \<Rightarrow> nat \<Rightarrow> bool" where
  "clock_ok clk n \<longleftrightarrow>
     (\<forall>k<n. in_range (nowMs clk k)) \<and>
     (\<forall>k<n. Suc k < n \<longrightarrow> nowMs clk k \<le>s nowMs clk (Suc k)) \<and>
     (\<forall>k<n. k + 4096 < n \<longrightarrow> nowMs clk k <s nowMs clk (k + 4096))"

definition worker_at :: "(nat \<Rightarrow> int64) \<Rightarrow> UuidWorker \<Rightarrow> nat \<Rightarrow> bool" where
  "worker_at clk w k \<longleftrightarrow>
     0 \<le> sint (workerID w) \<and> sint (workerID w) < 1024 \<and>
     (if k = 0 then timestamp w = 0 \<and> number w = 0
      else \<exists>j<k. j < 4096 \<and> sint (number w) = int j \<and> timestamp w = nowMs clk (k - 1)
             \<and> timestamp w = nowMs clk (k - 1 - j))"

section \<open>The layout of an identifier\<close>

lemma workerMax_val: "workerMax = 1023"
  by (simp add: workerMax_def workerBits_def mask_numeral)

lemma numberMax_val: "numberMax = 4095"
  by (simp add: numberMax_def numberBits_def mask_numeral)

lemmas shift_vals = timeShift_def workerShift_def workerBits_def numberBits_def

lemma push_or_int: "0 \<le> b \<Longrightarrow> b < 2 ^ n \<Longrightarrow> push_bit n a OR b = a * 2 ^ n + (b :: int)"
  using concat_bit_eq [of n b a] concat_bit_def [of n b a]
  by (simp add: take_bit_int_eq_self push_bit_eq_mult or.commute)

lemma sint_epoch: "sint epoch = 1652751577000"
  by (simp add: epoch_def)

lemma sint_small: "0 \<le> i \<Longrightarrow> i < 2 ^ 63 \<Longrightarrow> sint (word_of_int i :: int64) = i"
  by (simp add: signed_of_int signed_take_bit_int_eq_self)

lemma mkID_as_int:
  "mkID now w = word_of_int (push_bit 22 (sint now - sint epoch)
     OR (push_bit 12 (sint (workerID w)) OR sint (number w)))"
  by (simp add: mkID_def shift_vals of_int_or_eq of_int_push_bit or.assoc)

lemma sint_mkID:
  assumes "in_range now" and "0 \<le> sint (workerID w)" and "sint (workerID w) < 1024"
    and "0 \<le> sint (number w)" and "sint (number w) < 4096"
  shows "sint (mkID now w) =
    (sint now - sint epoch) * 2 ^ 22 + sint (workerID w) * 2 ^ 12 + sint (number w)" (is "_ = ?v")
proof -
  let ?t = "sint now - sint epoch"
  have "push_bit 12 (sint (workerID w)) OR sint (number w) = sint (workerID w) * 2 ^ 12 + sint (number w)"
    using assms by (intro push_or_int) auto
  moreover have "push_bit 22 ?t OR (sint (workerID w) * 2 ^ 12 + sint (number w)) =
      ?t * 2 ^ 22 + (sint (workerID w) * 2 ^ 12 + sint (number w))"
    using assms by (intro push_or_int) auto
  ultimately have "mkID now w = word_of_int ?v"
    unfolding mkID_as_int by (simp only: add.assoc)
  moreover have "0 \<le> ?v" "?v < 2 ^ 63"
    using assms unfolding in_range_def by simp_all
  ultimately show ?thesis by (simp only: sint_small)
qed

lemma layout_int:
  fixes a b c :: int
  assumes "0 \<le> b" "b < 1024" "0 \<le> c" "c < 4096"
  shows "(a * 2 ^ 22 + b * 2 ^ 12 + c) div 2 ^ 22 = a"
    and "(a * 2 ^ 22 + b * 2 ^ 12 + c) mod 2 ^ 22 div 2 ^ 12 = b"
    and "(a * 2 ^ 22 + b * 2 ^ 12 + c) mod 2 ^ 12 = c"
proof -
  have "(a * 2 ^ 22 + b * 2 ^ 12 + c) mod 2 ^ 22 = b * 2 ^ 12 + c"
    by (rule int_mod_pos_eq [of _ _ a]) (use assms in simp_all)
  moreover have "(b * 2 ^ 12 + c) div 2 ^ 12 = b"
    by (rule int_div_pos_eq [of _ _ _ c]) (use assms in simp_all)
  ultimately show "(a * 2 ^ 22 + b * 2 ^ 12 + c) mod 2 ^ 22 div 2 ^ 12 = b" by simp
  show "(a * 2 ^ 22 + b * 2 ^ 12 + c) div 2 ^ 22 = a"
    by (rule int_div_pos_eq [of _ _ _ "b * 2 ^ 12 + c"]) (use assms in simp_all)
  show "(a * 2 ^ 22 + b * 2 ^ 12 + c) mod 2 ^ 12 = c"
    by (rule int_mod_pos_eq [of _ _ "a * 2 ^ 10 + b"]) (use assms in simp_all)
qed

lemma sint_take_bit: "0 \<le> sint i \<Longrightarrow> n < 63 \<Longrightarrow> sint (take_bit n i :: int64) = sint i mod 2 ^ n"
proof -
  assume a: "0 \<le> sint i" "n < 63"
  have "take_bit n i = word_of_int (take_bit n (sint i))"
    by (simp add: take_bit_of_int [symmetric])
  moreover have "take_bit n (sint i) < 2 ^ 63"
    using a(2) take_bit_int_less_exp [of n "sint i"] power_strict_increasing [of n 63 "2::int"] by linarith
  ultimately show ?thesis by (simp add: sint_small take_bit_eq_mod)
qed

lemma Unmarshal_fields:
  assumes "0 \<le> sint i"
  shows "f_id (Unmarshal i) = i"
    and "sint (f_worker (Unmarshal i)) = sint i mod 2 ^ 22 div 2 ^ 12"
    and "sint (f_number (Unmarshal i)) = sint i mod 2 ^ 12"
proof -
  have m: "i AND (push_bit n 1 - 1) = take_bit n i" for n
    by (simp add: take_bit_eq_mask mask_eq_exp_minus_1 push_bit_eq_mult)
  show "f_id (Unmarshal i) = i" by (simp add: Unmarshal_def)
  show "sint (f_worker (Unmarshal i)) = sint i mod 2 ^ 22 div 2 ^ 12"
    unfolding Unmarshal_def m
    using assms by (simp add: shift_vals sint_signed_drop_bit_eq sint_take_bit drop_bit_eq_div)
  show "sint (f_number (Unmarshal i)) = sint i mod 2 ^ 12"
    unfolding Unmarshal_def m using assms by (simp add: shift_vals sint_take_bit)
qed

lemma Unmarshal_time:
  assumes "in_range now" and "signed_drop_bit timeShift i = now - epoch"
  shows "sint (f_time (Unmarshal i)) = sint now div 1000"
proof -
  have p: "0 < sint now" and b: "sint now < 2 ^ 42"
    using assms(1) by (simp_all add: in_range_def sint_epoch)
  then have "sint now div 1000 < 2 ^ 63" "0 \<le> sint now div 1000" by simp_all
  with p assms(2) show ?thesis
    by (simp add: Unmarshal_def sdiv64_def sgn_if sint_small)
qed

text \<open>
  C28. An identifier built from a worker's fields decodes to them: with the timestamp within 41 bits
  after the epoch, a worker id in its range and at most 4095 identifiers in the millisecond,
  \<^verbatim>\<open>Unmarshal\<close> returns the identifier, the second it was made in, the worker and the number.
\<close>

theorem unmarshal_mkID:
  assumes "in_range now" and "0 \<le> sint (workerID w)" and "sint (workerID w) \<le> sint workerMax"
    and "0 \<le> sint (number w)" and "sint (number w) \<le> sint numberMax"
  shows "f_id (Unmarshal (mkID now w)) = mkID now w
    \<and> sint (f_time (Unmarshal (mkID now w))) = sint now div 1000
    \<and> f_worker (Unmarshal (mkID now w)) = workerID w
    \<and> f_number (Unmarshal (mkID now w)) = number w"
proof -
  have r: "sint (workerID w) < 1024" "sint (number w) < 4096"
    using assms(3,5) by (simp_all add: workerMax_val numberMax_val)
  note v = sint_mkID [OF assms(1,2) r(1) assms(4) r(2)]
  note l = layout_int [OF assms(2) r(1) assms(4) r(2), of "sint now - sint epoch"]
  have nn: "0 \<le> sint (mkID now w)"
    using assms r v by (simp add: in_range_def)
  have "sint (signed_drop_bit timeShift (mkID now w)) = sint now - sint epoch"
    unfolding sint_signed_drop_bit_eq drop_bit_eq_div v shift_vals using l(1) by simp
  moreover have "sint (now - epoch) = sint now - sint epoch"
    using assms(1) sint_small [of "sint now - sint epoch"] by (simp add: in_range_def)
  ultimately have "signed_drop_bit timeShift (mkID now w) = now - epoch"
    by (metis signed_word_eqI)
  then have "sint (f_time (Unmarshal (mkID now w))) = sint now div 1000"
    using assms(1) by (intro Unmarshal_time) simp_all
  moreover have "sint (f_worker (Unmarshal (mkID now w))) = sint (workerID w)"
    unfolding Unmarshal_fields(2) [OF nn] v by (rule l(2))
  moreover have "sint (f_number (Unmarshal (mkID now w))) = sint (number w)"
    unfolding Unmarshal_fields(3) [OF nn] v by (rule l(3))
  ultimately show ?thesis
    using Unmarshal_fields(1) [OF nn] by (auto intro: signed_word_eqI)
qed

theorem unmarshal_mkID_witness:
  "f_worker (Unmarshal (mkID 1700000000000 \<lparr>timestamp = 1700000000000, workerID = 5, number = 7\<rparr>)) = 5
   \<and> f_number (Unmarshal (mkID 1700000000000 \<lparr>timestamp = 1700000000000, workerID = 5, number = 7\<rparr>)) = 7"
  using unmarshal_mkID [of 1700000000000 "\<lparr>timestamp = 1700000000000, workerID = 5, number = 7\<rparr>"]
  by (simp add: in_range_def epoch_def workerMax_val numberMax_val)

section \<open>Sequences of identifiers\<close>

lemma mkID_less:
  assumes "in_range a" "in_range b" "workerID w = workerID v"
    and "0 \<le> sint (workerID w)" "sint (workerID w) < 1024"
    and "0 \<le> sint (number w)" "sint (number w) < 4096"
    and "0 \<le> sint (number v)" "sint (number v) < 4096"
    and "sint a < sint b \<or> a = b \<and> sint (number w) < sint (number v)"
  shows "mkID a w <s mkID b v"
proof -
  note wa = sint_mkID [OF assms(1,4,5,6,7)]
  have wb: "sint (mkID b v) = (sint b - sint epoch) * 2 ^ 22 + sint (workerID w) * 2 ^ 12 + sint (number v)"
    using assms by (simp add: sint_mkID)
  have "sint (mkID a w) < sint (mkID b v)"
    using assms(10) unfolding wa wb
  proof
    assume "sint a < sint b"
    then have "(sint a - sint epoch + 1) * 2 ^ 22 \<le> (sint b - sint epoch) * 2 ^ 22"
      by (intro mult_right_mono) simp_all
    with assms(6-9) show "(sint a - sint epoch) * 2 ^ 22 + sint (workerID w) * 2 ^ 12 + sint (number w)
      < (sint b - sint epoch) * 2 ^ 22 + sint (workerID w) * 2 ^ 12 + sint (number v)"
      by simp
  qed simp
  then show ?thesis by (simp add: word_sless_alt)
qed

lemma in_range_nonzero: "in_range now \<Longrightarrow> now \<noteq> 0"
  by (auto simp: in_range_def sint_epoch)

lemma Get_fresh:
  "timestamp w \<noteq> nowMs clk k \<Longrightarrow>
   Get clk w k = Some (mkID (nowMs clk k) (w\<lparr>number := 0, timestamp := nowMs clk k\<rparr>),
                       w\<lparr>number := 0, timestamp := nowMs clk k\<rparr>, Suc k)"
  by (simp add: Get_def Let_def)

lemma Get_same:
  "timestamp w = nowMs clk k \<Longrightarrow> \<not> numberMax <s number w + 1 \<Longrightarrow>
   Get clk w k = Some (mkID (nowMs clk k) (w\<lparr>number := number w + 1\<rparr>),
                       w\<lparr>number := number w + 1\<rparr>, Suc k)"
  by (simp add: Get_def Let_def)

lemma sint_succ: "0 \<le> sint x \<Longrightarrow> sint x < 2 ^ 62 \<Longrightarrow> sint (x + 1 :: int64) = sint x + 1"
  using sint_small [of "sint x + 1"] by simp

lemma clock_mono:
  assumes "clock_ok clk n" "i \<le> j" "j < n"
  shows "sint (nowMs clk i) \<le> sint (nowMs clk j)"
  using assms(2,3)
proof (induction j rule: dec_induct)
  case (step m)
  then have "nowMs clk m \<le>s nowMs clk (Suc m)"
    using assms(1) by (auto simp: clock_ok_def)
  with step show ?case by (simp add: word_sle_eq)
qed simp

lemma worker_step:
  assumes ok: "clock_ok clk n" "k < n" and at: "worker_at clk w k"
  shows "\<exists>w'. Get clk w k = Some (mkID (nowMs clk k) w', w', Suc k) \<and> worker_at clk w' (Suc k)
    \<and> (0 < k \<longrightarrow> mkID (nowMs clk (k - 1)) w <s mkID (nowMs clk k) w')"
proof (cases "timestamp w = nowMs clk k")
  case False
  let ?w = "w\<lparr>number := 0, timestamp := nowMs clk k\<rparr>"
  have r: "in_range (nowMs clk k)" using ok by (simp add: clock_ok_def)
  have "worker_at clk ?w (Suc k)"
    using at by (auto simp: worker_at_def intro!: exI [of _ 0])
  moreover have "mkID (nowMs clk (k - 1)) w <s mkID (nowMs clk k) ?w" if "0 < k"
  proof -
    have "sint (nowMs clk (k - 1)) \<le> sint (nowMs clk k)"
      using clock_mono [OF ok(1), of "k - 1" k] ok(2) by simp
    moreover have "sint (nowMs clk (k - 1)) \<noteq> sint (nowMs clk k)"
      using False at that by (auto simp: worker_at_def dest: signed_word_eqI)
    moreover have "in_range (nowMs clk (k - 1))" using ok by (simp add: clock_ok_def)
    ultimately show ?thesis using at that r
      by (intro mkID_less) (auto simp: worker_at_def split: if_splits)
  qed
  ultimately show ?thesis using Get_fresh [OF False] by blast
next
  case True
  have r: "in_range (nowMs clk k)" using ok by (simp add: clock_ok_def)
  then have "0 < k" using True at in_range_nonzero [OF r] by (auto simp: worker_at_def split: if_splits)
  with at obtain j where j: "j < k" "j < 4096" "sint (number w) = int j"
    "timestamp w = nowMs clk (k - 1)" "timestamp w = nowMs clk (k - 1 - j)"
    by (auto simp: worker_at_def)
  have "j \<noteq> 4095"
  proof
    assume "j = 4095"
    with j have "k - 1 - j + 4096 = k" by simp
    then have "nowMs clk (k - 1 - j) <s nowMs clk k"
      using ok by (auto simp: clock_ok_def dest!: spec [of _ "k - 1 - j"])
    with j True show False by simp
  qed
  with j have jj: "Suc j < 4096" by simp
  let ?w = "w\<lparr>number := number w + 1\<rparr>"
  have s: "sint (number w + 1) = int (Suc j)" using j by (simp add: sint_succ)
  then have "\<not> numberMax <s number w + 1"
    using jj by (simp add: numberMax_val word_sless_alt)
  then have g: "Get clk w k = Some (mkID (nowMs clk k) ?w, ?w, Suc k)"
    by (rule Get_same [OF True])
  have "worker_at clk ?w (Suc k)"
    using at True j jj s \<open>0 < k\<close> by (auto simp: worker_at_def intro!: exI [of _ "Suc j"])
  moreover have "mkID (nowMs clk (k - 1)) w <s mkID (nowMs clk k) ?w"
    using at r True j s jj by (intro mkID_less) (auto simp: worker_at_def split: if_splits)
  ultimately show ?thesis using g by blast
qed

lemma GetMany_sorted:
  assumes "clock_ok clk n"
  shows "worker_at clk w k \<Longrightarrow> k + m \<le> n \<Longrightarrow>
    \<exists>ids w'. GetMany clk m w k = Some (ids, w', k + m) \<and> length ids = m \<and> sorted_wrt (<s) ids
      \<and> (0 < k \<longrightarrow> (\<forall>i \<in> set ids. mkID (nowMs clk (k - 1)) w <s i))"
proof (induction m arbitrary: w k)
  case (Suc m)
  from Suc.prems(2) have "k < n" by simp
  from worker_step [OF assms this Suc.prems(1)]
  obtain w1 where w1: "Get clk w k = Some (mkID (nowMs clk k) w1, w1, Suc k)"
    "worker_at clk w1 (Suc k)" "0 < k \<longrightarrow> mkID (nowMs clk (k - 1)) w <s mkID (nowMs clk k) w1"
    by blast
  have "Suc k + m \<le> n" using Suc.prems(2) by simp
  from Suc.IH [OF w1(2) this] obtain ids w' where
    "GetMany clk m w1 (Suc k) = Some (ids, w', Suc k + m)" "length ids = m" "sorted_wrt (<s) ids"
    "\<forall>i \<in> set ids. mkID (nowMs clk k) w1 <s i"
    by auto
  with w1 show ?case by (auto intro: signed.less_trans)
qed simp

lemma NewUuidWorker_at: "NewUuidWorker wid = Inr w \<Longrightarrow> worker_at clk w 0"
  by (auto simp: NewUuidWorker_def worker_at_def workerMax_val word_sless_alt split: if_splits)

text \<open>
  C12. Over a clock that behaves, a new worker's first \<open>n\<close> calls of \<^verbatim>\<open>Get\<close> all return, with one
  clock reading each, and the identifiers are strictly increasing, hence pairwise distinct.
\<close>

theorem get_many_increasing:
  assumes "NewUuidWorker wid = Inr w" and "clock_ok clk n"
  shows "\<exists>ids w'. GetMany clk n w 0 = Some (ids, w', n) \<and> length ids = n
    \<and> sorted_wrt (<s) ids \<and> distinct ids"
proof -
  from GetMany_sorted [OF assms(2) NewUuidWorker_at [OF assms(1)], of n]
  obtain ids w' where g: "GetMany clk n w 0 = Some (ids, w', n)" "length ids = n" "sorted_wrt (<s) ids"
    by auto
  from g(3) have "distinct ids"
    by (induction ids) auto
  with g show ?thesis by blast
qed

theorem get_many_increasing_witness:
  "\<exists>ids w'. GetMany (\<lambda>k. if k < 2 then 1700000000000000000 else 1700000000001000000) 3
       \<lparr>timestamp = 0, workerID = 1, number = 0\<rparr> 0 = Some (ids, w', 3) \<and> distinct ids"
proof -
  let ?clk = "\<lambda>k :: nat. if k < 2 then 1700000000000000000 else 1700000000001000000 :: int64"
  have "clock_ok ?clk 3"
    by (simp add: clock_ok_def numeral_3_eq_3 less_Suc_eq all_conj_distrib nowMs_def sdiv64_def
        in_range_def epoch_def word_sle_eq)
  moreover have "NewUuidWorker 1 = Inr \<lparr>timestamp = 0, workerID = 1, number = 0\<rparr>"
    by (simp add: NewUuidWorker_def workerMax_val word_sless_alt)
  ultimately show ?thesis
    using get_many_increasing [of 1 "\<lparr>timestamp = 0, workerID = 1, number = 0\<rparr>" ?clk 3] by blast
qed

section \<open>Waiting for the next millisecond\<close>

lemma spin_returns:
  "ts <s now \<or> (\<exists>j\<ge>k. ts <s nowMs clk j) \<Longrightarrow>
   \<exists>now' k'. spin clk ts k now = Some (now', k') \<and> ts <s now' \<and> k \<le> k'"
proof (cases "ts <s now")
  case True
  then show ?thesis by (subst spin.simps) (auto simp: signed.not_le)
next
  case False
  assume "ts <s now \<or> (\<exists>j\<ge>k. ts <s nowMs clk j)"
  with False obtain j where "k \<le> j" "ts <s nowMs clk j" by blast
  with False show ?thesis
  proof (induction "j - k" arbitrary: k now)
    case 0
    then have "spin clk ts k now = Some (nowMs clk k, Suc k)"
      by (subst spin.simps, subst spin.simps) (auto simp: signed.not_le signed.not_less)
    with 0 show ?case by auto
  next
    case (Suc d)
    have unfold: "spin clk ts k now = spin clk ts (Suc k) (nowMs clk k)"
      using Suc.prems(1) by (subst spin.simps) (simp add: signed.not_less)
    show ?case
    proof (cases "ts <s nowMs clk k")
      case True
      then have "spin clk ts (Suc k) (nowMs clk k) = Some (nowMs clk k, Suc k)"
        by (subst spin.simps) (auto simp: signed.not_le)
      with True unfold show ?thesis by auto
    next
      case False
      have "d = j - Suc k" "Suc k \<le> j" using Suc.hyps(2) Suc.prems by simp_all
      from Suc.hyps(1) [OF this(1) False this(2) Suc.prems(3)] show ?thesis
        unfolding unfold by (auto dest: Suc_leD)
    qed
  qed
qed

text \<open>
  C30. \<^verbatim>\<open>Get\<close> terminates whenever the clock later shows a time after the worker's timestamp, also
  when the millisecond's 4096 numbers are used up and it has to wait.
\<close>

theorem get_terminates:
  assumes "\<exists>j>k. timestamp w <s nowMs clk j"
  shows "\<exists>i w' k'. Get clk w k = Some (i, w', k') \<and> k < k'"
proof -
  from assms have "\<exists>j\<ge>Suc k. timestamp w <s nowMs clk j" by (auto simp: Suc_le_eq)
  then obtain now' k' where "spin clk (timestamp w) (Suc k) (nowMs clk k) = Some (now', k')" "Suc k \<le> k'"
    using spin_returns by blast
  then show ?thesis by (auto simp: Get_def Let_def split: option.splits)
qed

theorem get_terminates_witness:
  "\<exists>i w' k'. Get (\<lambda>k. if k = 0 then 1700000000000000000 else 1700000000001000000)
     \<lparr>timestamp = 1700000000000, workerID = 0, number = 4095\<rparr> 0 = Some (i, w', k')"
proof -
  let ?clk = "\<lambda>k :: nat. if k = 0 then 1700000000000000000 else 1700000000001000000 :: int64"
  have "(1700000000000 :: int64) <s nowMs ?clk 1"
    by (simp add: nowMs_def sdiv64_def)
  then have "\<exists>j>0. timestamp \<lparr>timestamp = 1700000000000, workerID = 0, number = 4095\<rparr> <s nowMs ?clk j"
    by (intro exI [of _ 1]) simp
  from get_terminates [OF this] show ?thesis by blast
qed

section \<open>More than 4096 identifiers in one millisecond\<close>

text \<open>
  When the number overflows, \<^verbatim>\<open>Get\<close> waits for the next millisecond but leaves the number at 4096
  and the timestamp at the old millisecond. The number's 13th bit then lands in the worker field.
\<close>

lemma Get_overflow:
  assumes "timestamp w = nowMs clk k" and "number w = numberMax"
    and "timestamp w <s nowMs clk (Suc k)"
  shows "Get clk w k = Some (mkID (nowMs clk (Suc k)) (w\<lparr>number := 4096\<rparr>), w\<lparr>number := 4096\<rparr>, Suc (Suc k))"
proof -
  have "spin clk (timestamp w) (Suc k) (nowMs clk k) = Some (nowMs clk (Suc k), Suc (Suc k))"
    using assms by (subst spin.simps, subst spin.simps) (auto simp: signed.not_le)
  with assms show ?thesis
    by (simp add: Get_def Let_def numberMax_val)
qed

lemma mkID_overflow: "mkID now (w\<lparr>number := 4096\<rparr>) = mkID now (w\<lparr>workerID := workerID w OR 1, number := 0\<rparr>)"
proof -
  have "(4096 :: int64) = push_bit 12 1" by simp
  then show ?thesis
    by (simp add: mkID_def shift_vals push_bit_or or.assoc del: push_bit_numeral)
qed

lemma odd_or_one: "odd (x :: int64) \<Longrightarrow> x OR 1 = x"
  by (rule bit_eqI) (auto simp: bit_simps even_iff_mod_2_eq_zero bit_0)

lemma GetMany_add:
  "GetMany clk (m + n) w k =
     (case GetMany clk m w k of None \<Rightarrow> None
      | Some (xs, w', k') \<Rightarrow>
          (case GetMany clk n w' k' of None \<Rightarrow> None
           | Some (ys, w'', k'') \<Rightarrow> Some (xs @ ys, w'', k'')))"
  by (induction m arbitrary: w k) (auto split: option.splits)

lemma GetMany_constant:
  assumes "timestamp w = 0" and "T \<noteq> 0"
  shows "n < 4096 \<Longrightarrow> \<forall>i\<le>n. nowMs clk i = T \<Longrightarrow>
    \<exists>ids. GetMany clk (Suc n) w 0 = Some (ids, w\<lparr>number := of_nat n, timestamp := T\<rparr>, Suc n) \<and> length ids = Suc n"
proof (induction n)
  case 0
  with assms Get_fresh [of w clk 0] show ?case by simp
next
  case (Suc n)
  then obtain ids where ids: "GetMany clk (Suc n) w 0 = Some (ids, w\<lparr>number := of_nat n, timestamp := T\<rparr>, Suc n)"
    "length ids = Suc n" by auto
  have "sint (of_nat n :: int64) = int n"
    using Suc.prems(1) sint_small [of "int n"] by simp
  then have "\<not> numberMax <s of_nat n + 1"
    using Suc.prems(1) by (simp add: numberMax_val word_sless_alt sint_succ)
  then have "Get clk (w\<lparr>number := of_nat n, timestamp := T\<rparr>) (Suc n) =
    Some (mkID T (w\<lparr>number := of_nat (Suc n), timestamp := T\<rparr>), w\<lparr>number := of_nat (Suc n), timestamp := T\<rparr>, Suc (Suc n))"
    using Suc.prems(2) Get_same [of "w\<lparr>number := of_nat n, timestamp := T\<rparr>" clk "Suc n"]
    by (simp add: add.commute mkID_def)
  with ids GetMany_add [of clk "Suc n" "Suc 0" w 0] show ?case
    by (auto simp del: GetMany.simps(2) of_nat_Suc simp: GetMany.simps(2) [of clk 0])
qed

text \<open>
  The worker's identifiers are not unique when a millisecond sees more than 4096 calls: for an
  odd worker id, the call that overflows and the next one return the same identifier.
\<close>

theorem get_overflow_duplicates:
  assumes "NewUuidWorker wid = Inr w" and "odd wid" and "T0 \<noteq> 0" and "T0 <s T1"
    and "\<forall>k\<le>4096. nowMs clk k = T0" and "nowMs clk 4097 = T1" and "nowMs clk 4098 = T1"
  shows "\<exists>ids w'. GetMany clk 4098 w 0 = Some (ids, w', 4099) \<and> ids ! 4096 = ids ! 4097"
proof -
  have w: "w = \<lparr>timestamp = 0, workerID = wid, number = 0\<rparr>"
    using assms(1) by (auto simp: NewUuidWorker_def split: if_splits)
  let ?w = "w\<lparr>number := of_nat 4095, timestamp := T0\<rparr>"
  obtain ids where ids: "GetMany clk (Suc 4095) w 0 = Some (ids, ?w, Suc 4095)" "length ids = Suc 4095"
    using GetMany_constant [of w T0 4095 clk] assms w by auto
  let ?v = "w\<lparr>number := 4096, timestamp := T0\<rparr>"
  have 1: "Get clk ?w 4096 = Some (mkID T1 ?v, ?v, 4098)"
    using Get_overflow [of ?w clk 4096] assms by (simp add: numberMax_val mkID_def)
  have "T0 \<noteq> T1" using assms(4) by auto
  then have 2: "Get clk ?v 4098 = Some (mkID T1 (w\<lparr>number := 0, timestamp := T1\<rparr>), w\<lparr>number := 0, timestamp := T1\<rparr>, 4099)"
    using Get_fresh [of ?v clk 4098] assms by simp
  have same: "mkID T1 ?v = mkID T1 (w\<lparr>number := 0, timestamp := T1\<rparr>)"
    using mkID_overflow [of T1 "w\<lparr>timestamp := T0\<rparr>"] odd_or_one [OF assms(2)] w
    by (simp add: mkID_def)
  have "GetMany clk 2 ?w 4096 = Some ([mkID T1 ?v, mkID T1 ?v], w\<lparr>number := 0, timestamp := T1\<rparr>, 4099)"
    using 1 2 same by (simp add: numeral_2_eq_2 del: of_nat_numeral)
  with ids GetMany_add [of clk 4096 2 w 0]
  have "GetMany clk 4098 w 0 = Some (ids @ [mkID T1 ?v, mkID T1 ?v], w\<lparr>number := 0, timestamp := T1\<rparr>, 4099)"
    by (simp del: of_nat_numeral)
  then show ?thesis using ids(2) by (auto simp: nth_append)
qed

theorem get_overflow_duplicates_witness:
  "\<exists>ids w'. GetMany (\<lambda>k. if k \<le> 4096 then 1700000000000000000 else 1700000000001000000) 4098
       \<lparr>timestamp = 0, workerID = 1, number = 0\<rparr> 0 = Some (ids, w', 4099) \<and> ids ! 4096 = ids ! 4097"
  by (rule get_overflow_duplicates [of 1 _ 1700000000000 1700000000001])
    (simp_all add: NewUuidWorker_def workerMax_val word_sless_alt nowMs_def sdiv64_def)

section \<open>The random strings\<close>

lemma gen_loop_ok:
  assumes "rnd_ok rnd" and "str \<noteq> []"
  shows "\<exists>t. gen_loop rnd str k n c = Returns (c @ t) \<and> length t = n \<and> set t \<subseteq> set str"
proof (induction n arbitrary: k c)
  case (Suc n)
  obtain r where r: "r < length str" "rnd k (length str) = Some r"
    using assms unfolding rnd_ok_def by (metis length_greater_0_conv)
  from Suc.IH [of "Suc k" "c @ [str ! r]"] obtain t where
    "gen_loop rnd str (Suc k) n (c @ [str ! r]) = Returns (c @ [str ! r] @ t)" "length t = n" "set t \<subseteq> set str"
    by auto
  with r show ?case by (intro exI [of _ "str ! r # t"]) auto
qed simp

lemma alphabets_not_Nil [simp]: "alphabet62 \<noteq> []" "alphabet10 \<noteq> []"
  by (simp_all add: alphabet62_def alphabet10_def)

text \<open>
  With a working random source, \<^verbatim>\<open>GenString(len)\<close> returns \<open>len\<close> characters of its 62-letter
  alphabet (none for a negative \<open>len\<close>), and \<^verbatim>\<open>GenDateRnString\<close> the date, the id and two digits.
\<close>

theorem gen_string_spec:
  assumes "rnd_ok rnd"
  shows "(\<exists>s. GenString rnd len = Returns s \<and> length s = nat len \<and> set s \<subseteq> set alphabet62)
    \<and> (\<exists>s. GenNumberString rnd len = Returns s \<and> length s = nat len \<and> set s \<subseteq> set alphabet10)
    \<and> (\<exists>s. GenDateRnString rnd date idString = Returns (date @ idString @ s)
         \<and> length s = 2 \<and> set s \<subseteq> set alphabet10)"
proof -
  have "\<exists>s. GenString rnd len = Returns s \<and> length s = nat len \<and> set s \<subseteq> set alphabet62"
    using gen_loop_ok [OF assms alphabets_not_Nil(1), of 0 "nat len" "[]"] by (auto simp: GenString_def)
  moreover have "\<exists>s. GenNumberString rnd len = Returns s \<and> length s = nat len \<and> set s \<subseteq> set alphabet10"
    using gen_loop_ok [OF assms alphabets_not_Nil(2), of 0 "nat len" "[]"] by (auto simp: GenNumberString_def)
  moreover have "\<exists>s. GenDateRnString rnd date idString = Returns (date @ idString @ s)
         \<and> length s = 2 \<and> set s \<subseteq> set alphabet10"
    using gen_loop_ok [OF assms alphabets_not_Nil(2), of 0 2 "[]"]
    by (auto simp: GenDateRnString_def)
  ultimately show ?thesis by blast
qed

theorem gen_string_spec_witness:
  "(\<exists>s. GenString (\<lambda>k n. if 0 < n then Some 0 else None) 8 = Returns s \<and> length s = nat 8)"
proof -
  have "rnd_ok (\<lambda>k n. if 0 < n then Some 0 else None)" by (simp add: rnd_ok_def)
  from gen_string_spec [OF this, of 8 "[]" "[]"] show ?thesis by blast
qed

text \<open>
  \<^verbatim>\<open>GenBytes(len)\<close> returns twice the length asked for: \<open>len\<close> zero bytes followed by the
  \<open>len\<close> random characters.
\<close>

theorem gen_bytes_doubles:
  assumes "rnd_ok rnd" and "0 \<le> len"
  shows "\<exists>t. GenBytes rnd len = Returns (replicate (nat len) (CHR 0x00) @ t)
    \<and> length t = nat len \<and> set t \<subseteq> set alphabet62"
  using gen_loop_ok [OF assms(1) alphabets_not_Nil(1), of 0 "nat len" "replicate (nat len) (CHR 0x00)"] assms(2)
  by (simp add: GenBytes_def)

theorem gen_bytes_doubles_witness:
  "\<exists>b. GenBytes (\<lambda>k n. if 0 < n then Some 0 else None) 3 = Returns b \<and> length b = 6"
proof -
  have "rnd_ok (\<lambda>k n. if 0 < n then Some 0 else None)" by (simp add: rnd_ok_def)
  from gen_bytes_doubles [OF this, of 3] show ?thesis by auto
qed

end
