(* ===== verification/Go_Errors.thy ===== *)
theory Go_Errors
  imports Prelude
begin

text \<open>
  \<^verbatim>\<open>libs/errors\<close>: the error values of the library (\<^verbatim>\<open>StackError\<close>, \<^verbatim>\<open>wrappedError\<close>), their
  printing, and the try/catch emulations (\<^verbatim>\<open>TryCatch\<close>, \<^verbatim>\<open>TryFunc\<close>, and the chain
  \<^verbatim>\<open>Try(..).Catch(..).DefaultCatch(..).Else(..).Finally(..).Do()\<close>).

  A Go \<^verbatim>\<open>error\<close> is a \<open>gerr\<close>; a nil error is \<open>None\<close> of \<open>gerr option\<close>. Every error carries
  its identity (the pointer that \<^verbatim>\<open>==\<close> compares), so two errors with the same text are not
  confused. An error of another package is an \<open>OpaqueErr\<close>: its text, the identities its
  \<^verbatim>\<open>Is\<close> method accepts, what its \<^verbatim>\<open>Unwrap\<close> returns, and its stack trace if it has one. The
  functions of \<^verbatim>\<open>github.com/pkg/errors\<close> are parameters.

  A \<^verbatim>\<open>func()\<close> is a state transformer that returns or panics; \<^verbatim>\<open>defer\<close> and \<^verbatim>\<open>recover\<close> are
  written out. A call of \<open>Error()\<close> on a nil error is a nil dereference, \<open>None\<close> below.
\<close>

section \<open>Error values\<close>

text \<open>
  A frame of a stack trace is what its \<^verbatim>\<open>Format\<close> method writes for a verb, write by write.
\<close>

type_synonym frame = "char \<Rightarrow> string list"

datatype gerr =
    OpaqueErr nat string "nat list" "gerr list" "frame list option"
  | StackError nat int "gerr option" "gerr option list"
  | WrappedError nat "gerr option" "gerr option"

fun err_addr :: "gerr \<Rightarrow> nat" where
  "err_addr (OpaqueErr a _ _ _ _) = a"
| "err_addr (StackError a _ _ _) = a"
| "err_addr (WrappedError a _ _) = a"

text \<open>The \<^verbatim>\<open>Error()\<close> methods.\<close>

fun Error :: "gerr \<Rightarrow> string option" where
  "Error (OpaqueErr _ s _ _ _) = Some s"
| "Error (StackError _ _ None _) = None"
| "Error (StackError _ _ (Some e) _) = Error e"
| "Error (WrappedError _ None _) = None"
| "Error (WrappedError _ (Some outer) _) = Error outer"

definition ErrorOf :: "gerr option \<Rightarrow> string option" where
  "ErrorOf e = (case e of None \<Rightarrow> None | Some x \<Rightarrow> Error x)"

text \<open>
  \<^verbatim>\<open>errors.Is\<close> of the standard library: identity, the error's own \<^verbatim>\<open>Is\<close> method, then what
  \<^verbatim>\<open>Unwrap\<close> returns. \<^verbatim>\<open>StackError\<close> and \<^verbatim>\<open>wrappedError\<close> have neither method.
\<close>

fun is_tree :: "gerr \<Rightarrow> nat \<Rightarrow> bool" where
  "is_tree (OpaqueErr a _ accepts inner _) t =
     (a = t \<or> t \<in> set accepts \<or> list_ex (\<lambda>e. is_tree e t) inner)"
| "is_tree (StackError a _ _ _) t = (a = t)"
| "is_tree (WrappedError a _ _) t = (a = t)"

definition errors_Is :: "gerr \<Rightarrow> gerr option \<Rightarrow> bool" where
  "errors_Is e target = (case target of None \<Rightarrow> False | Some t \<Rightarrow> is_tree e (err_addr t))"

section \<open>StackError\<close>

fun AppendErrors :: "gerr \<Rightarrow> gerr option list \<Rightarrow> gerr" where
  "AppendErrors (StackError a c e xs) extras = StackError a c e (xs @ extras)"
| "AppendErrors e extras = e"

fun Code :: "gerr \<Rightarrow> int" where
  "Code (StackError _ c _ _) = c"
| "Code _ = 0"

fun Err :: "gerr \<Rightarrow> gerr option" where
  "Err (StackError _ _ e _) = e"
| "Err _ = None"

fun Errs :: "gerr \<Rightarrow> gerr option list" where
  "Errs (StackError _ _ _ xs) = xs"
| "Errs _ = []"

definition ExistExtra :: "gerr \<Rightarrow> bool" where
  "ExistExtra c = (if length (Errs c) = 0 then False else True)"

text \<open>The loop that collects the texts; the first nil error ends it with a panic.\<close>

fun texts :: "gerr option list \<Rightarrow> string list option" where
  "texts [] = Some []"
| "texts (e # es) =
     (case ErrorOf e of None \<Rightarrow> None
      | Some s \<Rightarrow> (case texts es of None \<Rightarrow> None | Some ss \<Rightarrow> Some (s # ss)))"

definition newline :: string where "newline = [CHR 0x0A]"

definition ToStrByExtra :: "gerr \<Rightarrow> string option" where
  "ToStrByExtra c =
     (case ErrorOf (Err c) of None \<Rightarrow> None
      | Some s \<Rightarrow> (case texts (Errs c) of None \<Rightarrow> None
                    | Some ss \<Rightarrow> Some (strings_Join (s # ss) newline)))"

definition Msg :: "gerr \<Rightarrow> string option" where
  "Msg c = (if length (Errs c) > 0 then ToStrByExtra c else ErrorOf (Err c))"

definition Convert :: "gerr option \<Rightarrow> gerr option" where
  "Convert e = (case e of Some (StackError a c x xs) \<Rightarrow> Some (StackError a c x xs) | _ \<Rightarrow> None)"

definition Assert :: "gerr option \<Rightarrow> bool" where
  "Assert e = (case e of Some (StackError _ _ _ _) \<Rightarrow> True | _ \<Rightarrow> False)"

text \<open>
  Constructors. \<open>a\<close> is the address of the new object; \<open>pkgNew\<close>, \<open>pkgWithStack\<close>, \<open>pkgWrap\<close> and
  \<open>pkgWrapf\<close> are \<^verbatim>\<open>New\<close>, \<^verbatim>\<open>WithStack\<close>, \<^verbatim>\<open>Wrap\<close> and \<^verbatim>\<open>Wrapf\<close> of \<^verbatim>\<open>pkg/errors\<close>.
\<close>

definition New :: "nat \<Rightarrow> (string \<Rightarrow> gerr option) \<Rightarrow> string \<Rightarrow> int \<Rightarrow> gerr option list \<Rightarrow> gerr" where
  "New a pkgNew s code extras = StackError a code (pkgNew s) extras"

definition WithStack :: "nat \<Rightarrow> (gerr option \<Rightarrow> gerr option) \<Rightarrow> gerr option \<Rightarrow> int \<Rightarrow> gerr option list \<Rightarrow> gerr" where
  "WithStack a pkgWithStack err code extras = StackError a code (pkgWithStack err) extras"

definition WithMessage ::
  "nat \<Rightarrow> (gerr option \<Rightarrow> gerr option) \<Rightarrow> (gerr option \<Rightarrow> string \<Rightarrow> gerr option) \<Rightarrow>
   gerr option \<Rightarrow> string \<Rightarrow> int \<Rightarrow> gerr option list \<Rightarrow> gerr" where
  "WithMessage a pkgWithStack pkgWrap err msg code extras =
     (let err1 = pkgWithStack err in StackError a code (pkgWrap err1 msg) extras)"

definition WithMessageF ::
  "nat \<Rightarrow> (gerr option \<Rightarrow> string \<Rightarrow> 'arg list \<Rightarrow> gerr option) \<Rightarrow>
   gerr option \<Rightarrow> string \<Rightarrow> int \<Rightarrow> 'arg list \<Rightarrow> gerr" where
  "WithMessageF a pkgWrapf err format code args = StackError a code (pkgWrapf err format args) []"

text \<open>
  \<^verbatim>\<open>Join\<close> is the standard library's: nil errors are dropped, all nil gives nil, the text is the
  texts on separate lines and \<^verbatim>\<open>Unwrap\<close> returns the errors. Its text is built when it is asked
  for; an element whose text panics is represented by an empty line.
\<close>

definition Join :: "nat \<Rightarrow> gerr option list \<Rightarrow> gerr option" where
  "Join a errs =
     (let es = List.map_filter id errs
      in if es = [] then None
         else Some (OpaqueErr a (strings_Join (map (\<lambda>e. case Error e of None \<Rightarrow> [] | Some s \<Rightarrow> s) es) newline) [] es None))"

definition Wrap :: "nat \<Rightarrow> gerr option \<Rightarrow> gerr option \<Rightarrow> gerr" where
  "Wrap a outer inner = WrappedError a outer inner"

definition Wrapf :: "nat \<Rightarrow> nat \<Rightarrow> string \<Rightarrow> gerr option \<Rightarrow> gerr option" where
  "Wrapf a b format err =
     (case (case err of None \<Rightarrow> Some ''<nil>'' | Some e \<Rightarrow> Error e) of
        None \<Rightarrow> None
      | Some outerMsg \<Rightarrow>
          Some (Wrap a (Some (OpaqueErr b (strings_ReplaceAll format ''{{err}}'' outerMsg) [] [] None)) err))"

fun WrappedErrors :: "gerr \<Rightarrow> gerr option list" where
  "WrappedErrors (WrappedError _ outer inner) = [outer, inner]"
| "WrappedErrors _ = []"

section \<open>Stack traces\<close>

record StackSourceEntity =
  File :: string
  LineCode :: string
  FuncName :: string

text \<open>
  \<^verbatim>\<open>frameField\<close>: the formatter's buffer \<^verbatim>\<open>s.b\<close> is overwritten by each write and kept when nothing
  is written; the result is the buffer.
\<close>

definition frameField :: "frame \<Rightarrow> bytes \<Rightarrow> char \<Rightarrow> bytes" where
  "frameField f b c = (if f c = [] then b else last (f c))"

fun marshal_loop :: "nat \<Rightarrow> nat \<Rightarrow> bytes \<Rightarrow> frame list \<Rightarrow> StackSourceEntity list" where
  "marshal_loop idx size' b [] = []"
| "marshal_loop idx size' b (f # fs) =
     (if idx = 0 \<or> int size' - int idx \<le> 2 then marshal_loop (Suc idx) size' b fs
      else let b1 = frameField f b CHR ''s'';
               b2 = frameField f b1 CHR ''d'';
               b3 = frameField f b2 CHR ''n''
           in \<lparr>File = b1, LineCode = b2, FuncName = b3\<rparr> # marshal_loop (Suc idx) size' b3 fs)"

fun StackTrace :: "gerr option \<Rightarrow> frame list option" where
  "StackTrace (Some (OpaqueErr _ _ _ _ st)) = st"
| "StackTrace _ = None"

definition MarshalStack :: "gerr option \<Rightarrow> StackSourceEntity list option" where
  "MarshalStack err =
     (case StackTrace err of None \<Rightarrow> None | Some st \<Rightarrow> Some (marshal_loop 0 (length st) [] st))"

definition entity_line :: "StackSourceEntity \<Rightarrow> string" where
  "entity_line item = ''file:'' @ File item @ '', line:'' @ LineCode item @ '', func:'' @ FuncName item"

definition ToStr :: "gerr option \<Rightarrow> string option" where
  "ToStr err =
     (case MarshalStack err of None \<Rightarrow> ErrorOf err
      | Some stacks \<Rightarrow> Some (foldl (\<lambda>s item. s @ entity_line item) [] stacks))"

definition ToArr :: "gerr option \<Rightarrow> string list option" where
  "ToArr err =
     (case MarshalStack err of
        None \<Rightarrow> (case ErrorOf err of None \<Rightarrow> None | Some s \<Rightarrow> Some [s])
      | Some stacks \<Rightarrow> Some (map entity_line stacks))"

definition StackError_ToStr :: "gerr \<Rightarrow> string option" where
  "StackError_ToStr c = ToStr (Err c)"

definition StackError_ToArr :: "gerr \<Rightarrow> string list option" where
  "StackError_ToArr c = ToArr (Err c)"

section \<open>Panics and recovery\<close>

text \<open>
  A panic value is an error or some other value, of which only its \<^verbatim>\<open>%+v\<close> text matters here.
  The world is the application's state and the next free address.
\<close>

datatype pval = PErr gerr | POther string

record 's world =
  next_addr :: nat
  app :: 's

type_synonym ('s, 'a) fn = "'s world \<Rightarrow> (pval, 'a) outcome \<times> 's world"
type_synonym 's proc = "('s, unit) fn"

definition toError :: "pval \<Rightarrow> 's world \<Rightarrow> gerr \<times> 's world" where
  "toError v w =
     (case v of
        PErr e \<Rightarrow> (e, w)
      | POther s \<Rightarrow> (OpaqueErr (next_addr w) (''panic: '' @ s) [] [] None, w\<lparr>next_addr := Suc (next_addr w)\<rparr>))"

definition IgnoreLastError2 :: "'v1 \<Rightarrow> gerr option \<Rightarrow> 'v1" where
  "IgnoreLastError2 v1 err = v1"
definition IgnoreLastError3 :: "'v1 \<Rightarrow> 'v2 \<Rightarrow> gerr option \<Rightarrow> 'v1 \<times> 'v2" where
  "IgnoreLastError3 v1 v2 err = (v1, v2)"
definition IgnoreLastError4 :: "'v1 \<Rightarrow> 'v2 \<Rightarrow> 'v3 \<Rightarrow> gerr option \<Rightarrow> 'v1 \<times> 'v2 \<times> 'v3" where
  "IgnoreLastError4 v1 v2 v3 err = (v1, v2, v3)"

text \<open>\<open>zero\<close> is the zero value of the result type, which a panic leaves in the named result.\<close>

definition TryCatchReturn :: "'r \<Rightarrow> ('s, 'r) fn \<Rightarrow> 's world \<Rightarrow> ('r \<times> gerr option) \<times> 's world" where
  "TryCatchReturn zero f w =
     (case f w of
        (Returns r, w1) \<Rightarrow> ((r, None), w1)
      | (Panics v, w1) \<Rightarrow> (let (e, w2) = toError v w1 in ((zero, Some e), w2)))"

definition TryCatchReturn2 ::
  "'r1 \<Rightarrow> 'r2 \<Rightarrow> ('s, 'r1 \<times> 'r2) fn \<Rightarrow> 's world \<Rightarrow> ('r1 \<times> 'r2 \<times> gerr option) \<times> 's world" where
  "TryCatchReturn2 zero1 zero2 f w =
     (case f w of
        (Returns (r1, r2), w1) \<Rightarrow> ((r1, r2, None), w1)
      | (Panics v, w1) \<Rightarrow> (let (e, w2) = toError v w1 in ((zero1, zero2, Some e), w2)))"

definition TryCatchReturn3 ::
  "'r1 \<Rightarrow> 'r2 \<Rightarrow> 'r3 \<Rightarrow> ('s, 'r1 \<times> 'r2 \<times> 'r3) fn \<Rightarrow> 's world \<Rightarrow>
   ('r1 \<times> 'r2 \<times> 'r3 \<times> gerr option) \<times> 's world" where
  "TryCatchReturn3 zero1 zero2 zero3 f w =
     (case f w of
        (Returns (r1, r2, r3), w1) \<Rightarrow> ((r1, r2, r3, None), w1)
      | (Panics v, w1) \<Rightarrow> (let (e, w2) = toError v w1 in ((zero1, zero2, zero3, Some e), w2)))"

definition TryCatch :: "'s proc \<Rightarrow> 's world \<Rightarrow> gerr option \<times> 's world" where
  "TryCatch f w =
     (case f w of
        (Returns _, w1) \<Rightarrow> (None, w1)
      | (Panics v, w1) \<Rightarrow> (let (e, w2) = toError v w1 in (Some e, w2)))"

definition TryCatchIgnore :: "'s proc \<Rightarrow> 's world \<Rightarrow> 's world" where
  "TryCatchIgnore f w = snd (TryCatch f w)"

text \<open>
  \<^verbatim>\<open>TryFunc\<close>: its deferred function first runs \<open>finally\<close>, whose own panic leaves it before
  \<^verbatim>\<open>recover\<close> is reached, and then recovers and calls \<open>catch\<close>.
\<close>

definition TryFunc :: "'s proc \<Rightarrow> (pval \<Rightarrow> 's proc) option \<Rightarrow> 's proc option \<Rightarrow> 's proc" where
  "TryFunc fun' catch finally w =
     (case fun' w of (r, w1) \<Rightarrow>
        (case (case finally of None \<Rightarrow> (Returns (), w1) | Some g \<Rightarrow> g w1) of
           (Panics q, w2) \<Rightarrow> (Panics q, w2)
         | (Returns _, w2) \<Rightarrow>
             (case r of
                Returns _ \<Rightarrow> (Returns (), w2)
              | Panics v \<Rightarrow> (case catch of None \<Rightarrow> (Returns (), w2) | Some c \<Rightarrow> c v w2))))"

section \<open>The try/catch chain\<close>

record 's CatchHandler =
  catch_err :: "gerr option"
  catch_handler :: "gerr \<Rightarrow> 's proc"

record 's DefaultCatchHandler =
  default_handler :: "gerr \<Rightarrow> 's proc"

record 's TryCatchElseHandler =
  else_handler :: "'s proc"

record 's FinallyHandler =
  finally_handler :: "'s proc"

record 's TryHandler =
  handler :: "'s proc"
  bindingCatchHandlerSlice :: "'s CatchHandler list"
  bindingDefaultCatchHandler :: "'s DefaultCatchHandler option"
  bindingTryCatchElseHandler :: "'s TryCatchElseHandler option"
  finallyHandler :: "'s FinallyHandler option"

text \<open>
  Every handler object of a chain points to the one \<^verbatim>\<open>TryHandler\<close> the chain started with; a chain
  call updates that object, so it is modelled as an update of the \<^verbatim>\<open>TryHandler\<close>, and the field
  \<^verbatim>\<open>bindingTryHandler\<close> of the other handlers is left out.
\<close>

definition Try :: "'s proc \<Rightarrow> 's TryHandler" where
  "Try funcToTry = \<lparr>handler = funcToTry, bindingCatchHandlerSlice = [], bindingDefaultCatchHandler = None,
     bindingTryCatchElseHandler = None, finallyHandler = None\<rparr>"

definition NewCatchHandler :: "'s TryHandler \<Rightarrow> gerr option \<Rightarrow> (gerr \<Rightarrow> 's proc) \<Rightarrow> 's TryHandler" where
  "NewCatchHandler x err h =
     x\<lparr>bindingCatchHandlerSlice := bindingCatchHandlerSlice x @ [\<lparr>catch_err = err, catch_handler = h\<rparr>]\<rparr>"

definition NewDefaultCatchHandler :: "'s TryHandler \<Rightarrow> (gerr \<Rightarrow> 's proc) \<Rightarrow> 's TryHandler" where
  "NewDefaultCatchHandler x h = x\<lparr>bindingDefaultCatchHandler := Some \<lparr>default_handler = h\<rparr>\<rparr>"

definition NewTryCatchElseHandler :: "'s TryHandler \<Rightarrow> 's proc \<Rightarrow> 's TryHandler" where
  "NewTryCatchElseHandler x h = x\<lparr>bindingTryCatchElseHandler := Some \<lparr>else_handler = h\<rparr>\<rparr>"

definition NewFinallyHandler :: "'s TryHandler \<Rightarrow> 's proc \<Rightarrow> 's TryHandler" where
  "NewFinallyHandler x h = x\<lparr>finallyHandler := Some \<lparr>finally_handler = h\<rparr>\<rparr>"

definition TryHandler_Catch :: "'s TryHandler \<Rightarrow> gerr option \<Rightarrow> (gerr \<Rightarrow> 's proc) \<Rightarrow> 's TryHandler" where
  "TryHandler_Catch x err h = NewCatchHandler x err h"
definition TryHandler_DefaultCatch :: "'s TryHandler \<Rightarrow> (gerr \<Rightarrow> 's proc) \<Rightarrow> 's TryHandler" where
  "TryHandler_DefaultCatch x h = NewDefaultCatchHandler x h"
definition TryHandler_Else :: "'s TryHandler \<Rightarrow> 's proc \<Rightarrow> 's TryHandler" where
  "TryHandler_Else x h = NewTryCatchElseHandler x h"
definition TryHandler_Finally :: "'s TryHandler \<Rightarrow> 's proc \<Rightarrow> 's TryHandler" where
  "TryHandler_Finally x h = NewFinallyHandler x h"

text \<open>
  The chain methods of the other handler objects; the argument \<open>b\<close> is the object's
  \<^verbatim>\<open>bindingTryHandler\<close>.
\<close>

definition CatchHandler_Catch :: "'s TryHandler \<Rightarrow> gerr option \<Rightarrow> (gerr \<Rightarrow> 's proc) \<Rightarrow> 's TryHandler" where
  "CatchHandler_Catch b err h = NewCatchHandler b err h"
definition CatchHandler_DefaultCatch :: "'s TryHandler \<Rightarrow> (gerr \<Rightarrow> 's proc) \<Rightarrow> 's TryHandler" where
  "CatchHandler_DefaultCatch b h = NewDefaultCatchHandler b h"
definition CatchHandler_Else :: "'s TryHandler \<Rightarrow> 's proc \<Rightarrow> 's TryHandler" where
  "CatchHandler_Else b h = NewTryCatchElseHandler b h"
definition CatchHandler_Finally :: "'s TryHandler \<Rightarrow> 's proc \<Rightarrow> 's TryHandler" where
  "CatchHandler_Finally b h = NewFinallyHandler b h"
definition DefaultCatchHandler_Else :: "'s TryHandler \<Rightarrow> 's proc \<Rightarrow> 's TryHandler" where
  "DefaultCatchHandler_Else b h = NewTryCatchElseHandler b h"
definition DefaultCatchHandler_Finally :: "'s TryHandler \<Rightarrow> 's proc \<Rightarrow> 's TryHandler" where
  "DefaultCatchHandler_Finally b h = NewFinallyHandler b h"
definition TryCatchElseHandler_Finally :: "'s TryHandler \<Rightarrow> 's proc \<Rightarrow> 's TryHandler" where
  "TryCatchElseHandler_Finally b h = NewFinallyHandler b h"

definition match :: "'s CatchHandler \<Rightarrow> gerr \<Rightarrow> bool" where
  "match h err = errors_Is err (catch_err h)"

definition CatchHandler_handle :: "'s CatchHandler \<Rightarrow> gerr \<Rightarrow> 's proc" where
  "CatchHandler_handle x err = catch_handler x err"
definition DefaultCatchHandler_handle :: "'s DefaultCatchHandler \<Rightarrow> gerr \<Rightarrow> 's proc" where
  "DefaultCatchHandler_handle x err = default_handler x err"
definition TryCatchElseHandler_handle :: "'s TryCatchElseHandler \<Rightarrow> 's proc" where
  "TryCatchElseHandler_handle x = else_handler x"
definition FinallyHandler_handle :: "'s FinallyHandler \<Rightarrow> 's proc" where
  "FinallyHandler_handle x = finally_handler x"

lemmas handle_defs = CatchHandler_handle_def DefaultCatchHandler_handle_def TryCatchElseHandler_handle_def
  FinallyHandler_handle_def

text \<open>
  The body of \<^verbatim>\<open>Do\<close> without its deferred function. The loop over the catch handlers stops at the
  first match; a panic of a handler leaves \<^verbatim>\<open>Do\<close>.
\<close>

definition Do_body :: "'s TryHandler \<Rightarrow> 's proc" where
  "Do_body x w =
     (case TryCatch (handler x) w of
        (None, w1) \<Rightarrow>
          (case bindingTryCatchElseHandler x of None \<Rightarrow> (Returns (), w1) | Some h \<Rightarrow> TryCatchElseHandler_handle h w1)
      | (Some err, w1) \<Rightarrow>
          (case find (\<lambda>h. match h err) (bindingCatchHandlerSlice x) of
             Some h \<Rightarrow> CatchHandler_handle h err w1
           | None \<Rightarrow>
               (case bindingDefaultCatchHandler x of
                  Some h \<Rightarrow> DefaultCatchHandler_handle h err w1
                | None \<Rightarrow> (Panics (PErr err), w1))))"

definition Do :: "'s TryHandler \<Rightarrow> 's proc" where
  "Do x w =
     (case Do_body x w of (r, w1) \<Rightarrow>
        (case finallyHandler x of
           None \<Rightarrow> (r, w1)
         | Some h \<Rightarrow> (case FinallyHandler_handle h w1 of (Panics q, w2) \<Rightarrow> (Panics q, w2) | (Returns _, w2) \<Rightarrow> (r, w2))))"

definition CatchHandler_Do :: "'s TryHandler \<Rightarrow> 's proc" where
  "CatchHandler_Do b = Do b"
definition DefaultCatchHandler_Do :: "'s TryHandler \<Rightarrow> 's proc" where
  "DefaultCatchHandler_Do b = Do b"
definition TryCatchElseHandler_Do :: "'s TryHandler \<Rightarrow> 's proc" where
  "TryCatchElseHandler_Do b = Do b"
definition FinallyHandler_Do :: "'s TryHandler \<Rightarrow> 's proc" where
  "FinallyHandler_Do b = Do b"

section \<open>Specification of a chain by its trace\<close>

text \<open>
  A block that appends its name to the log and then ends in a given way. \<open>logged_chain\<close> is the
  chain \<^verbatim>\<open>Try(..).Catch(..)...DefaultCatch(..).Else(..).Finally(..)\<close> of such blocks, written
  with the chain methods the source has for each position.
\<close>

datatype try_event = EvTry | EvCatch nat gerr | EvDefault gerr | EvElse | EvFinally

type_synonym ending = "(pval, unit) outcome"

definition logged :: "try_event \<Rightarrow> ending \<Rightarrow> try_event list proc" where
  "logged ev r w = (r, w\<lparr>app := app w @ [ev]\<rparr>)"

fun add_catches :: "nat \<Rightarrow> try_event list TryHandler \<Rightarrow> (gerr option \<times> ending) list \<Rightarrow> try_event list TryHandler" where
  "add_catches i x [] = x"
| "add_catches i x ((target, r) # cs) =
     add_catches (Suc i)
       ((if i = 0 then TryHandler_Catch else CatchHandler_Catch) x target (\<lambda>err. logged (EvCatch i err) r)) cs"

definition logged_chain ::
  "ending \<Rightarrow> (gerr option \<times> ending) list \<Rightarrow> ending option \<Rightarrow> ending option \<Rightarrow> ending option \<Rightarrow>
   try_event list TryHandler" where
  "logged_chain body catches dflt els fin =
     (let x0 = Try (logged EvTry body);
          x1 = add_catches 0 x0 catches;
          x2 = (case dflt of None \<Rightarrow> x1
                | Some r \<Rightarrow> (if catches = [] then TryHandler_DefaultCatch else CatchHandler_DefaultCatch) x1
                             (\<lambda>err. logged (EvDefault err) r));
          x3 = (case els of None \<Rightarrow> x2
                | Some r \<Rightarrow> (if dflt \<noteq> None then DefaultCatchHandler_Else
                              else if catches \<noteq> [] then CatchHandler_Else else TryHandler_Else) x2
                             (logged EvElse r))
      in case fin of None \<Rightarrow> x3
         | Some r \<Rightarrow> (if els \<noteq> None then TryCatchElseHandler_Finally
                       else if dflt \<noteq> None then DefaultCatchHandler_Finally
                       else if catches \<noteq> [] then CatchHandler_Finally else TryHandler_Finally) x3
                      (logged EvFinally r))"

text \<open>What a chain has to do, as the blocks that run, in order, and how the statement ends.\<close>

fun first_catch :: "gerr \<Rightarrow> nat \<Rightarrow> (gerr option \<times> ending) list \<Rightarrow> (nat \<times> ending) option" where
  "first_catch err i [] = None"
| "first_catch err i ((target, r) # cs) =
     (if errors_Is err target then Some (i, r) else first_catch err (Suc i) cs)"

definition middle_spec ::
  "gerr option \<Rightarrow> (gerr option \<times> ending) list \<Rightarrow> ending option \<Rightarrow> ending option \<Rightarrow> try_event list \<times> ending" where
  "middle_spec thrown catches dflt els =
     (case thrown of
        None \<Rightarrow> (case els of None \<Rightarrow> ([], Returns ()) | Some r \<Rightarrow> ([EvElse], r))
      | Some err \<Rightarrow>
          (case first_catch err 0 catches of
             Some (i, r) \<Rightarrow> ([EvCatch i err], r)
           | None \<Rightarrow> (case dflt of Some r \<Rightarrow> ([EvDefault err], r) | None \<Rightarrow> ([], Panics (PErr err)))))"

definition final_spec :: "try_event list \<times> ending \<Rightarrow> ending option \<Rightarrow> try_event list \<times> ending" where
  "final_spec m fin =
     (case fin of None \<Rightarrow> m
      | Some (Returns _) \<Rightarrow> (fst m @ [EvFinally], snd m)
      | Some (Panics q) \<Rightarrow> (fst m @ [EvFinally], Panics q))"

definition thrown_by :: "ending \<Rightarrow> nat \<Rightarrow> gerr option" where
  "thrown_by body a =
     (case body of Returns _ \<Rightarrow> None
      | Panics (PErr e) \<Rightarrow> Some e
      | Panics (POther s) \<Rightarrow> Some (OpaqueErr a (''panic: '' @ s) [] [] None))"

definition addr_after :: "ending \<Rightarrow> nat \<Rightarrow> nat" where
  "addr_after body a = (case body of Panics (POther _) \<Rightarrow> Suc a | _ \<Rightarrow> a)"

lemmas chain_defs =
  Try_def NewCatchHandler_def NewDefaultCatchHandler_def NewTryCatchElseHandler_def NewFinallyHandler_def
  TryHandler_Catch_def TryHandler_DefaultCatch_def TryHandler_Else_def TryHandler_Finally_def
  CatchHandler_Catch_def CatchHandler_DefaultCatch_def CatchHandler_Else_def CatchHandler_Finally_def
  DefaultCatchHandler_Else_def DefaultCatchHandler_Finally_def TryCatchElseHandler_Finally_def

fun catch_objects :: "nat \<Rightarrow> (gerr option \<times> ending) list \<Rightarrow> try_event list CatchHandler list" where
  "catch_objects i [] = []"
| "catch_objects i ((t, r) # cs) =
     \<lparr>catch_err = t, catch_handler = (\<lambda>err. logged (EvCatch i err) r)\<rparr> # catch_objects (Suc i) cs"

lemma add_catches_eq:
  "add_catches i x cs = x\<lparr>bindingCatchHandlerSlice := bindingCatchHandlerSlice x @ catch_objects i cs\<rparr>"
  by (induction i x cs rule: add_catches.induct) (simp_all add: chain_defs)

lemma logged_chain_eq:
  "logged_chain body catches dflt els fin =
     \<lparr>handler = logged EvTry body, bindingCatchHandlerSlice = catch_objects 0 catches,
      bindingDefaultCatchHandler = map_option (\<lambda>r. \<lparr>default_handler = \<lambda>err. logged (EvDefault err) r\<rparr>) dflt,
      bindingTryCatchElseHandler = map_option (\<lambda>r. \<lparr>else_handler = logged EvElse r\<rparr>) els,
      finallyHandler = map_option (\<lambda>r. \<lparr>finally_handler = logged EvFinally r\<rparr>) fin\<rparr>"
  by (simp add: logged_chain_def Let_def add_catches_eq chain_defs split: option.split)

lemma find_catch_objects:
  "(case find (\<lambda>h. match h err) (catch_objects i cs) of Some h \<Rightarrow> CatchHandler_handle h err w | None \<Rightarrow> k) =
   (case first_catch err i cs of Some (j, r) \<Rightarrow> logged (EvCatch j err) r w | None \<Rightarrow> k)"
  by (induction i cs rule: catch_objects.induct) (simp_all add: match_def CatchHandler_handle_def)

lemma TryCatch_logged:
  "TryCatch (logged ev body) w =
     (thrown_by body (next_addr w),
      w\<lparr>app := app w @ [ev],
        next_addr := addr_after body (next_addr w)\<rparr>)"
  by (simp add: TryCatch_def logged_def thrown_by_def toError_def addr_after_def
      split: outcome.split pval.split)

lemma Do_logged_chain:
  "Do (logged_chain body catches dflt els fin) w =
     (let (evs, r) = final_spec (middle_spec (thrown_by body (next_addr w)) catches dflt els) fin
      in (r, w\<lparr>app := app w @ EvTry # evs,
              next_addr := addr_after body (next_addr w)\<rparr>))"
proof (cases "thrown_by body (next_addr w)")
  case None
  then show ?thesis
    by (simp add: Do_def Do_body_def handle_defs logged_chain_eq TryCatch_logged middle_spec_def
        final_spec_def logged_def Let_def split: option.split outcome.split)
next
  case (Some err)
  then show ?thesis
    by (simp add: Do_def Do_body_def handle_defs logged_chain_eq TryCatch_logged middle_spec_def
        find_catch_objects final_spec_def logged_def Let_def split: option.split outcome.split)
qed

text \<open>
  C21. The try/catch chain runs the blocks of a structured exception statement, in its order: the
  body; when it does not panic the else block; when it panics exactly the first catch whose target
  \<^verbatim>\<open>errors.Is\<close> accepts, otherwise the default catch, otherwise no block; and the finally block
  last in every case. The statement ends as the handling block ends, an unhandled error is thrown
  on as the same error, and a panic of the finally block replaces what was pending.
\<close>

theorem chain_trace:
  "Do (logged_chain body catches dflt els fin) w =
     (let (evs, r) = final_spec (middle_spec (thrown_by body (next_addr w)) catches dflt els) fin
      in (r, w\<lparr>app := app w @ EvTry # evs,
              next_addr := addr_after body (next_addr w)\<rparr>))"
  by (rule Do_logged_chain)

text \<open>
  An error that carries its cause through \<^verbatim>\<open>WithStack\<close>, \<^verbatim>\<open>New\<close>, \<^verbatim>\<open>Wrap\<close> or \<^verbatim>\<open>Wrapf\<close>
  hides it from the chain: neither type has an \<^verbatim>\<open>Unwrap\<close> method, so a catch for the cause (or
  for any error other than the wrapper itself) does not run, and without a default catch the
  wrapper leaves \<^verbatim>\<open>Do\<close> as a panic.
\<close>

theorem chain_misses_wrapped:
  assumes "err \<in> {WithStack a pkgWithStack cause code extras, New a pkgNew s code extras, Wrap a outer cause}
                  \<union> set_option (Wrapf a b format cause)"
    and "list_all (\<lambda>(target, r). target = None \<or> err_addr (the target) \<noteq> a) catches"
  shows "Do (logged_chain (Panics (PErr err)) catches None els None) w =
           (Panics (PErr err), w\<lparr>app := app w @ [EvTry]\<rparr>)"
proof -
  have "err_addr err = a \<and> is_tree err = (\<lambda>t. t = a)"
    using assms(1)
    by (auto simp: WithStack_def New_def Wrap_def Wrapf_def fun_eq_iff split: option.splits)
  then have "first_catch err i catches = None" for i
    using assms(2) by (induction err i catches rule: first_catch.induct)
      (auto simp: errors_Is_def split: option.splits)
  then show ?thesis
    by (simp add: Do_logged_chain thrown_by_def middle_spec_def final_spec_def addr_after_def)
qed

theorem chain_misses_wrapped_witness:
  "let cause = OpaqueErr 1 ''not found'' [] [] None
   in Do (logged_chain (Panics (PErr (WithStack 2 id (Some cause) 404 []))) [(Some cause, Returns ())] None None None)
        \<lparr>next_addr = 3, app = []\<rparr> =
        (Panics (PErr (WithStack 2 id (Some cause) 404 [])), \<lparr>next_addr = 3, app = [EvTry]\<rparr>)"
  using chain_misses_wrapped [of "WithStack 2 id (Some (OpaqueErr 1 ''not found'' [] [] None)) 404 []" 2 id
      "Some (OpaqueErr 1 ''not found'' [] [] None)" 404 "[]" "\<lambda>_. None" "[]" None 0 "[]"
      "[(Some (OpaqueErr 1 ''not found'' [] [] None), Returns ())]" None "\<lparr>next_addr = 3, app = []\<rparr>"]
  by (simp add: Let_def)

text \<open>
  \<^verbatim>\<open>TryFunc\<close> is not a try/catch/finally statement: its finally block runs before the catch
  block, and when the finally block panics the catch block does not run and the finally panic
  leaves \<^verbatim>\<open>TryFunc\<close>, whatever the body did. Without a finally panic the body's panic never
  leaves it, unless the catch block panics itself.
\<close>

theorem tryfunc_trace:
  "TryFunc (logged EvTry body) (Some (\<lambda>v. logged (EvDefault (fst (toError v (w :: unit world)))) c))
     (Some (logged EvFinally fin)) v =
     (case (fin, body) of
        (Panics q, _) \<Rightarrow> (Panics q, v\<lparr>app := app v @ [EvTry, EvFinally]\<rparr>)
      | (Returns _, Returns _) \<Rightarrow> (Returns (), v\<lparr>app := app v @ [EvTry, EvFinally]\<rparr>)
      | (Returns _, Panics p) \<Rightarrow>
          (c, v\<lparr>app := app v @ [EvTry, EvFinally, EvDefault (fst (toError p w))]\<rparr>))"
  by (simp add: TryFunc_def logged_def split: outcome.split)

definition frame_entity :: "frame \<Rightarrow> StackSourceEntity" where
  "frame_entity f = \<lparr>File = last (f CHR ''s''), LineCode = last (f CHR ''d''), FuncName = last (f CHR ''n'')\<rparr>"

definition writes_all :: "frame \<Rightarrow> bool" where
  "writes_all f \<longleftrightarrow> f CHR ''s'' \<noteq> [] \<and> f CHR ''d'' \<noteq> [] \<and> f CHR ''n'' \<noteq> []"

lemma marshal_loop_frames:
  "n \<ge> 1 \<Longrightarrow> n + length st = size' \<Longrightarrow> list_all writes_all st \<Longrightarrow>
   marshal_loop n size' b st = map frame_entity (take (size' - 2 - n) st)"
proof (induction n size' b st rule: marshal_loop.induct)
  case (2 idx size' b f fs)
  show ?case
  proof (cases "int size' - int idx \<le> 2")
    case True
    with 2 show ?thesis by simp
  next
    case False
    with "2.prems" have "take (size' - 2 - idx) (f # fs) = f # take (size' - 2 - Suc idx) fs"
      by (simp add: take_Cons')
    with False 2 show ?thesis
      by (simp add: Let_def frameField_def frame_entity_def writes_all_def)
  qed
qed simp

lemma marshal_loop_top:
  "list_all writes_all st \<Longrightarrow>
   marshal_loop 0 (length st) b st = map frame_entity (drop 1 (take (length st - 2) st))"
  by (cases st) (simp_all add: marshal_loop_frames drop_take)

lemma foldl_entity_lines: "foldl (\<lambda>s item. s @ entity_line item) z xs = z @ concat (map entity_line xs)"
  by (induction xs arbitrary: z) auto

text \<open>
  Printing the stack of a \<^verbatim>\<open>StackError\<close>: one line per frame of the cause's stack trace,
  in order, without the first frame (the constructor itself) and the last two (the runtime);
  \<^verbatim>\<open>ToArr\<close> has one element per frame and \<^verbatim>\<open>ToStr\<close> is their concatenation, with no line
  break between them.
\<close>

theorem stack_printing:
  assumes "Err c = Some (OpaqueErr a s accepts inner (Some st))" and "list_all writes_all st"
  shows "StackError_ToArr c = Some (map (entity_line \<circ> frame_entity) (drop 1 (take (length st - 2) st)))
     \<and> StackError_ToStr c = Some (concat (map (entity_line \<circ> frame_entity) (drop 1 (take (length st - 2) st))))"
  using assms
  by (simp add: StackError_ToArr_def StackError_ToStr_def ToArr_def ToStr_def MarshalStack_def
      marshal_loop_top foldl_entity_lines)

theorem stack_printing_witness:
  "let f = (\<lambda>n v. if v = CHR ''s'' then [''main.go''] else if v = CHR ''d'' then [n] else [''run'']);
       c = New 9 (\<lambda>s. Some (OpaqueErr 1 s [] [] (Some [f ''1'', f ''2'', f ''3'', f ''4'', f ''5'']))) ''boom'' 500 []
   in StackError_ToStr c = Some ''file:main.go, line:2, func:runfile:main.go, line:3, func:run''"
  using stack_printing [of "New 9 (\<lambda>s. Some (OpaqueErr 1 s [] [] (Some (map (\<lambda>n v. if v = CHR ''s'' then [''main.go'']
      else if v = CHR ''d'' then [n] else [''run'']) [''1'', ''2'', ''3'', ''4'', ''5''])))) ''boom'' 500 []" 1 "''boom''" "[]" "[]"
      "map (\<lambda>n v. if v = CHR ''s'' then [''main.go''] else if v = CHR ''d'' then [n] else [''run'']) [''1'', ''2'', ''3'', ''4'', ''5'']"]
  by (simp add: Let_def New_def writes_all_def frame_entity_def entity_line_def)

end
