(* ===== verification/Go_Time.thy ===== *)
theory Go_Time
  imports Prelude
begin

text \<open>
  \<^verbatim>\<open>time.Duration\<close> of the Go standard library as far as the Redis components use it:
  \<^verbatim>\<open>ParseDuration\<close> (the expiry arguments of the Redis view are texts) and
  \<^verbatim>\<open>Duration.String\<close> (the retry policies are printed and parsed again). A duration is its
  nanosecond count, an \<open>int\<close> in the signed 64-bit range.

  The only floating-point step of \<^verbatim>\<open>ParseDuration\<close>, the conversion of a decimal fraction
  \<^verbatim>\<open>uint64(float64(f) * (float64(unit) / scale))\<close>, is the parameter \<open>frac f unit scale\<close>.
\<close>

definition is_digit :: "char \<Rightarrow> bool" where
  "is_digit c \<longleftrightarrow> digit_val c \<noteq> None"

definition digit :: "char \<Rightarrow> nat" where
  "digit c = (case digit_val c of None \<Rightarrow> 0 | Some d \<Rightarrow> d)"

section \<open>Parsing\<close>

text \<open>\<^verbatim>\<open>leadingInt\<close>: the number and the rest, or \<open>None\<close> on overflow of \<open>2 ^ 63\<close>.\<close>

fun leadingInt :: "nat \<Rightarrow> string \<Rightarrow> (nat \<times> string) option" where
  "leadingInt x [] = Some (x, [])"
| "leadingInt x (c # s) =
     (if \<not> is_digit c then Some (x, c # s)
      else if x > 2 ^ 63 div 10 then None
      else if x * 10 + digit c > 2 ^ 63 then None
      else leadingInt (x * 10 + digit c) s)"

fun leadingFraction :: "nat \<Rightarrow> nat \<Rightarrow> bool \<Rightarrow> string \<Rightarrow> nat \<times> nat \<times> string" where
  "leadingFraction x scale over [] = (x, scale, [])"
| "leadingFraction x scale over (c # s) =
     (if \<not> is_digit c then (x, scale, c # s)
      else if over \<or> x > (2 ^ 63 - 1) div 10 \<or> x * 10 + digit c > 2 ^ 63
        then leadingFraction x scale True s
      else leadingFraction (x * 10 + digit c) (scale * 10) False s)"

definition unitMap :: "string \<Rightarrow> nat option" where
  "unitMap u =
     (if u = ''ns'' then Some 1
      else if u = ''us'' \<or> u = [CHR 0xC2, CHR 0xB5, CHR ''s''] \<or> u = [CHR 0xCE, CHR 0xBC, CHR ''s''] then Some (10 ^ 3)
      else if u = ''ms'' then Some (10 ^ 6)
      else if u = ''s'' then Some (10 ^ 9)
      else if u = ''m'' then Some (60 * 10 ^ 9)
      else if u = ''h'' then Some (3600 * 10 ^ 9)
      else None)"

definition unit_char :: "char \<Rightarrow> bool" where
  "unit_char c \<longleftrightarrow> c \<noteq> CHR ''.'' \<and> \<not> is_digit c"

text \<open>One round of the loop: a number with an optional fraction and its unit, added to \<open>d\<close>.\<close>

definition duration_term ::
  "(nat \<Rightarrow> nat \<Rightarrow> nat \<Rightarrow> nat) \<Rightarrow> nat \<Rightarrow> string \<Rightarrow> (nat \<times> string) option" where
  "duration_term frac d s =
     (if \<not> (hd s = CHR ''.'' \<or> is_digit (hd s)) then None
      else case leadingInt 0 s of None \<Rightarrow> None
      | Some (v, s1) \<Rightarrow>
          (let pre = (length s \<noteq> length s1);
               (f, scale, s2, post) =
                 (if s1 \<noteq> [] \<and> hd s1 = CHR ''.'' then
                    (case leadingFraction 0 1 False (tl s1) of (f, sc, r) \<Rightarrow> (f, sc, r, length (tl s1) \<noteq> length r))
                  else (0, 1, s1, False));
               u = takeWhile unit_char s2;
               s3 = dropWhile unit_char s2
           in if \<not> pre \<and> \<not> post then None
              else if u = [] then None
              else case unitMap u of None \<Rightarrow> None
              | Some unit \<Rightarrow>
                  if v > 2 ^ 63 div unit then None
                  else let v1 = (if f > 0 then v * unit + frac f unit scale else v * unit)
                       in if f > 0 \<and> v1 > 2 ^ 63 then None
                          else if d + v1 > 2 ^ 63 then None
                          else Some (d + v1, s3)))"

lemma leadingInt_length: "leadingInt x s = Some (v, s1) \<Longrightarrow> length s1 \<le> length s"
  by (induction x s rule: leadingInt.induct) (auto split: if_splits)

lemma leadingFraction_length: "leadingFraction x sc over s = (f, sc', r) \<Longrightarrow> length r \<le> length s"
  by (induction x sc over s rule: leadingFraction.induct) (auto split: if_splits)

lemma duration_term_shrinks:
  assumes "duration_term frac d s = Some (d', s')"
  shows "length s' < length s"
proof -
  have shrink: "takeWhile P r \<noteq> [] \<Longrightarrow> length (dropWhile P r) < length r" for P and r :: string
    by (metis append_Nil2 length_append length_dropWhile_le length_greater_0_conv less_add_same_cancel2
        order_le_less takeWhile_dropWhile_id)
  from assms obtain v s1 where v: "leadingInt 0 s = Some (v, s1)"
    by (auto simp: duration_term_def split: if_splits option.splits)
  obtain f sc r where fr: "leadingFraction 0 1 False (tl s1) = (f, sc, r)"
    by (metis prod_cases3)
  have "length r \<le> length s1"
    using leadingFraction_length [OF fr] by simp
  then show ?thesis
    using assms v fr leadingInt_length [OF v]
    by (auto simp: duration_term_def Let_def split: if_splits option.splits
        dest!: shrink)
qed

function duration_loop :: "(nat \<Rightarrow> nat \<Rightarrow> nat \<Rightarrow> nat) \<Rightarrow> nat \<Rightarrow> string \<Rightarrow> nat option" where
  "duration_loop frac d s =
     (if s = [] then Some d
      else case duration_term frac d s of None \<Rightarrow> None
           | Some (d', s') \<Rightarrow> duration_loop frac d' s')"
  by pat_completeness auto

termination
  by (relation "measure (\<lambda>(_, _, s). length s)") (auto dest: duration_term_shrinks)

declare duration_loop.simps [simp del]

definition ParseDuration :: "(nat \<Rightarrow> nat \<Rightarrow> nat \<Rightarrow> nat) \<Rightarrow> string \<Rightarrow> int option" where
  "ParseDuration frac orig =
     (let neg = (orig \<noteq> [] \<and> hd orig = CHR ''-'');
          s = (if orig \<noteq> [] \<and> (hd orig = CHR ''-'' \<or> hd orig = CHR ''+'') then tl orig else orig)
      in if s = ''0'' then Some 0
         else if s = [] then None
         else case duration_loop frac 0 s of None \<Rightarrow> None
              | Some d \<Rightarrow> if neg then Some (- int d)
                          else if d > 2 ^ 63 - 1 then None
                          else Some (int d))"

section \<open>Printing\<close>

text \<open>\<^verbatim>\<open>fmtFrac\<close>: \<open>prec\<close> decimals of \<open>v\<close> without trailing zeros, in front of \<open>buf\<close>.\<close>

fun fmtFrac_loop :: "nat \<Rightarrow> nat \<Rightarrow> bool \<Rightarrow> string \<Rightarrow> string \<times> nat \<times> bool" where
  "fmtFrac_loop 0 v print buf = (buf, v, print)"
| "fmtFrac_loop (Suc n) v print buf =
     (let p = (print \<or> v mod 10 \<noteq> 0)
      in fmtFrac_loop n (v div 10) p (if p then char_of (48 + v mod 10) # buf else buf))"

definition fmtFrac :: "string \<Rightarrow> nat \<Rightarrow> nat \<Rightarrow> string \<times> nat" where
  "fmtFrac buf v prec =
     (case fmtFrac_loop prec v False buf of (b, u, print) \<Rightarrow> (if print then CHR ''.'' # b else b, u))"

definition fmtInt :: "string \<Rightarrow> nat \<Rightarrow> string" where
  "fmtInt buf v = nat_digits v @ buf"

definition Duration_String :: "int \<Rightarrow> string" where
  "Duration_String d =
     (let u = nat \<bar>d\<bar>;
          body =
            (if u < 10 ^ 9 then
               if u = 0 then ''0s''
               else let (prec, suffix) =
                      (if u < 10 ^ 3 then (0, ''ns'')
                       else if u < 10 ^ 6 then (3, [CHR 0xC2, CHR 0xB5, CHR ''s'']) else (6, ''ms''));
                        (b, w) = fmtFrac suffix u prec
                    in fmtInt b w
             else let (b, secs) = fmtFrac ''s'' u 9;
                      b1 = fmtInt b (secs mod 60);
                      mins = secs div 60
                  in if mins > 0 then
                       let b2 = fmtInt (CHR ''m'' # b1) (mins mod 60); hours = mins div 60
                       in if hours > 0 then fmtInt (CHR ''h'' # b2) hours else b2
                     else b1)
      in if d < 0 then CHR ''-'' # body else body)"

section \<open>Round trip\<close>

lemma is_digit_char_of [simp]: "n < 10 \<Longrightarrow> is_digit (char_of (48 + n))" "n < 10 \<Longrightarrow> digit (char_of (48 + n)) = n"
  by (simp_all add: is_digit_def digit_def digit_val_char_of)

lemma nat_digits_is_digit: "c \<in> set (nat_digits n) \<Longrightarrow> is_digit c"
  by (simp add: is_digit_def nat_digits_are_digits)

lemma leadingInt_append:
  "list_all is_digit a \<Longrightarrow>
   leadingInt x (a @ b) = (case leadingInt x a of None \<Rightarrow> None | Some (v, _) \<Rightarrow> leadingInt v b)"
  by (induction x a rule: leadingInt.induct) auto

lemma leadingInt_stop: "s = [] \<or> \<not> is_digit (hd s) \<Longrightarrow> leadingInt x s = Some (x, s)"
  by (cases s) auto

lemma leadingInt_digits: "n \<le> 2 ^ 63 \<Longrightarrow> leadingInt 0 (nat_digits n) = Some (n, [])"
proof (induction n rule: nat_digits.induct)
  case (1 n)
  show ?case
  proof (cases "n < 10")
    case True
    then show ?thesis by (simp add: nat_digits.simps [of n])
  next
    case False
    moreover from "1.prems" have "n div 10 \<le> 2 ^ 63 div 10" by (rule div_le_mono)
    moreover from this have "n div 10 \<le> 2 ^ 63" by simp
    moreover have "list_all is_digit (nat_digits (n div 10))"
      by (auto simp: list_all_iff nat_digits_is_digit)
    ultimately show ?thesis using 1
      by (simp add: nat_digits.simps [of n] leadingInt_append)
  qed
qed

lemma leadingInt_nat_digits:
  "n \<le> 2 ^ 63 \<Longrightarrow> s = [] \<or> \<not> is_digit (hd s) \<Longrightarrow> leadingInt 0 (nat_digits n @ s) = Some (n, s)"
  by (subst leadingInt_append)
    (auto simp: list_all_iff nat_digits_is_digit leadingInt_digits leadingInt_stop)

text \<open>A whole number with its unit is read as one term of the duration.\<close>

lemma duration_term_whole:
  assumes "unitMap u = Some k" and "list_all unit_char u" and "u \<noteq> []" and "0 < k"
    and "rest = [] \<or> is_digit (hd rest)" and "d + v * k \<le> 2 ^ 63"
  shows "duration_term frac d (nat_digits v @ u @ rest) = Some (d + v * k, rest)"
proof -
  have vk: "v * k \<le> 2 ^ 63" using assms(6) by simp
  have "v * 1 \<le> v * k" using assms(4) by (intro mult_le_mono2) simp
  with vk have v: "v \<le> 2 ^ 63" by linarith
  have hd_u: "unit_char (hd u)" using assms(2,3) by (cases u) auto
  have lead: "leadingInt 0 (nat_digits v @ u @ rest) = Some (v, u @ rest)"
    using v hd_u assms(3) by (intro leadingInt_nat_digits) (auto simp: unit_char_def)
  have tw: "takeWhile unit_char (u @ rest) = u" "dropWhile unit_char (u @ rest) = rest"
    using assms(2,5) by (cases rest; auto simp: takeWhile_append dropWhile_append list_all_iff unit_char_def)+
  have "v \<le> 2 ^ 63 div k"
    using div_le_mono [OF vk, of k] assms(4) by simp
  moreover have "is_digit (hd (nat_digits v))"
    by (rule nat_digits_is_digit [of _ v]) simp
  ultimately show ?thesis
    using lead hd_u assms(1,3,6) tw
    by (simp add: duration_term_def Let_def unit_char_def)
qed

lemma fmtFrac_loop_whole: "fmtFrac_loop n (v * 10 ^ n) False buf = (buf, v, False)"
  by (induction n arbitrary: v) (simp_all add: Let_def ac_simps)

lemma fmtFrac_whole: "fmtFrac buf (v * 10 ^ 9) 9 = (buf, v)"
  unfolding fmtFrac_def by (simp only: fmtFrac_loop_whole) simp

lemma Duration_String_whole:
  assumes "0 < n"
  shows "Duration_String (int n * 1000000000) =
     (let s = nat_digits (n mod 60) @ ''s''; m = n div 60 in
      if m = 0 then s
      else let ms = nat_digits (m mod 60) @ ''m'' @ s
           in if m div 60 = 0 then ms else nat_digits (m div 60) @ ''h'' @ ms)"
proof -
  have "nat \<bar>int n * 1000000000\<bar> = n * 1000000000" by (simp add: nat_mult_distrib)
  with assms show ?thesis
    by (simp add: Duration_String_def Let_def fmtFrac_whole [simplified] fmtInt_def)
qed

text \<open>
  A policy of a whole number of seconds that is printed and parsed again is the same policy.
\<close>

lemma duration_units [simp]:
  "unitMap ''s'' = Some (1000000000)" "unitMap ''m'' = Some (60000000000)" "unitMap ''h'' = Some (3600000000000)"
  by (simp_all add: unitMap_def)

lemma unit_chars [simp]: "unit_char CHR ''s''" "unit_char CHR ''m''" "unit_char CHR ''h''"
  by (simp_all add: unit_char_def is_digit_def digit_val_def)

lemma hd_digits_append: "hd (nat_digits n @ s) = hd (nat_digits n)" "is_digit (hd (nat_digits n))"
  by (simp_all add: nat_digits_is_digit [of _ n])

lemma duration_loop_whole:
  assumes "unitMap u = Some k" and "list_all unit_char u" and "u \<noteq> []" and "0 < k"
    and "rest = [] \<or> is_digit (hd rest)" and "d + v * k \<le> 2 ^ 63"
  shows "duration_loop frac d (nat_digits v @ u @ rest) = duration_loop frac (d + v * k) rest"
  using duration_term_whole [OF assms, of frac] by (subst duration_loop.simps) simp

lemma duration_loop_secs:
  "d + n * 1000000000 \<le> 2 ^ 63 \<Longrightarrow> duration_loop frac d (nat_digits n @ ''s'') = Some (d + n * 1000000000)"
  using duration_loop_whole [of "''s''" "1000000000" "[]" d n frac]
  by (simp add: duration_loop.simps [of _ _ "[]"])

lemma duration_loop_mins:
  "d + (m * 60 + n) * 1000000000 \<le> 2 ^ 63 \<Longrightarrow>
   duration_loop frac d (nat_digits m @ ''m'' @ nat_digits n @ ''s'') = Some (d + (m * 60 + n) * 1000000000)"
  using duration_loop_whole [of "''m''" "60000000000" "nat_digits n @ ''s''" d m frac]
  by (simp add: hd_digits_append duration_loop_secs algebra_simps)

lemma duration_loop_hours:
  "(h * 3600 + m * 60 + n) * 1000000000 \<le> 2 ^ 63 \<Longrightarrow>
   duration_loop frac 0 (nat_digits h @ ''h'' @ nat_digits m @ ''m'' @ nat_digits n @ ''s'') =
     Some ((h * 3600 + m * 60 + n) * 1000000000)"
  using duration_loop_whole [of "''h''" "3600000000000" "nat_digits m @ ''m'' @ nat_digits n @ ''s''" 0 h frac]
    duration_loop_mins [of "h * 3600000000000" m n frac]
  by (simp add: hd_digits_append algebra_simps)

lemma duration_loop_String:
  assumes "0 < n" and "n * 1000000000 \<le> 2 ^ 63"
  shows "duration_loop frac 0 (Duration_String (int n * 1000000000)) = Some (n * 1000000000)"
proof -
  define m where "m = n div 60"
  have n: "m * 60 + n mod 60 = n" by (simp add: m_def)
  have h: "m div 60 * 3600 + m mod 60 * 60 + n mod 60 = n"
    using n mult_div_mod_eq [of 60 m] by linarith
  consider "m = 0" | "m \<noteq> 0" "m div 60 = 0" | "m div 60 \<noteq> 0" by auto
  then show ?thesis
  proof cases
    case 1
    with n assms duration_loop_secs [of 0 "n mod 60" frac] show ?thesis
      by (simp add: Duration_String_whole m_def [symmetric] Let_def)
  next
    case 2
    then have "m mod 60 = m" by simp
    with 2 n assms duration_loop_mins [of 0 "m mod 60" "n mod 60" frac] show ?thesis
      by (simp add: Duration_String_whole m_def [symmetric] Let_def)
  next
    case 3
    then have "m \<noteq> 0" by auto
    with 3 h assms duration_loop_hours [of "m div 60" "m mod 60" "n mod 60" frac] show ?thesis
      by (simp add: Duration_String_whole m_def [symmetric] Let_def)
  qed
qed

lemma hd_Duration_String: "0 < n \<Longrightarrow> is_digit (hd (Duration_String (int n * 1000000000)))
    \<and> length (Duration_String (int n * 1000000000)) \<ge> 2"
  by (auto simp: Duration_String_whole Let_def hd_digits_append Suc_le_eq)

lemma ParseDuration_String:
  assumes "0 < n" and "n * 1000000000 < 2 ^ 63"
  shows "ParseDuration frac (Duration_String (int n * 1000000000)) = Some (int n * 1000000000)"
proof -
  let ?s = "Duration_String (int n * 1000000000)"
  have d: "is_digit (hd ?s)" and l: "length ?s \<ge> 2" using hd_Duration_String [OF assms(1)] by auto
  from d have "hd ?s \<noteq> CHR ''-''" "hd ?s \<noteq> CHR ''+''" by (auto simp: is_digit_def digit_val_def)
  moreover from l have "?s \<noteq> []" "?s \<noteq> ''0''" by (auto simp: numeral_2_eq_2)
  ultimately show ?thesis
    using duration_loop_String [of n frac] assms by (simp add: ParseDuration_def Let_def)
qed

end
