(* ===== verification/Redis_View.thy ===== *)
theory Redis_View
  imports Go_Time
begin

text \<open>
  \<^verbatim>\<open>libs/redis\<close>: the prefixed view \<^verbatim>\<open>redisView\<close> that implements \<^verbatim>\<open>RedisCli\<close> over a go-redis
  client, one definition per method, and the package's \<^verbatim>\<open>Init\<close>.

  The go-redis client and the server behind it are the record \<open>RedisCmd\<close>: a function per result
  type of the client's commands, on a state \<open>'db\<close> of the server. A command is a \<open>request\<close>: its
  name, the arguments that are keys, and the other arguments; the client returns a value and an
  error beside it, as \<^verbatim>\<open>Result()\<close> does. A nil error is \<open>None\<close>. Contexts are not modelled and
  neither is the debug log. A \<^verbatim>\<open>float64\<close> is its bit pattern; \<open>Sprintf_f\<close>, its \<^verbatim>\<open>%f\<close> text,
  and \<open>frac\<close> (see \<^verbatim>\<open>Go_Time\<close>) are parameters of the definitions that use them.
\<close>

type_synonym float64 = "64 word"

datatype rerr =
    ErrClient string
  | ErrDuration string
  | ErrorResultNotTrue
  | ErrorResultNotOK
  | ErrorInputValuesIsNil
  | ErrNotImplemented
  | ErrUnSupported
  | ErrRedisAddrsEmpty

text \<open>An \<^verbatim>\<open>interface{}\<close> value, by the dynamic types the sources distinguish.\<close>

datatype iface = INil | IBool bool | IStr string | IBytes bytes | IInt int

record ZMember =
  Score :: float64
  Member :: bytes

record ZRangeBy =
  Min :: string
  Max :: string
  Offset :: int64
  Count :: int64

record Location =
  Longitude :: float64
  Latitude :: float64

record GeoLocation =
  Name :: string
  GeoLongitude :: float64
  GeoLatitude :: float64
  Dist :: float64
  GeoHashCode :: int64

datatype arg =
    AStr string
  | ABytes bytes
  | AInt int64
  | AFloat float64
  | ADur int
  | AFields "string \<rightharpoonup> string"
  | AZ float64 bytes
  | ARange ZRangeBy
  | AStore "float64 list" string
  | AGeo GeoLocation
  | AQuery nat
  | AFlag string

record request =
  req_name :: string
  req_keys :: "string list"
  req_args :: "arg list"

type_synonym ('db, 'a) redis_cmd = "request \<Rightarrow> 'db \<Rightarrow> ('a \<times> rerr option) \<times> 'db"
type_synonym ('db, 'a) redis_call = "'db \<Rightarrow> ('a \<times> rerr option) \<times> 'db"

record 'db RedisCmd =
  intCmd :: "('db, int) redis_cmd"
  boolCmd :: "('db, bool) redis_cmd"
  stringCmd :: "('db, string) redis_cmd"
  stringsCmd :: "('db, string list) redis_cmd"
  scanCmd :: "('db, string list \<times> nat) redis_cmd"
  mapCmd :: "('db, string \<rightharpoonup> string) redis_cmd"
  ifacesCmd :: "('db, iface list) redis_cmd"
  zsCmd :: "('db, (float64 \<times> iface) list) redis_cmd"
  floatCmd :: "('db, float64) redis_cmd"
  geosCmd :: "('db, GeoLocation list) redis_cmd"
  posCmd :: "('db, (float64 \<times> float64) option list) redis_cmd"
  subscribeCap :: "(string list \<Rightarrow> 'db \<Rightarrow> nat \<times> 'db) option"
  psubscribeCap :: "(string list \<Rightarrow> 'db \<Rightarrow> nat \<times> 'db) option"

record 'db redisView =
  key_prefix :: string
  cmd :: "'db RedisCmd"

section \<open>Keys and results\<close>

definition RedisKeySep :: string where "RedisKeySep = '':''"

definition expandKey :: "'db redisView \<Rightarrow> string \<Rightarrow> string" where
  "expandKey r suffix' = key_prefix r @ RedisKeySep @ suffix'"

definition truncateKey :: "'db redisView \<Rightarrow> string \<Rightarrow> string" where
  "truncateKey r full = strings_Join (tl (strings_Split full RedisKeySep)) RedisKeySep"

definition NewRedisView :: "'db RedisCmd \<Rightarrow> string \<Rightarrow> 'db redisView" where
  "NewRedisView c p = \<lparr>key_prefix = p, cmd = c\<rparr>"

definition KeyPrefix :: "'db redisView \<Rightarrow> string" where
  "KeyPrefix r = key_prefix r"

definition NativeCmd :: "'db redisView \<Rightarrow> 'db RedisCmd" where
  "NativeCmd r = cmd r"

definition wrapResult :: "(iface \<times> rerr option) \<times> 'db \<Rightarrow> rerr option \<times> 'db" where
  "wrapResult call =
     (case call of ((result, err), s) \<Rightarrow>
        (case err of
           Some e \<Rightarrow> (Some e, s)
         | None \<Rightarrow> (case result of
             IBool b \<Rightarrow> (if \<not> b then Some ErrorResultNotTrue else None, s)
           | IStr t \<Rightarrow> (if t \<noteq> ''OK'' then Some ErrorResultNotOK else None, s)
           | _ \<Rightarrow> (None, s))))"

text \<open>The closure passed to \<^verbatim>\<open>wrapResult\<close>: the command's typed result as an \<^verbatim>\<open>interface{}\<close>.\<close>

definition boxed :: "('a \<Rightarrow> iface) \<Rightarrow> ('a \<times> rerr option) \<times> 'db \<Rightarrow> (iface \<times> rerr option) \<times> 'db" where
  "boxed box call = (case call of ((x, err), s) \<Rightarrow> ((box x, err), s))"

text \<open>On an error every such method returns the zero value; otherwise the converted result.\<close>

definition on_ok :: "'b \<Rightarrow> ('a \<Rightarrow> 'b) \<Rightarrow> ('a \<times> rerr option) \<times> 'db \<Rightarrow> ('b \<times> rerr option) \<times> 'db" where
  "on_ok zero f call =
     (case call of ((x, err), s) \<Rightarrow>
        (case err of Some e \<Rightarrow> ((zero, Some e), s) | None \<Rightarrow> ((f x, None), s)))"

definition wrapSliceStringToSliceBytes :: "(string list \<times> rerr option) \<times> 'db \<Rightarrow> (bytes list \<times> rerr option) \<times> 'db" where
  "wrapSliceStringToSliceBytes call =
     (case call of ((results, err), s) \<Rightarrow>
        (case err of Some e \<Rightarrow> (([], Some e), s) | None \<Rightarrow> ((map (\<lambda>result. result) results, None), s)))"

text \<open>The type assertion \<^verbatim>\<open>v.([]byte)\<close> of each element; the first other type panics.\<close>

fun assert_bytes :: "iface list \<Rightarrow> (unit, bytes list) outcome" where
  "assert_bytes [] = Returns []"
| "assert_bytes (IBytes b # xs) =
     (case assert_bytes xs of Returns bs \<Rightarrow> Returns (b # bs) | Panics p \<Rightarrow> Panics p)"
| "assert_bytes (_ # xs) = Panics ()"

fun z_members :: "(float64 \<times> iface) list \<Rightarrow> (unit, ZMember list) outcome" where
  "z_members [] = Returns []"
| "z_members ((sc, IBytes b) # xs) =
     (case z_members xs of Returns ms \<Rightarrow> Returns (\<lparr>Score = sc, Member = b\<rparr> # ms) | Panics p \<Rightarrow> Panics p)"
| "z_members (_ # xs) = Panics ()"

definition toRangeZMembers ::
  "rerr option \<Rightarrow> string list \<Rightarrow> (float64 \<times> iface) list \<Rightarrow> (unit, ZMember list \<times> rerr option) outcome" where
  "toRangeZMembers err members zSlice =
     (case err of
        Some e \<Rightarrow> Returns ([], Some e)
      | None \<Rightarrow>
          (let ms = (if length members > 0 then map (\<lambda>m. \<lparr>Score = 0, Member = m\<rparr>) members else [])
           in if length members > 0
              then (case z_members zSlice of Returns zs \<Rightarrow> Returns (ms @ zs, None) | Panics p \<Rightarrow> Panics p)
              else Returns (ms, None)))"

definition ToRedisRangeBy :: "ZRangeBy \<Rightarrow> ZRangeBy" where
  "ToRedisRangeBy z = \<lparr>Min = Min z, Max = Max z, Offset = Offset z, Count = Count z\<rparr>"

record ZMerge =
  Weights :: "float64 list"
  Aggregate :: string

definition ToZStore :: "ZMerge \<Rightarrow> arg" where
  "ToZStore z = AStore (Weights z) (Aggregate z)"

abbreviation Req :: "string \<Rightarrow> string list \<Rightarrow> arg list \<Rightarrow> request" where
  "Req n ks as \<equiv> \<lparr>req_name = n, req_keys = ks, req_args = as\<rparr>"


section \<open>Strings and expiry (\<^verbatim>\<open>redis_view.go\<close>)\<close>

text \<open>\<^verbatim>\<open>XAdd\<close> passes its argument record through; \<open>stream\<close> is its field \<^verbatim>\<open>Stream\<close>.\<close>

definition XAdd :: "'db redisView \<Rightarrow> string \<Rightarrow> arg list \<Rightarrow> ('db, string) redis_call" where
  "XAdd r stream a = stringCmd (cmd r) (Req ''XADD'' [stream] a)"

definition SetNX :: "'db redisView \<Rightarrow> (nat \<Rightarrow> nat \<Rightarrow> nat \<Rightarrow> nat) \<Rightarrow> string \<Rightarrow> bytes \<Rightarrow> string \<Rightarrow> ('db, bool) redis_call" where
  "SetNX r frac key v duration s = 
     (if duration \<noteq> [] then
        (case ParseDuration frac duration of
           None \<Rightarrow> ((False, Some (ErrDuration duration)), s)
         | Some timeout \<Rightarrow> boolCmd (cmd r) (Req ''SETNX'' [expandKey r key] [ABytes v, ADur timeout]) s)
      else boolCmd (cmd r) (Req ''SETNX'' [expandKey r key] [ABytes v, ADur 0]) s)"

definition Scan :: "'db redisView \<Rightarrow> nat \<Rightarrow> string \<Rightarrow> int64 \<Rightarrow> ('db, string list) redis_call" where
  "Scan r cursor pattern count s = 
     on_ok [] fst (scanCmd (cmd r) (Req ''SCAN'' [expandKey r pattern] [AInt (of_nat cursor), AInt count]) s)"

definition Get :: "'db redisView \<Rightarrow> string \<Rightarrow> ('db, bytes) redis_call" where
  "Get r key s = on_ok [] (\<lambda>result. result) (stringCmd (cmd r) (Req ''GET'' [expandKey r key] []) s)"

definition Set :: "'db redisView \<Rightarrow> (nat \<Rightarrow> nat \<Rightarrow> nat \<Rightarrow> nat) \<Rightarrow> string \<Rightarrow> bytes \<Rightarrow> string \<Rightarrow> 'db \<Rightarrow> rerr option \<times> 'db" where
  "Set r frac key v duration s = 
     (let err = (\<lambda>c. case c of ((_, e), s') \<Rightarrow> (e, s'))
      in if duration \<noteq> [] then
           (case ParseDuration frac duration of
              None \<Rightarrow> (Some (ErrDuration duration), s)
            | Some timeout \<Rightarrow> err (stringCmd (cmd r) (Req ''SET'' [expandKey r key] [ABytes v, ADur timeout]) s))
         else err (stringCmd (cmd r) (Req ''SET'' [expandKey r key] [ABytes v, ADur 0]) s))"

definition Del :: "'db redisView \<Rightarrow> string list \<Rightarrow> ('db, int) redis_call" where
  "Del r keys s = intCmd (cmd r) (Req ''DEL'' (map (expandKey r) keys) []) s"

definition Expire :: "'db redisView \<Rightarrow> (nat \<Rightarrow> nat \<Rightarrow> nat \<Rightarrow> nat) \<Rightarrow> string \<Rightarrow> string \<Rightarrow> 'db \<Rightarrow> rerr option \<times> 'db" where
  "Expire r frac key duration s = 
     (case ParseDuration frac duration of
        None \<Rightarrow> (Some (ErrDuration duration), s)
      | Some timeout \<Rightarrow> wrapResult (boxed IBool (boolCmd (cmd r) (Req ''EXPIRE'' [expandKey r key] [ADur timeout]) s)))"

definition Exists :: "'db redisView \<Rightarrow> string \<Rightarrow> ('db, bool) redis_call" where
  "Exists r key s = on_ok False (\<lambda>count. count > 0) (intCmd (cmd r) (Req ''EXISTS'' [expandKey r key] []) s)"

section \<open>Hashes (\<^verbatim>\<open>redis_hash.go\<close>)\<close>

definition HSetNX :: "'db redisView \<Rightarrow> string \<Rightarrow> string \<Rightarrow> bytes \<Rightarrow> 'db \<Rightarrow> rerr option \<times> 'db" where
  "HSetNX r key field v s = 
     wrapResult (boxed IBool (boolCmd (cmd r) (Req ''HSETNX'' [expandKey r key] [AStr field, ABytes v]) s))"

definition HSet :: "'db redisView \<Rightarrow> string \<Rightarrow> string \<Rightarrow> bytes \<Rightarrow> 'db \<Rightarrow> rerr option \<times> 'db" where
  "HSet r key field v s = 
     wrapResult (boxed IInt (intCmd (cmd r) (Req ''HSET'' [expandKey r key] [AStr field, ABytes v]) s))"

definition HMSet :: "'db redisView \<Rightarrow> string \<Rightarrow> (string \<rightharpoonup> bytes) option \<Rightarrow> 'db \<Rightarrow> rerr option \<times> 'db" where
  "HMSet r key Values s = 
     (case Values of
        None \<Rightarrow> (Some ErrorInputValuesIsNil, s)
      | Some m \<Rightarrow> wrapResult (boxed IBool (boolCmd (cmd r) (Req ''HMSET'' [expandKey r key] [AFields m]) s)))"

definition HGet :: "'db redisView \<Rightarrow> string \<Rightarrow> string \<Rightarrow> ('db, bytes) redis_call" where
  "HGet r key field s = stringCmd (cmd r) (Req ''HGET'' [expandKey r key] [AStr field]) s"

definition HMGet :: "'db redisView \<Rightarrow> string \<Rightarrow> string list \<Rightarrow> 'db \<Rightarrow> (unit, bytes list \<times> rerr option) outcome \<times> 'db" where
  "HMGet r key fs s = 
     (case ifacesCmd (cmd r) (Req ''HMGET'' [expandKey r key] (map AStr fs)) s of ((result, err), s1) \<Rightarrow>
        (case err of
           Some e \<Rightarrow> (Returns ([], Some e), s1)
         | None \<Rightarrow> (case assert_bytes result of Returns bs \<Rightarrow> (Returns (bs, None), s1) | Panics p \<Rightarrow> (Panics p, s1))))"

definition HGetAll :: "'db redisView \<Rightarrow> string \<Rightarrow> ('db, string \<rightharpoonup> bytes) redis_call" where
  "HGetAll r key s = on_ok Map.empty (\<lambda>result. result) (mapCmd (cmd r) (Req ''HGETALL'' [expandKey r key] []) s)"

definition HDel :: "'db redisView \<Rightarrow> string \<Rightarrow> string list \<Rightarrow> ('db, int) redis_call" where
  "HDel r key fs s = intCmd (cmd r) (Req ''HDEL'' [expandKey r key] (map AStr fs)) s"

definition HLen :: "'db redisView \<Rightarrow> string \<Rightarrow> ('db, int) redis_call" where
  "HLen r key s = intCmd (cmd r) (Req ''HLEN'' [expandKey r key] []) s"

definition HKeys :: "'db redisView \<Rightarrow> string \<Rightarrow> ('db, string list) redis_call" where
  "HKeys r key s = stringsCmd (cmd r) (Req ''HKEYS'' [expandKey r key] []) s"

definition HValues :: "'db redisView \<Rightarrow> string \<Rightarrow> ('db, bytes list) redis_call" where
  "HValues r key s = wrapSliceStringToSliceBytes (stringsCmd (cmd r) (Req ''HVALS'' [expandKey r key] []) s)"

definition HExists :: "'db redisView \<Rightarrow> string \<Rightarrow> string \<Rightarrow> ('db, bool) redis_call" where
  "HExists r key field s = boolCmd (cmd r) (Req ''HEXISTS'' [expandKey r key] [AStr field]) s"

section \<open>Lists (\<^verbatim>\<open>redis_list.go\<close>)\<close>

definition LRem :: "'db redisView \<Rightarrow> string \<Rightarrow> int64 \<Rightarrow> bytes \<Rightarrow> ('db, int) redis_call" where
  "LRem r key count v s = intCmd (cmd r) (Req ''LREM'' [expandKey r key] [AInt count, ABytes v]) s"

definition LIndex :: "'db redisView \<Rightarrow> string \<Rightarrow> int64 \<Rightarrow> ('db, bytes) redis_call" where
  "LIndex r key index s = on_ok [] (\<lambda>result. result) (stringCmd (cmd r) (Req ''LINDEX'' [expandKey r key] [AInt index]) s)"

definition LTrim :: "'db redisView \<Rightarrow> string \<Rightarrow> int64 \<Rightarrow> int64 \<Rightarrow> 'db \<Rightarrow> rerr option \<times> 'db" where
  "LTrim r key start stop s = 
     wrapResult (boxed IStr (stringCmd (cmd r) (Req ''LTRIM'' [expandKey r key] [AInt start, AInt stop]) s))"

definition LSet :: "'db redisView \<Rightarrow> string \<Rightarrow> int64 \<Rightarrow> bytes \<Rightarrow> 'db \<Rightarrow> rerr option \<times> 'db" where
  "LSet r key index v s = 
     wrapResult (boxed IStr (stringCmd (cmd r) (Req ''LSET'' [expandKey r key] [AInt index, ABytes v]) s))"

definition LPush :: "'db redisView \<Rightarrow> string \<Rightarrow> bytes list \<Rightarrow> ('db, int) redis_call" where
  "LPush r key vs s = intCmd (cmd r) (Req ''LPUSH'' [expandKey r key] (map ABytes vs)) s"

definition LAppend :: "'db redisView \<Rightarrow> string \<Rightarrow> bytes list \<Rightarrow> ('db, int) redis_call" where
  "LAppend r key vs s = intCmd (cmd r) (Req ''RPUSH'' [expandKey r key] (map ABytes vs)) s"

definition LPop :: "'db redisView \<Rightarrow> string \<Rightarrow> ('db, bytes) redis_call" where
  "LPop r key s = on_ok [] (\<lambda>result. result) (stringCmd (cmd r) (Req ''LPOP'' [expandKey r key] []) s)"

definition LRPop :: "'db redisView \<Rightarrow> string \<Rightarrow> ('db, bytes) redis_call" where
  "LRPop r key s = on_ok [] (\<lambda>result. result) (stringCmd (cmd r) (Req ''RPOP'' [expandKey r key] []) s)"

definition LRange :: "'db redisView \<Rightarrow> string \<Rightarrow> int64 \<Rightarrow> int64 \<Rightarrow> ('db, bytes list) redis_call" where
  "LRange r key start stop s = 
     wrapSliceStringToSliceBytes (stringsCmd (cmd r) (Req ''LRANGE'' [expandKey r key] [AInt start, AInt stop]) s)"

definition LLen :: "'db redisView \<Rightarrow> string \<Rightarrow> ('db, int) redis_call" where
  "LLen r key s = intCmd (cmd r) (Req ''LLEN'' [expandKey r key] []) s"

text \<open>
  \<^verbatim>\<open>string(op)\<close> of the integer type \<^verbatim>\<open>InsertOP\<close> is the one-character string of that code
  point (below 128 a single byte).
\<close>

datatype InsertOP = InsertOP_BEFORE | InsertOP_AFTER

fun InsertOP_code :: "InsertOP \<Rightarrow> nat" where
  "InsertOP_code InsertOP_BEFORE = 0"
| "InsertOP_code InsertOP_AFTER = 1"

definition InsertOP_string :: "InsertOP \<Rightarrow> string" where
  "InsertOP_string op = [char_of (InsertOP_code op)]"

definition LInsert :: "'db redisView \<Rightarrow> string \<Rightarrow> InsertOP \<Rightarrow> bytes \<Rightarrow> bytes \<Rightarrow> ('db, int) redis_call" where
  "LInsert r key op pivot v s = 
     intCmd (cmd r) (Req ''LINSERT'' [expandKey r key] [AStr (InsertOP_string op), ABytes pivot, ABytes v]) s"

section \<open>Sets (\<^verbatim>\<open>redis_set.go\<close>)\<close>

definition SLen :: "'db redisView \<Rightarrow> string \<Rightarrow> ('db, int) redis_call" where
  "SLen r key s = intCmd (cmd r) (Req ''SCARD'' [expandKey r key] []) s"

definition SAdd :: "'db redisView \<Rightarrow> string \<Rightarrow> bytes list \<Rightarrow> ('db, int) redis_call" where
  "SAdd r key vs s = intCmd (cmd r) (Req ''SADD'' [expandKey r key] (map ABytes vs)) s"

definition SRem :: "'db redisView \<Rightarrow> string \<Rightarrow> bytes list \<Rightarrow> ('db, int) redis_call" where
  "SRem r key vs s = intCmd (cmd r) (Req ''SREM'' [expandKey r key] (map ABytes vs)) s"

definition SPop :: "'db redisView \<Rightarrow> string \<Rightarrow> ('db, bytes) redis_call" where
  "SPop r key s = on_ok [] (\<lambda>result. result) (stringCmd (cmd r) (Req ''SPOP'' [expandKey r key] []) s)"

definition SPopN :: "'db redisView \<Rightarrow> string \<Rightarrow> int64 \<Rightarrow> ('db, bytes list) redis_call" where
  "SPopN r key count s = wrapSliceStringToSliceBytes (stringsCmd (cmd r) (Req ''SPOP'' [expandKey r key] [AInt count]) s)"

definition SDiff :: "'db redisView \<Rightarrow> string list \<Rightarrow> ('db, bytes list) redis_call" where
  "SDiff r keys s = wrapSliceStringToSliceBytes (stringsCmd (cmd r) (Req ''SDIFF'' (map (expandKey r) keys) []) s)"

definition SDiffMerge :: "'db redisView \<Rightarrow> string \<Rightarrow> string list \<Rightarrow> ('db, int) redis_call" where
  "SDiffMerge r destination keys s = intCmd (cmd r) (Req ''SDIFFSTORE'' (destination # map (expandKey r) keys) []) s"

definition SInter :: "'db redisView \<Rightarrow> string list \<Rightarrow> ('db, bytes list) redis_call" where
  "SInter r keys s = wrapSliceStringToSliceBytes (stringsCmd (cmd r) (Req ''SINTER'' (map (expandKey r) keys) []) s)"

definition SInterMerge :: "'db redisView \<Rightarrow> string \<Rightarrow> string list \<Rightarrow> ('db, int) redis_call" where
  "SInterMerge r destination keys s = intCmd (cmd r) (Req ''SINTERSTORE'' (destination # map (expandKey r) keys) []) s"

definition SUnion :: "'db redisView \<Rightarrow> string list \<Rightarrow> ('db, bytes list) redis_call" where
  "SUnion r keys s = wrapSliceStringToSliceBytes (stringsCmd (cmd r) (Req ''SUNION'' (map (expandKey r) keys) []) s)"

definition SUnionMerge :: "'db redisView \<Rightarrow> string \<Rightarrow> string list \<Rightarrow> ('db, int) redis_call" where
  "SUnionMerge r destination keys s = intCmd (cmd r) (Req ''SUNIONSTORE'' (destination # map (expandKey r) keys) []) s"

section \<open>Sorted sets (\<^verbatim>\<open>redis_zset.go\<close>)\<close>

definition ZLen :: "'db redisView \<Rightarrow> string \<Rightarrow> ('db, int) redis_call" where
  "ZLen r key s = intCmd (cmd r) (Req ''ZCARD'' [expandKey r key] []) s"

definition ZCount :: "'db redisView \<Rightarrow> (float64 \<Rightarrow> string) \<Rightarrow> string \<Rightarrow> float64 \<Rightarrow> float64 \<Rightarrow> ('db, int) redis_call" where
  "ZCount r Sprintf_f key mi ma s = 
     intCmd (cmd r) (Req ''ZCOUNT'' [expandKey r key] [AStr (Sprintf_f mi), AStr (Sprintf_f ma)]) s"

definition ZLexCount :: "'db redisView \<Rightarrow> string \<Rightarrow> string \<Rightarrow> string \<Rightarrow> ('db, int) redis_call" where
  "ZLexCount r key mi ma s = ((0, Some ErrNotImplemented), s)"

definition ZAdd :: "'db redisView \<Rightarrow> string \<Rightarrow> ZMember list \<Rightarrow> ('db, int) redis_call" where
  "ZAdd r key members s = 
     intCmd (cmd r) (Req ''ZADD'' [expandKey r key] (map (\<lambda>m. AZ (Score m) (Member m)) members)) s"

definition ZRem :: "'db redisView \<Rightarrow> string \<Rightarrow> ZMember list \<Rightarrow> ('db, int) redis_call" where
  "ZRem r key members s = intCmd (cmd r) (Req ''ZREM'' [expandKey r key] (map (\<lambda>m. ABytes (Member m)) members)) s"

definition ZRemRangeByLex :: "'db redisView \<Rightarrow> string \<Rightarrow> string \<Rightarrow> string \<Rightarrow> ('db, int) redis_call" where
  "ZRemRangeByLex r key mi ma s = intCmd (cmd r) (Req ''ZREMRANGEBYLEX'' [expandKey r key] [AStr mi, AStr ma]) s"

definition ZRemRangeByScore :: "'db redisView \<Rightarrow> (float64 \<Rightarrow> string) \<Rightarrow> string \<Rightarrow> float64 \<Rightarrow> float64 \<Rightarrow> ('db, int) redis_call" where
  "ZRemRangeByScore r Sprintf_f key mi ma s = 
     intCmd (cmd r) (Req ''ZREMRANGEBYSCORE'' [expandKey r key] [AStr (Sprintf_f mi), AStr (Sprintf_f ma)]) s"

definition ZRemRangeByRank :: "'db redisView \<Rightarrow> string \<Rightarrow> int64 \<Rightarrow> int64 \<Rightarrow> ('db, int) redis_call" where
  "ZRemRangeByRank r key start stop s = intCmd (cmd r) (Req ''ZREMRANGEBYRANK'' [expandKey r key] [AInt start, AInt stop]) s"

text \<open>
  The four guarded calls of \<^verbatim>\<open>ZRange\<close> and of \<^verbatim>\<open>ZRangeByScore\<close>, in order, each overwriting
  the variables \<^verbatim>\<open>members\<close> or \<^verbatim>\<open>zSlice\<close> and \<^verbatim>\<open>err\<close>.
\<close>

definition set_members :: "('db, string list) redis_call \<Rightarrow> (string list \<times> (float64 \<times> iface) list \<times> rerr option) \<times> 'db \<Rightarrow> (string list \<times> (float64 \<times> iface) list \<times> rerr option) \<times> 'db" where
  "set_members c st = (case st of ((ms, zs, err), s) \<Rightarrow> (case c s of ((ms', err'), s') \<Rightarrow> ((ms', zs, err'), s')))"

definition set_zSlice :: "('db, (float64 \<times> iface) list) redis_call \<Rightarrow> (string list \<times> (float64 \<times> iface) list \<times> rerr option) \<times> 'db \<Rightarrow> (string list \<times> (float64 \<times> iface) list \<times> rerr option) \<times> 'db" where
  "set_zSlice c st = (case st of ((ms, zs, err), s) \<Rightarrow> (case c s of ((zs', err'), s') \<Rightarrow> ((ms, zs', err'), s')))"

definition ZRange :: "'db redisView \<Rightarrow> string \<Rightarrow> int64 \<Rightarrow> int64 \<Rightarrow> bool \<Rightarrow> bool \<Rightarrow> 'db \<Rightarrow> (unit, ZMember list \<times> rerr option) outcome \<times> 'db" where
  "ZRange r key start stop reverse withScores s = 
     (let st0 = (([], [], None), s);
          st1 = (if \<not> reverse \<and> \<not> withScores
                 then set_members (stringsCmd (cmd r) (Req ''ZRANGE'' [expandKey r key] [AInt start, AInt stop])) st0 else st0);
          st2 = (if reverse \<and> withScores
                 then set_zSlice (zsCmd (cmd r) (Req ''ZREVRANGE'' [expandKey r key] ([AInt start, AInt stop] @ [AFlag ''WITHSCORES'']))) st1 else st1);
          st3 = (if reverse
                 then set_members (stringsCmd (cmd r) (Req ''ZREVRANGE'' [expandKey r key] [AInt start, AInt stop])) st2 else st2);
          st4 = (if withScores
                 then set_zSlice (zsCmd (cmd r) (Req ''ZRANGE'' [expandKey r key] ([AInt start, AInt stop] @ [AFlag ''WITHSCORES'']))) st3 else st3)
      in case st4 of ((members, zSlice, err), s4) \<Rightarrow> (toRangeZMembers err members zSlice, s4))"

definition ZRangeByScore :: "'db redisView \<Rightarrow> string \<Rightarrow> ZRangeBy \<Rightarrow> bool \<Rightarrow> bool \<Rightarrow> 'db \<Rightarrow> (unit, ZMember list \<times> rerr option) outcome \<times> 'db" where
  "ZRangeByScore r key rangeBy reverse withScores s = 
     (let rb = ToRedisRangeBy rangeBy;
          st0 = (([], [], None), s);
          st1 = (if \<not> reverse \<and> \<not> withScores
                 then set_members (stringsCmd (cmd r) (Req ''ZRANGEBYSCORE'' [expandKey r key] [ARange rb])) st0 else st0);
          st2 = (if reverse \<and> withScores
                 then set_zSlice (zsCmd (cmd r) (Req ''ZREVRANGEBYSCORE'' [expandKey r key] ([ARange rb] @ [AFlag ''WITHSCORES'']))) st1 else st1);
          st3 = (if reverse
                 then set_members (stringsCmd (cmd r) (Req ''ZREVRANGEBYSCORE'' [expandKey r key] [ARange rb])) st2 else st2);
          st4 = (if withScores
                 then set_zSlice (zsCmd (cmd r) (Req ''ZRANGEBYSCORE'' [expandKey r key] ([ARange rb] @ [AFlag ''WITHSCORES'']))) st3 else st3)
      in case st4 of ((members, zSlice, err), s4) \<Rightarrow> (toRangeZMembers err members zSlice, s4))"

definition ZRangeByLex :: "'db redisView \<Rightarrow> string \<Rightarrow> ZRangeBy \<Rightarrow> bool \<Rightarrow> 'db \<Rightarrow> (unit, ZMember list \<times> rerr option) outcome \<times> 'db" where
  "ZRangeByLex r key rangeBy reverse s = 
     (let rb = ToRedisRangeBy rangeBy;
          st0 = (([], [], None), s);
          st1 = (if reverse then set_members (stringsCmd (cmd r) (Req ''ZREVRANGEBYLEX'' [key] [ARange rb])) st0 else st0);
          st2 = set_members (stringsCmd (cmd r) (Req ''ZRANGEBYLEX'' [key] [ARange rb])) st1
      in case st2 of ((members, _, err), s2) \<Rightarrow> (toRangeZMembers err members [], s2))"

definition ZRank :: "'db redisView \<Rightarrow> string \<Rightarrow> bytes \<Rightarrow> bool \<Rightarrow> ('db, int) redis_call" where
  "ZRank r key member reverse s = 
     (if reverse then intCmd (cmd r) (Req ''ZREVRANK'' [expandKey r key] [AStr member]) s
      else intCmd (cmd r) (Req ''ZRANK'' [expandKey r key] [AStr member]) s)"

definition ZIncr :: "'db redisView \<Rightarrow> string \<Rightarrow> ZMember \<Rightarrow> ('db, float64) redis_call" where
  "ZIncr r key m s = floatCmd (cmd r) (Req ''ZINCRBY'' [expandKey r key] [AFloat (Score m), AStr (Member m)]) s"

definition ZIncrNX :: "'db redisView \<Rightarrow> string \<Rightarrow> ZMember \<Rightarrow> ('db, float64) redis_call" where
  "ZIncrNX r key m s = floatCmd (cmd r) (Req ''ZADD'' [key] [AFlag ''NX'', AFlag ''INCR'', AZ (Score m) (Member m)]) s"

definition ZInterMerge :: "'db redisView \<Rightarrow> string \<Rightarrow> string list \<Rightarrow> float64 list \<Rightarrow> string \<Rightarrow> ('db, int) redis_call" where
  "ZInterMerge r destination keys wights aggregate s = 
     intCmd (cmd r) (Req ''ZINTERSTORE'' (destination # keys) [AStore wights aggregate]) s"

definition ZUnionMerge :: "'db redisView \<Rightarrow> string \<Rightarrow> string list \<Rightarrow> float64 list \<Rightarrow> string \<Rightarrow> ('db, int) redis_call" where
  "ZUnionMerge r destination keys wights aggregate s = 
     intCmd (cmd r) (Req ''ZUNIONSTORE'' (destination # keys) [AStore wights aggregate]) s"

section \<open>Geo sets (\<^verbatim>\<open>redis_geo.go\<close>)\<close>

definition GeoAdd :: "'db redisView \<Rightarrow> string \<Rightarrow> GeoLocation list \<Rightarrow> ('db, int) redis_call" where
  "GeoAdd r key geoLocation s = on_ok 0 (\<lambda>result. result) (intCmd (cmd r) (Req ''GEOADD'' [expandKey r key] (map AGeo geoLocation)) s)"

definition GeoRadius :: "'db redisView \<Rightarrow> string \<Rightarrow> float64 \<Rightarrow> float64 \<Rightarrow> nat \<Rightarrow> ('db, GeoLocation list) redis_call" where
  "GeoRadius r key longitude latitude query s = 
     on_ok [] (\<lambda>result. result) (geosCmd (cmd r) (Req ''GEORADIUS'' [expandKey r key] [AFloat longitude, AFloat latitude, AQuery query]) s)"

definition GeoRadiusByMember :: "'db redisView \<Rightarrow> string \<Rightarrow> string \<Rightarrow> nat \<Rightarrow> ('db, GeoLocation list) redis_call" where
  "GeoRadiusByMember r key member query s = 
     on_ok [] (\<lambda>result. result) (geosCmd (cmd r) (Req ''GEORADIUSBYMEMBER'' [expandKey r key] [AStr member, AQuery query]) s)"

definition GeoDist :: "'db redisView \<Rightarrow> string \<Rightarrow> string \<Rightarrow> string \<Rightarrow> string \<Rightarrow> ('db, float64) redis_call" where
  "GeoDist r key member1 member2 unit s = 
     on_ok 0 (\<lambda>result. result) (floatCmd (cmd r) (Req ''GEODIST'' [expandKey r key] [AStr member1, AStr member2, AStr unit]) s)"

definition GeoHash :: "'db redisView \<Rightarrow> string \<Rightarrow> string list \<Rightarrow> ('db, string list) redis_call" where
  "GeoHash r key members s = on_ok [] (\<lambda>result. result) (stringsCmd (cmd r) (Req ''GEOHASH'' [expandKey r key] (map AStr members)) s)"

definition GeoPos :: "'db redisView \<Rightarrow> string \<Rightarrow> string list \<Rightarrow> ('db, (float64 \<times> float64) option list) redis_call" where
  "GeoPos r key members s = 
     on_ok [] (\<lambda>result. result) (posCmd (cmd r) (Req ''GEOPOS'' [expandKey r key] (map AStr members)) s)"

text \<open>
  \<open>fresh\<close> is the random UUID text of \<^verbatim>\<open>google/uuid\<close>. The deferred deletion of the temporary key
  runs on every return.
\<close>

definition location :: "string \<Rightarrow> Location \<Rightarrow> GeoLocation" where
  "location n l = \<lparr>Name = n, GeoLongitude = Longitude l, GeoLatitude = Latitude l, Dist = 0, GeoHashCode = 0\<rparr>"

definition GeoCalculate_body :: "'db redisView \<Rightarrow> string \<Rightarrow> Location \<Rightarrow> Location \<Rightarrow> ('db, float64) redis_call" where
  "GeoCalculate_body r key location1 location2 s =
     (case GeoAdd r key [location ''location1'' location1] s of
        ((_, Some e), s1) \<Rightarrow> ((0, Some e), s1)
      | ((_, None), s1) \<Rightarrow>
          (case GeoAdd r key [location ''location2'' location2] s1 of
             ((_, Some e), s2) \<Rightarrow> ((0, Some e), s2)
           | ((_, None), s2) \<Rightarrow>
               (case GeoDist r key ''location1'' ''location2'' ''km'' s2 of
                  ((_, Some e), s3) \<Rightarrow> ((0, Some e), s3)
                | ((dist, None), s3) \<Rightarrow> ((dist, None), s3))))"

definition GeoCalculateDistance :: "'db redisView \<Rightarrow> string \<Rightarrow> string \<Rightarrow> Location \<Rightarrow> Location \<Rightarrow> ('db, float64) redis_call" where
  "GeoCalculateDistance r fresh key0 location1 location2 s =
     (let key = key0 @ '':'' @ fresh
      in case GeoCalculate_body r key location1 location2 s of (res, s1) \<Rightarrow> (res, snd (Del r [key] s1)))"

section \<open>Publish and subscribe (\<^verbatim>\<open>redis_subscribe.go\<close>)\<close>

text \<open>
  A client may lack \<^verbatim>\<open>Subscribe\<close> and \<^verbatim>\<open>PSubscribe\<close> (\<open>None\<close>); \<^verbatim>\<open>Publish\<close> is a method of every
  \<^verbatim>\<open>Cmdable\<close>. Channels are passed on unchanged. A subscription is a handle.
\<close>

definition Subscribe :: "'db redisView \<Rightarrow> string list \<Rightarrow> 'db \<Rightarrow> (rerr + nat) \<times> 'db" where
  "Subscribe r channels s =
     (case subscribeCap (cmd r) of
        Some f \<Rightarrow> (case f channels s of (h, s') \<Rightarrow> (Inr h, s'))
      | None \<Rightarrow> (Inl ErrUnSupported, s))"

definition PSubscribe :: "'db redisView \<Rightarrow> string list \<Rightarrow> 'db \<Rightarrow> (rerr + nat) \<times> 'db" where
  "PSubscribe r channels s =
     (case psubscribeCap (cmd r) of
        Some f \<Rightarrow> (case f channels s of (h, s') \<Rightarrow> (Inr h, s'))
      | None \<Rightarrow> (Inl ErrUnSupported, s))"

definition Publish :: "'db redisView \<Rightarrow> string \<Rightarrow> bytes \<Rightarrow> ('db, int) redis_call" where
  "Publish r channel message s = intCmd (cmd r) (Req ''PUBLISH'' [] [AStr channel, ABytes message]) s"

section \<open>Initialisation (\<^verbatim>\<open>redis_cmd.go\<close>)\<close>

record Config =
  Addrs :: "string list"
  Password :: string
  ConfKeyPrefix :: string
  DbIndex :: int64
  DialTimeout :: int
  ReadTimeout :: int
  WriteTimeout :: int
  ReadOnly :: bool
  PoolSize :: int64
  PoolTimeout :: int
  IdleTimeout :: int
  IdleCheckFrequency :: int
  UseCluster :: bool
  TLSConfig :: "nat option"

record ClusterOptions =
  cAddrs :: "string list"
  cReadOnly :: bool
  cPassword :: string
  cTimeouts :: "int list"
  cPoolSize :: int64
  cTLSConfig :: "nat option"

record Options =
  oAddr :: string
  oPassword :: string
  oDB :: int64
  oTimeouts :: "int list"
  oPoolSize :: int64
  oTLSConfig :: "nat option"

text \<open>
  \<open>parse\<close> is \<^verbatim>\<open>utils.Bytes2Struct\<close>; the two constructors of go-redis are parameters. The second
  component of the result is the package variable \<^verbatim>\<open>redisCon\<close> afterwards.
\<close>

definition Init ::
  "(bytes \<Rightarrow> string + Config) \<Rightarrow> (ClusterOptions \<Rightarrow> 'client) \<Rightarrow> (Options \<Rightarrow> 'client) \<Rightarrow> bytes \<Rightarrow> 'client option \<Rightarrow>
   (string, 'client option \<times> rerr option) outcome \<times> 'client option" where
  "Init parse NewClusterClient NewClient redisConf redisCon =
     (case parse redisConf of
        Inl e \<Rightarrow> (Panics (''Failed to parse Redis configuration: '' @ e), redisCon)
      | Inr c \<Rightarrow>
          if length (Addrs c) = 0 then (Returns (None, Some ErrRedisAddrsEmpty), redisCon)
          else
            let con1 = (if UseCluster c
                        then Some (NewClusterClient \<lparr>cAddrs = Addrs c, cReadOnly = ReadOnly c, cPassword = Password c,
                               cTimeouts = [DialTimeout c, ReadTimeout c, WriteTimeout c, PoolTimeout c], cPoolSize = PoolSize c, cTLSConfig = TLSConfig c\<rparr>)
                        else redisCon);
                con2 = Some (NewClient \<lparr>oAddr = hd (Addrs c), oPassword = Password c, oDB = DbIndex c,
                               oTimeouts = [DialTimeout c, ReadTimeout c, WriteTimeout c, PoolTimeout c], oPoolSize = PoolSize c, oTLSConfig = TLSConfig c\<rparr>)
            in (Returns (con2, None), con2))"

definition GetRedisDb :: "'client option \<Rightarrow> 'client option" where
  "GetRedisDb redisCon = redisCon"

section \<open>The key space of a view\<close>

definition in_space :: "'db redisView \<Rightarrow> request \<Rightarrow> bool" where
  "in_space r q \<longleftrightarrow> list_all (\<lambda>k. prefix (key_prefix r @ RedisKeySep) k) (req_keys q)"

text \<open>
  \<open>each_cmd c R\<close>: every command of the client, whatever its result type, relates the state
  before and after it and the request by \<open>R\<close>.
\<close>

definition each_cmd :: "'db RedisCmd \<Rightarrow> (request \<Rightarrow> 'db \<Rightarrow> 'db \<Rightarrow> bool) \<Rightarrow> bool" where
  "each_cmd c R \<longleftrightarrow>
     (\<forall>q s. R q s (snd (intCmd c q s)) \<and> R q s (snd (boolCmd c q s)) \<and> R q s (snd (stringCmd c q s)) \<and>
       R q s (snd (stringsCmd c q s)) \<and> R q s (snd (scanCmd c q s)) \<and> R q s (snd (mapCmd c q s)) \<and>
       R q s (snd (ifacesCmd c q s)) \<and> R q s (snd (zsCmd c q s)) \<and> R q s (snd (floatCmd c q s)) \<and>
       R q s (snd (geosCmd c q s)) \<and> R q s (snd (posCmd c q s)))"

text \<open>
  A call of the view, by its effect on the server: every method of \<^verbatim>\<open>redisView\<close> except the ones
  that pass a key of the caller on unchanged (the merges, \<^verbatim>\<open>ZRangeByLex\<close>, \<^verbatim>\<open>ZIncrNX\<close>,
  \<^verbatim>\<open>XAdd\<close>).
\<close>

inductive view_step :: "'db redisView \<Rightarrow> 'db \<Rightarrow> 'db \<Rightarrow> bool" for r :: "'db redisView" where
  step_SetNX: "view_step r s (snd (SetNX r frac key v duration s))"
| step_Scan: "view_step r s (snd (Scan r cursor pattern count s))"
| step_Get: "view_step r s (snd (Get r key s))"
| step_Set: "view_step r s (snd (Set r frac key v duration s))"
| step_Del: "view_step r s (snd (Del r keys s))"
| step_Expire: "view_step r s (snd (Expire r frac key duration s))"
| step_Exists: "view_step r s (snd (Exists r key s))"
| step_HSetNX: "view_step r s (snd (HSetNX r key field v s))"
| step_HSet: "view_step r s (snd (HSet r key field v s))"
| step_HMSet: "view_step r s (snd (HMSet r key Values s))"
| step_HGet: "view_step r s (snd (HGet r key field s))"
| step_HMGet: "view_step r s (snd (HMGet r key fs s))"
| step_HGetAll: "view_step r s (snd (HGetAll r key s))"
| step_HDel: "view_step r s (snd (HDel r key fs s))"
| step_HLen: "view_step r s (snd (HLen r key s))"
| step_HKeys: "view_step r s (snd (HKeys r key s))"
| step_HValues: "view_step r s (snd (HValues r key s))"
| step_HExists: "view_step r s (snd (HExists r key field s))"
| step_LRem: "view_step r s (snd (LRem r key count v s))"
| step_LIndex: "view_step r s (snd (LIndex r key index s))"
| step_LTrim: "view_step r s (snd (LTrim r key start stop s))"
| step_LSet: "view_step r s (snd (LSet r key index v s))"
| step_LPush: "view_step r s (snd (LPush r key vs s))"
| step_LAppend: "view_step r s (snd (LAppend r key vs s))"
| step_LPop: "view_step r s (snd (LPop r key s))"
| step_LRPop: "view_step r s (snd (LRPop r key s))"
| step_LRange: "view_step r s (snd (LRange r key start stop s))"
| step_LLen: "view_step r s (snd (LLen r key s))"
| step_LInsert: "view_step r s (snd (LInsert r key op pivot v s))"
| step_SLen: "view_step r s (snd (SLen r key s))"
| step_SAdd: "view_step r s (snd (SAdd r key vs s))"
| step_SRem: "view_step r s (snd (SRem r key vs s))"
| step_SPop: "view_step r s (snd (SPop r key s))"
| step_SPopN: "view_step r s (snd (SPopN r key count s))"
| step_SDiff: "view_step r s (snd (SDiff r keys s))"
| step_SInter: "view_step r s (snd (SInter r keys s))"
| step_SUnion: "view_step r s (snd (SUnion r keys s))"
| step_ZLen: "view_step r s (snd (ZLen r key s))"
| step_ZCount: "view_step r s (snd (ZCount r Sprintf_f key fmin fmax s))"
| step_ZLexCount: "view_step r s (snd (ZLexCount r key mi ma s))"
| step_ZAdd: "view_step r s (snd (ZAdd r key members s))"
| step_ZRem: "view_step r s (snd (ZRem r key members s))"
| step_ZRemRangeByLex: "view_step r s (snd (ZRemRangeByLex r key mi ma s))"
| step_ZRemRangeByScore: "view_step r s (snd (ZRemRangeByScore r Sprintf_f key fmin fmax s))"
| step_ZRemRangeByRank: "view_step r s (snd (ZRemRangeByRank r key start stop s))"
| step_ZRange: "view_step r s (snd (ZRange r key start stop reverse withScores s))"
| step_ZRangeByScore: "view_step r s (snd (ZRangeByScore r key rangeBy reverse withScores s))"
| step_ZRank: "view_step r s (snd (ZRank r key member reverse s))"
| step_ZIncr: "view_step r s (snd (ZIncr r key m s))"
| step_GeoAdd: "view_step r s (snd (GeoAdd r key locs s))"
| step_GeoRadius: "view_step r s (snd (GeoRadius r key longitude latitude query s))"
| step_GeoRadiusByMember: "view_step r s (snd (GeoRadiusByMember r key member query s))"
| step_GeoDist: "view_step r s (snd (GeoDist r key member1 member2 unit s))"
| step_GeoHash: "view_step r s (snd (GeoHash r key ms s))"
| step_GeoPos: "view_step r s (snd (GeoPos r key ms s))"
| step_GeoCalculateDistance: "view_step r s (snd (GeoCalculateDistance r fresh key location1 location2 s))"
| step_Publish: "view_step r s (snd (Publish r channel message s))"

lemmas result_defs = wrapResult_def boxed_def on_ok_def wrapSliceStringToSliceBytes_def
  set_members_def set_zSlice_def

lemma snd_on_ok [simp]: "snd (on_ok z f c) = snd c"
  by (auto simp: on_ok_def split: prod.splits option.splits)

lemma snd_boxed [simp]: "snd (boxed b c) = snd c"
  by (auto simp: boxed_def split: prod.splits)

lemma snd_wrapResult [simp]: "snd (wrapResult c) = snd c"
  by (auto simp: wrapResult_def split: prod.splits option.splits iface.splits)

lemma snd_wrapSlice [simp]: "snd (wrapSliceStringToSliceBytes c) = snd c"
  by (auto simp: wrapSliceStringToSliceBytes_def split: prod.splits option.splits)

lemma snd_set_members [simp]: "snd (set_members c st) = snd (c (snd st))"
  by (auto simp: set_members_def split: prod.splits)

lemma snd_set_zSlice [simp]: "snd (set_zSlice c st) = snd (c (snd st))"
  by (auto simp: set_zSlice_def split: prod.splits)

lemma in_space_expand [simp]:
  "in_space r (Req n [expandKey r k] as)" "in_space r (Req n (map (expandKey r) ks) as)" "in_space r (Req n [] as)"
  by (auto simp: in_space_def expandKey_def list_all_iff)

text \<open>
  What every request inside the key space of the view keeps, every call of the view keeps.
\<close>

definition keeps :: "'db redisView \<Rightarrow> ('db \<Rightarrow> bool) \<Rightarrow> bool" where
  "keeps r P \<longleftrightarrow> each_cmd (cmd r) (\<lambda>q s t. in_space r q \<longrightarrow> P s \<longrightarrow> P t)"

lemma keeps_cmd:
  assumes "keeps r P" and "in_space r q" and "P s"
  shows "P (snd (intCmd (cmd r) q s))" "P (snd (boolCmd (cmd r) q s))" "P (snd (stringCmd (cmd r) q s))"
    "P (snd (stringsCmd (cmd r) q s))" "P (snd (scanCmd (cmd r) q s))" "P (snd (mapCmd (cmd r) q s))"
    "P (snd (ifacesCmd (cmd r) q s))" "P (snd (zsCmd (cmd r) q s))" "P (snd (floatCmd (cmd r) q s))"
    "P (snd (geosCmd (cmd r) q s))" "P (snd (posCmd (cmd r) q s))"
  using assms by (simp_all add: keeps_def each_cmd_def)

lemmas simple_call_defs =
  Scan_def Get_def Del_def Exists_def HSetNX_def HSet_def HGet_def HGetAll_def HDel_def HLen_def HKeys_def HValues_def HExists_def LRem_def LIndex_def LTrim_def LSet_def LPush_def LAppend_def LPop_def LRPop_def LRange_def LLen_def LInsert_def SLen_def SAdd_def SRem_def SPop_def SPopN_def SDiff_def SInter_def SUnion_def ZLen_def ZCount_def ZAdd_def ZRem_def ZRemRangeByLex_def ZRemRangeByScore_def ZRemRangeByRank_def ZIncr_def GeoAdd_def GeoRadius_def GeoRadiusByMember_def GeoDist_def GeoHash_def GeoPos_def Publish_def

lemma keeps_HMGet: "snd (HMGet r key fs s) = snd (ifacesCmd (cmd r) (Req ''HMGET'' [expandKey r key] (map AStr fs)) s)"
  by (auto simp: HMGet_def split: prod.splits option.splits outcome.splits)

lemma keeps_Set:
  assumes "keeps r P" and "P s"
  shows "P (snd (Set r frac key v duration s))" "P (snd (SetNX r frac key v duration s))"
    "P (snd (Expire r frac key duration s))" "P (snd (HMSet r key Values s))" "P (snd (HMGet r key fs s))"
    "P (snd (ZRank r key member reverse s))" "P (snd (ZLexCount r key mi ma s))"
  using assms(2) by (simp_all add: Set_def SetNX_def Expire_def HMSet_def keeps_HMGet ZRank_def ZLexCount_def Let_def
      case_prod_unfold keeps_cmd [OF assms(1)] split: option.split)

lemma keeps_ZRange:
  assumes "keeps r P" and "P s"
  shows "P (snd (ZRange r key start stop reverse withScores s))"
  using assms(2) by (simp add: ZRange_def Let_def case_prod_unfold keeps_cmd [OF assms(1)])

lemma keeps_ZRangeByScore:
  assumes "keeps r P" and "P s"
  shows "P (snd (ZRangeByScore r key rangeBy reverse withScores s))"
  using assms(2) by (simp add: ZRangeByScore_def Let_def case_prod_unfold keeps_cmd [OF assms(1)])

lemma keeps_Geo:
  assumes "keeps r P" and "P s"
  shows "P (snd (GeoAdd r key locs s))" "P (snd (GeoDist r key m1 m2 unit s))" "P (snd (Del r keys s))"
  using assms(2) by (simp_all add: GeoAdd_def GeoDist_def Del_def keeps_cmd [OF assms(1)])

lemma keeps_GeoCalculate_body:
  assumes "keeps r P" and "P s"
  shows "P (snd (GeoCalculate_body r key l1 l2 s))"
  unfolding GeoCalculate_body_def
  using keeps_Geo [OF assms(1)] assms(2)
  by (auto split: prod.splits option.splits) (metis snd_conv)+

lemma keeps_GeoCalculateDistance:
  assumes "keeps r P" and "P s"
  shows "P (snd (GeoCalculateDistance r fresh key l1 l2 s))"
  using keeps_Geo(3) [OF assms(1) keeps_GeoCalculate_body [OF assms]]
  by (simp add: GeoCalculateDistance_def Let_def case_prod_unfold)

lemma keeps_simple:
  assumes "keeps r P" and "P s"
  shows
    "P (snd (Scan r cursor pattern count s))"
    "P (snd (Get r key s))"
    "P (snd (Del r keys s))"
    "P (snd (Exists r key s))"
    "P (snd (HSetNX r key field v s))"
    "P (snd (HSet r key field v s))"
    "P (snd (HGet r key field s))"
    "P (snd (HGetAll r key s))"
    "P (snd (HDel r key fs s))"
    "P (snd (HLen r key s))"
    "P (snd (HKeys r key s))"
    "P (snd (HValues r key s))"
    "P (snd (HExists r key field s))"
    "P (snd (LRem r key count v s))"
    "P (snd (LIndex r key index s))"
    "P (snd (LTrim r key start stop s))"
    "P (snd (LSet r key index v s))"
    "P (snd (LPush r key vs s))"
    "P (snd (LAppend r key vs s))"
    "P (snd (LPop r key s))"
    "P (snd (LRPop r key s))"
    "P (snd (LRange r key start stop s))"
    "P (snd (LLen r key s))"
    "P (snd (LInsert r key op pivot v s))"
    "P (snd (SLen r key s))"
    "P (snd (SAdd r key vs s))"
    "P (snd (SRem r key vs s))"
    "P (snd (SPop r key s))"
    "P (snd (SPopN r key count s))"
    "P (snd (SDiff r keys s))"
    "P (snd (SInter r keys s))"
    "P (snd (SUnion r keys s))"
    "P (snd (ZLen r key s))"
    "P (snd (ZCount r Sprintf_f key fmin fmax s))"
    "P (snd (ZAdd r key members s))"
    "P (snd (ZRem r key members s))"
    "P (snd (ZRemRangeByLex r key mi ma s))"
    "P (snd (ZRemRangeByScore r Sprintf_f key fmin fmax s))"
    "P (snd (ZRemRangeByRank r key start stop s))"
    "P (snd (ZIncr r key m s))"
    "P (snd (GeoAdd r key locs s))"
    "P (snd (GeoRadius r key longitude latitude query s))"
    "P (snd (GeoRadiusByMember r key member query s))"
    "P (snd (GeoDist r key member1 member2 unit s))"
    "P (snd (GeoHash r key ms s))"
    "P (snd (GeoPos r key ms s))"
    "P (snd (Publish r channel message s))"
  using assms(2) by (simp_all add: simple_call_defs keeps_cmd [OF assms(1)])

lemma view_step_keeps:
  assumes "keeps r P" and "P s" and "view_step r s t"
  shows "P t"
  using assms(3) by cases
    (simp_all add: assms(2) keeps_simple [OF assms(1)] keeps_Set [OF assms(1)] keeps_ZRange [OF assms(1)]
      keeps_ZRangeByScore [OF assms(1)] keeps_GeoCalculateDistance [OF assms(1)])

lemma view_run_keeps: "(view_step r)\<^sup>*\<^sup>* s t \<Longrightarrow> keeps r P \<Longrightarrow> P s \<Longrightarrow> P t"
  by (induction rule: rtranclp_induct) (auto intro: view_step_keeps)

section \<open>The interface of the key space\<close>

text \<open>
  What a user of a view relies on: a key can be recovered, and views that are not the same
  namespace never address the same key of the server.
\<close>

locale key_space =
  fixes expand :: "'v \<Rightarrow> string \<Rightarrow> string"
    and truncate :: "'v \<Rightarrow> string \<Rightarrow> string"
    and plain :: "'v \<Rightarrow> bool"
    and same :: "'v \<Rightarrow> 'v \<Rightarrow> bool"
  assumes truncate_expand: "plain v \<Longrightarrow> truncate v (expand v k) = k"
    and expand_same: "plain v \<Longrightarrow> plain w \<Longrightarrow> expand v k = expand w l \<Longrightarrow> same v w"
begin

lemma expand_inj: "plain v \<Longrightarrow> expand v k = expand v l \<Longrightarrow> k = l"
  by (metis truncate_expand)

lemma foreign_key: "plain v \<Longrightarrow> plain w \<Longrightarrow> \<not> same v w \<Longrightarrow> expand v k \<noteq> expand w l"
  using expand_same by blast

lemma disjoint_spaces: "plain v \<Longrightarrow> plain w \<Longrightarrow> \<not> same v w \<Longrightarrow> range (expand v) \<inter> range (expand w) = {}"
  by (auto dest: foreign_key)

end

definition plain_prefix :: "'db redisView \<Rightarrow> bool" where
  "plain_prefix r \<longleftrightarrow> CHR '':'' \<notin> set (key_prefix r)"

lemma split_expanded: "strings_Split (expandKey r k) RedisKeySep = strings_Split (key_prefix r @ CHR '':'' # k) [CHR '':'']"
  by (simp add: expandKey_def RedisKeySep_def)

lemma truncate_expanded: "plain_prefix r \<Longrightarrow> truncateKey r (expandKey r k) = k"
  unfolding truncateKey_def split_expanded
  by (simp add: plain_prefix_def) (simp add: RedisKeySep_def strings_Join_Split)

lemma expanded_same:
  assumes "plain_prefix v" and "plain_prefix w" and "expandKey v k = expandKey w l"
  shows "key_prefix v = key_prefix w"
proof -
  have "hd (strings_Split (expandKey v k) RedisKeySep) = hd (strings_Split (expandKey w l) RedisKeySep)"
    by (simp add: assms(3))
  then show ?thesis using assms(1,2) by (simp add: split_expanded plain_prefix_def)
qed

interpretation view_keys: key_space expandKey truncateKey plain_prefix "\<lambda>v w. key_prefix v = key_prefix w"
  by unfold_locales (auto simp: truncate_expanded dest: expanded_same)

lemma truncate_compound: "\<not> plain_prefix r \<Longrightarrow> truncateKey r (expandKey r k) \<noteq> k"
proof -
  assume "\<not> plain_prefix r"
  then obtain a b where p: "key_prefix r = a @ CHR '':'' # b" and a: "CHR '':'' \<notin> set a"
    by (auto simp: plain_prefix_def dest: split_list_first)
  have "strings_Split (key_prefix r @ CHR '':'' # k) [CHR '':''] = a # strings_Split (b @ CHR '':'' # k) [CHR '':'']"
    using a by (simp add: p)
  then have "truncateKey r (expandKey r k) = b @ CHR '':'' # k"
    unfolding truncateKey_def split_expanded by (simp add: RedisKeySep_def strings_Join_Split)
  moreover have "length (b @ CHR '':'' # k) \<noteq> length k" by simp
  ultimately show ?thesis by (metis (no_types))
qed

text \<open>
  \<^verbatim>\<open>truncateKey\<close> takes back what \<^verbatim>\<open>expandKey\<close> adds for every key exactly when the prefix of
  the view has no colon; with a compound prefix such as \<^verbatim>\<open>app:cache\<close> it never does.
\<close>

theorem truncate_expand_iff:
  "truncateKey r (expandKey r k) = k \<longleftrightarrow> CHR '':'' \<notin> set (key_prefix r)"
  using view_keys.truncate_expand [of r k] truncate_compound [of r k] by (auto simp: plain_prefix_def)

lemma foreign_not_named:
  fixes r r' :: "'db redisView"
  assumes "plain_prefix r" and "plain_prefix r'" and "key_prefix r \<noteq> key_prefix r'" and "in_space r q"
  shows "expandKey r' k \<notin> set (req_keys q)"
proof
  assume "expandKey r' k \<in> set (req_keys q)"
  with assms(4) obtain l where "expandKey r' k = expandKey r l"
    by (auto simp: in_space_def list_all_iff expandKey_def elim!: prefixE)
  with view_keys.foreign_key [OF assms(1,2,3), of l k] show False by simp
qed

text \<open>
  C10. Isolation of views. On a server whose commands change only the keys they name, no sequence
  of calls on a view changes any key of a view with another prefix (both prefixes without a
  colon). The calls are all methods except the ones that pass a caller's key on unchanged.
\<close>

theorem view_isolation:
  fixes r r' :: "'db redisView"
  assumes "each_cmd (cmd r) (\<lambda>q s t. \<forall>k. k \<notin> set (req_keys q) \<longrightarrow> look t k = look s k)"
    and "CHR '':'' \<notin> set (key_prefix r)" and "CHR '':'' \<notin> set (key_prefix r')"
    and "key_prefix r \<noteq> key_prefix r'"
    and "(view_step r)\<^sup>*\<^sup>* s t"
  shows "look t (expandKey r' k) = look s (expandKey r' k)"
proof -
  let ?P = "\<lambda>u. look u (expandKey r' k) = look s (expandKey r' k)"
  have "expandKey r' k \<notin> set (req_keys q)" if "in_space r q" for q
    using that assms(2-4) foreign_not_named by (auto simp: plain_prefix_def)
  then have "keeps r ?P"
    using assms(1) by (simp add: keeps_def each_cmd_def)
  from view_run_keeps [OF assms(5) this] show ?thesis by simp
qed

text \<open>A client of a small key-value server, with which the hypotheses on the server are shown to hold.\<close>

definition kv_int :: "request \<Rightarrow> (string \<Rightarrow> string option) \<Rightarrow> (int \<times> rerr option) \<times> (string \<Rightarrow> string option)" where
  "kv_int q s = (if req_name q = ''DEL'' then ((int (length (req_keys q)), None), s |` (- set (req_keys q)))
                 else ((0, None), s))"

definition kv_string :: "request \<Rightarrow> (string \<Rightarrow> string option) \<Rightarrow> (string \<times> rerr option) \<times> (string \<Rightarrow> string option)" where
  "kv_string q s =
     (case (req_keys q, req_args q) of
        ([k], [ABytes v, ADur d]) \<Rightarrow> ((''OK'', None), s(k \<mapsto> v))
      | ([k], []) \<Rightarrow> (case s k of None \<Rightarrow> (([], Some (ErrClient ''redis: nil'')), s) | Some v \<Rightarrow> ((v, None), s))
      | _ \<Rightarrow> (([], None), s))"

definition kv_bool :: "request \<Rightarrow> (string \<Rightarrow> string option) \<Rightarrow> (bool \<times> rerr option) \<times> (string \<Rightarrow> string option)" where
  "kv_bool q s =
     (case (req_keys q, req_args q) of
        ([k], [ABytes v, ADur d]) \<Rightarrow> (if s k = None then ((True, None), s(k \<mapsto> v)) else ((False, None), s))
      | _ \<Rightarrow> ((False, None), s))"

definition kv_client :: "(string \<Rightarrow> string option) RedisCmd" where
  "kv_client = \<lparr>intCmd = kv_int, boolCmd = kv_bool, stringCmd = kv_string,
     stringsCmd = (\<lambda>q s. (([''a''], None), s)), scanCmd = (\<lambda>q s. ((([], 0), None), s)),
     mapCmd = (\<lambda>q s. ((s, None), s)), ifacesCmd = (\<lambda>q s. (([IStr ''v''], None), s)),
     zsCmd = (\<lambda>q s. (([(1, IStr ''a'')], None), s)), floatCmd = (\<lambda>q s. ((0, None), s)),
     geosCmd = (\<lambda>q s. (([], None), s)), posCmd = (\<lambda>q s. (([], None), s)), subscribeCap = None, psubscribeCap = None\<rparr>"


lemma kv_frame: "each_cmd kv_client (\<lambda>q s t. \<forall>k. k \<notin> set (req_keys q) \<longrightarrow> t k = s k)"
  by (auto simp: each_cmd_def kv_client_def kv_int_def kv_string_def kv_bool_def restrict_map_def
      split: list.splits arg.splits option.splits)

theorem view_isolation_witness:
  "let a = NewRedisView kv_client ''users''; b = NewRedisView kv_client ''orders'';
       s = [''orders:1'' \<mapsto> ''x''];
       t = snd (Set a (\<lambda>f u sc. 0) ''1'' ''y'' ''10s'' s)
   in t (expandKey b ''1'') = s (expandKey b ''1'') \<and> s (expandKey b ''1'') = Some ''x''"
proof -
  let ?a = "NewRedisView kv_client ''users''" and ?b = "NewRedisView kv_client ''orders''"
  let ?s = "[''orders:1'' \<mapsto> ''x'']"
  let ?t = "snd (Set ?a (\<lambda>f u sc. 0) ''1'' ''y'' ''10s'' ?s)"
  have "(view_step ?a)\<^sup>*\<^sup>* ?s ?t" by (blast intro: step_Set)
  then have "?t (expandKey ?b ''1'') = ?s (expandKey ?b ''1'')"
    using view_isolation [of ?a "\<lambda>u. u" ?b ?s ?t "''1''"] kv_frame by (simp add: NewRedisView_def)
  then show ?thesis by (simp add: Let_def expandKey_def NewRedisView_def RedisKeySep_def)
qed

text \<open>
  The remaining methods miss the view's own keys. A set or sorted-set merge stores its result
  under the caller's destination without the prefix, and \<^verbatim>\<open>ZIncrNX\<close> increments the key without
  the prefix: on a server whose commands change only the keys they name, the key of the view
  that the caller means is left as it was, so what was merged or added cannot be read back
  through the view.
\<close>

theorem merge_not_in_view:
  assumes "each_cmd (cmd r) (\<lambda>q s t. \<forall>k. k \<notin> set (req_keys q) \<longrightarrow> look t k = look s k)"
    and "d \<notin> set ks" and "expandKey r d \<notin> set ks"
    and "op \<in> {\<lambda>s. snd (SDiffMerge r d ks s), \<lambda>s. snd (SInterMerge r d ks s), \<lambda>s. snd (SUnionMerge r d ks s),
               \<lambda>s. snd (ZInterMerge r d ks ws agg s), \<lambda>s. snd (ZUnionMerge r d ks ws agg s)}
             \<union> {\<lambda>s. snd (ZIncrNX r d m s)}"
  shows "look (op s) (expandKey r d) = look s (expandKey r d)"
proof -
  have "expandKey r d \<noteq> d" and "expandKey r d \<notin> set (map (expandKey r) ks)"
    using assms(2) by (auto simp: expandKey_def RedisKeySep_def)
  then show ?thesis
    using assms(1,3,4)
    by (auto simp: each_cmd_def SDiffMerge_def SInterMerge_def SUnionMerge_def ZInterMerge_def
        ZUnionMerge_def ZIncrNX_def)
qed

theorem merge_not_in_view_witness:
  "let r = NewRedisView kv_client ''app''; s = [''app:all'' \<mapsto> ''old'']
   in snd (SUnionMerge r ''all'' [''a'', ''b''] s) (expandKey r ''all'') = Some ''old''"
  using merge_not_in_view [of "NewRedisView kv_client ''app''" "\<lambda>u. u" "''all''" "[''a'', ''b'']"
      "\<lambda>s. snd (SUnionMerge (NewRedisView kv_client ''app'') ''all'' [''a'', ''b''] s)" "[]" "[]"
      "\<lparr>Score = 0, Member = []\<rparr>" "[''app:all'' \<mapsto> ''old'']"] kv_frame
  by (simp add: NewRedisView_def expandKey_def RedisKeySep_def)

lemma z_members_strings:
  "list_all (\<lambda>(sc, x). \<exists>t. x = IStr t) zs \<Longrightarrow> z_members zs = (if zs = [] then Returns [] else Panics ())"
  by (cases zs rule: z_members.cases) auto

lemma toRangeZMembers_strings:
  "list_all (\<lambda>(sc, x). \<exists>t. x = IStr t) zs \<Longrightarrow>
   (case toRangeZMembers err ms zs of Panics _ \<Rightarrow> True | Returns (out, e) \<Rightarrow> list_all (\<lambda>m. Score m = 0) out)"
  by (auto simp: toRangeZMembers_def z_members_strings Let_def list_all_iff split: option.split)

text \<open>
  Scores are never returned. The client delivers the members of a sorted set as strings; with
  that, \<^verbatim>\<open>ZRange\<close> and \<^verbatim>\<open>ZRangeByScore\<close> called with scores either panic (a failed type
  assertion) or return members whose score is 0, and in ascending order they return no member
  at all.
\<close>

theorem zrange_scores_lost:
  assumes "\<forall>q s. list_all (\<lambda>(sc, x). \<exists>t. x = IStr t) (fst (fst (zsCmd (cmd r) q s)))"
  shows "(case fst (ZRange r key start stop reverse True s) of
            Panics _ \<Rightarrow> True | Returns (ms, e) \<Rightarrow> list_all (\<lambda>m. Score m = 0) ms)
    \<and> (case fst (ZRangeByScore r key rangeBy reverse True s) of
            Panics _ \<Rightarrow> True | Returns (ms, e) \<Rightarrow> list_all (\<lambda>m. Score m = 0) ms)
    \<and> (\<exists>e. fst (ZRange r key start stop False True s) = Returns ([], e))
    \<and> (\<exists>e. fst (ZRangeByScore r key rangeBy False True s) = Returns ([], e))"
proof -
  have str: "list_all (\<lambda>(sc, x). \<exists>t. x = IStr t) zs"
    if "zsCmd (cmd r) q u = ((zs, e), u')" for q u zs e u'
    using assms by (metis fst_conv that)
  have none: "\<exists>e. toRangeZMembers err [] zs = Returns ([], e)" for err zs
    by (auto simp: toRangeZMembers_def Let_def split: option.split)
  show ?thesis
    by (intro conjI; simp add: ZRange_def ZRangeByScore_def Let_def set_members_def set_zSlice_def none
        split: prod.split) (auto intro!: toRangeZMembers_strings intro: str)
qed

theorem zrange_scores_lost_witness:
  "\<exists>e. fst (ZRange (NewRedisView kv_client ''app'') ''board'' 0 10 False True Map.empty) = Returns ([], e)"
  using zrange_scores_lost [of "NewRedisView kv_client ''app''"]
  by (simp add: NewRedisView_def kv_client_def)

text \<open>
  \<^verbatim>\<open>HMGet\<close> cannot return a field. The client delivers each field as a string or as nil; with
  that every call that asks for a field and is answered panics in the type assertion to
  \<^verbatim>\<open>[]byte\<close>.
\<close>

theorem hmget_panics:
  assumes "ifacesCmd (cmd r) (Req ''HMGET'' [expandKey r key] (map AStr fs)) s = ((reply, None), t)"
    and "length reply = length fs" and "fs \<noteq> []"
    and "list_all (\<lambda>x. x = INil \<or> (\<exists>u. x = IStr u)) reply"
  shows "HMGet r key fs s = (Panics (), t)"
proof -
  obtain x xs where "reply = x # xs" using assms(2,3) by (cases reply) auto
  with assms(4) have "assert_bytes reply = Panics ()" by auto
  with assms(1) show ?thesis by (simp add: HMGet_def)
qed

theorem hmget_panics_witness:
  "HMGet (NewRedisView kv_client ''app'') ''user'' [''name''] Map.empty = (Panics (), Map.empty)"
  using hmget_panics [of "NewRedisView kv_client ''app''" "''user''" "[''name'']" Map.empty "[IStr ''v'']" Map.empty]
  by (simp add: NewRedisView_def kv_client_def)

text \<open>
  The temporary key of \<^verbatim>\<open>GeoCalculateDistance\<close> does not survive the call, on success and on
  every error, when the server's \<^verbatim>\<open>DEL\<close> deletes; and the call touches no other key of the view's
  server when the server's commands change only the keys they name.
\<close>

theorem geo_temporary_key:
  assumes "each_cmd (cmd r) (\<lambda>q s t. \<forall>k. k \<notin> set (req_keys q) \<longrightarrow> look t k = look s k)"
    and "\<forall>ks s. \<forall>k \<in> set ks. look (snd (intCmd (cmd r) (Req ''DEL'' ks []) s)) k = None"
  shows "look (snd (GeoCalculateDistance r fresh key l1 l2 s)) k =
           (if k = expandKey r (key @ '':'' @ fresh) then None else look s k)"
proof -
  let ?key = "key @ '':'' @ fresh"
  have frame: "look (snd (GeoAdd r ?key ls u)) k = look u k" "look (snd (GeoDist r ?key a b c u)) k = look u k"
    "look (snd (Del r [?key] u)) k = look u k" if "k \<noteq> expandKey r ?key" for u ls a b c
    using assms(1) that by (simp_all add: each_cmd_def GeoAdd_def GeoDist_def Del_def)
  have body: "look (snd (GeoCalculate_body r ?key l1 l2 s)) k = look s k" if "k \<noteq> expandKey r ?key"
    using frame [OF that]
    by (auto simp: GeoCalculate_body_def split: prod.splits option.splits) (metis snd_conv)+
  have del: "look (snd (Del r [?key] u)) (expandKey r ?key) = None" for u
    using assms(2) by (simp add: Del_def)
  show ?thesis
    using body frame(3) del by (simp add: GeoCalculateDistance_def Let_def case_prod_unfold)
qed

theorem geo_temporary_key_witness:
  "snd (GeoCalculateDistance (NewRedisView kv_client ''app'') ''u1'' ''tmp'' \<lparr>Longitude = 0, Latitude = 0\<rparr>
       \<lparr>Longitude = 1, Latitude = 1\<rparr> [''app:x'' \<mapsto> ''1'']) ''app:x'' = Some ''1''"
  using geo_temporary_key [of "NewRedisView kv_client ''app''" "\<lambda>u. u" "''u1''" "''tmp''"
      "\<lparr>Longitude = 0, Latitude = 0\<rparr>" "\<lparr>Longitude = 1, Latitude = 1\<rparr>" "[''app:x'' \<mapsto> ''1'']" "''app:x''"] kv_frame
  by (simp add: NewRedisView_def kv_client_def kv_int_def expandKey_def RedisKeySep_def)

text \<open>
  \<^verbatim>\<open>Init\<close> with \<^verbatim>\<open>UseCluster\<close> still returns and installs the single-node client of the first
  address: the cluster client is overwritten.
\<close>

lemma Init_cluster_overwritten:
  assumes "parse conf = Inr c" and "Addrs c \<noteq> []" and "UseCluster c"
  shows "\<exists>opts. oAddr opts = hd (Addrs c) \<and>
    Init parse NewClusterClient NewClient conf con = (Returns (Some (NewClient opts), None), Some (NewClient opts))"
  using assms
  by (intro exI [of _ "\<lparr>oAddr = hd (Addrs c), oPassword = Password c, oDB = DbIndex c,
      oTimeouts = [DialTimeout c, ReadTimeout c, WriteTimeout c, PoolTimeout c], oPoolSize = PoolSize c,
      oTLSConfig = TLSConfig c\<rparr>"])
    (simp add: Init_def Let_def)

text \<open>\<^verbatim>\<open>LInsert\<close> never sends one of the two words the server accepts as the position.\<close>

lemma InsertOP_string_unknown: "InsertOP_string op \<notin> {''BEFORE'', ''AFTER'', ''before'', ''after''}"
  by (cases op) (simp_all add: InsertOP_string_def)

end
