(* ===== verification/Redis_Notification.thy ===== *)
theory Redis_Notification
  imports Redis_View
begin

text \<open>
  \<^verbatim>\<open>libs/redis/redis_notification.go\<close>: delayed retries over expiring Redis keys. A payload is
  stored as a key \<^verbatim>\<open>retry-<key>:<value>||<count>\<close> with the expiry of the retry policy number
  \<^verbatim>\<open>count\<close>; its expiry is announced on a keyspace channel, decoded, and handed to a handler that
  decides whether to try again.

  The cache is the \<^verbatim>\<open>RedisCli\<close> of theory \<^verbatim>\<open>Redis_View\<close>. The number of the running goroutine
  (\<open>getRoutineID\<close>) is passed as \<open>gid\<close>. One round of the endless receive loop is \<open>on_message\<close>; a failed receive
  changes nothing and is not an event. The counter is an \<^verbatim>\<open>int64\<close> in the source; it is parsed
  as a 32-bit number and incremented once, so it does not overflow.
\<close>

definition retryKeyPrefix :: string where "retryKeyPrefix = ''retry''"

definition DefaultRetryPolicies :: "int list" where
  "DefaultRetryPolicies = (let Minute = 60 * 10 ^ 9
     in [Minute * 1, Minute * 5, Minute * 10, Minute * 30, Minute * 60, Minute * 120])"

record 'db Payload =
  count :: int
  Value :: string
  pcache :: "'db redisView option"

record 'db notification =
  nkey :: string
  node :: string
  cache :: "'db redisView"
  policies :: "int list"

text \<open>A nil cache and a nil policy list are \<open>None\<close>; the result \<open>None\<close> is the nil interface.\<close>

definition NewNotification ::
  "string \<Rightarrow> string \<Rightarrow> 'db redisView option \<Rightarrow> int list option \<Rightarrow> 'db notification option" where
  "NewNotification nd key c pol =
     (case c of None \<Rightarrow> None
      | Some cc \<Rightarrow>
          if nd = [] \<or> key = [] then None
          else Some \<lparr>nkey = key, node = nd, cache = cc,
                 policies = (case pol of None \<Rightarrow> DefaultRetryPolicies | Some ps \<Rightarrow> ps)\<rparr>)"

definition encodePayload :: "'db Payload \<Rightarrow> string" where
  "encodePayload p = Value p @ ''||'' @ Sprint_d (count p)"

definition Payload_String :: "'db Payload \<Rightarrow> string" where
  "Payload_String p = encodePayload p"

definition decodePayload :: "string \<Rightarrow> 'db Payload option" where
  "decodePayload s =
     (let ss = strings_Split s '':''
      in if length ss < 2 then None
         else let ss1 = drop 1 ss;
                  retryS = ss1 ! (length ss1 - 1);
                  rss = strings_Split retryS ''||''
              in if length rss < 2 then None
                 else Some \<lparr>count = fst (ParseInt 32 (rss ! 1)), Value = rss ! 0, pcache = None\<rparr>)"

definition retry_key :: "'db notification \<Rightarrow> string \<Rightarrow> string" where
  "retry_key n t = retryKeyPrefix @ ''-'' @ nkey n @ '':'' @ t"

text \<open>The index into the policies panics outside its range; the store's error is ignored.\<close>

definition PutNotification ::
  "(nat \<Rightarrow> nat \<Rightarrow> nat \<Rightarrow> nat) \<Rightarrow> 'db notification \<Rightarrow> 'db Payload \<Rightarrow> 'db \<Rightarrow> (unit, unit) outcome \<times> 'db" where
  "PutNotification frac n p s =
     (let setKey = retry_key n (Payload_String p)
      in if count p < 0 \<or> int (length (policies n)) \<le> count p then (Panics (), s)
         else case Set (cache n) frac setKey [CHR 0x01] (Duration_String (policies n ! nat (count p))) s of
                (_, s') \<Rightarrow> (Returns (), s'))"

text \<open>
  The number of the running goroutine, read from the first 64 bytes of the text \<^verbatim>\<open>runtime.Stack\<close> writes.
  A text without a blank makes the slice expression panic; the error of the parser is dropped.
\<close>

definition bytes_TrimPrefix :: "string \<Rightarrow> string \<Rightarrow> string" where
  "bytes_TrimPrefix s p = (if take (length p) s = p then drop (length p) s else s)"

definition getRoutineID :: "string \<Rightarrow> (unit, nat) outcome" where
  "getRoutineID stack =
     (let b = bytes_TrimPrefix (take 64 stack) ''goroutine ''
      in if CHR '' '' \<notin> set b then Panics ()
         else Returns (fst (ParseUint 64 (takeWhile (\<lambda>c. c \<noteq> CHR '' '') b))))"

definition lock_value :: "'db notification \<Rightarrow> nat \<Rightarrow> string" where
  "lock_value n gid = node n @ ''-'' @ nat_digits gid"

definition lock ::
  "(nat \<Rightarrow> nat \<Rightarrow> nat \<Rightarrow> nat) \<Rightarrow> nat \<Rightarrow> 'db notification \<Rightarrow> 'db Payload \<Rightarrow> 'db \<Rightarrow> bool \<times> 'db" where
  "lock frac gid n p s =
     (let setKey = retry_key n (Value p); v = lock_value n gid
      in case SetNX (cache n) frac setKey v ''0'' s of
           ((ret, _), s1) \<Rightarrow>
             if ret then (ret, s1)
             else case Get (cache n) setKey s1 of ((rval, _), s2) \<Rightarrow> (v = rval, s2))"

definition unlock :: "'db notification \<Rightarrow> 'db Payload \<Rightarrow> 'db \<Rightarrow> (unit, unit) outcome \<times> 'db" where
  "unlock n p s =
     (case pcache p of
        None \<Rightarrow> (Panics (), s)
      | Some c \<Rightarrow> (Returns (), snd (Del c [retry_key n (Value p)] s)))"

text \<open>The pattern \<^verbatim>\<open>Subscribe\<close> asks for, and the start of the receiving goroutine.\<close>

definition subscribe_space :: "'db notification \<Rightarrow> string" where
  "subscribe_space n = ''__key*__:'' @ KeyPrefix (cache n) @ '':'' @ (retryKeyPrefix @ ''-'' @ nkey n) @ ''*''"

definition Notification_Subscribe :: "'db notification \<Rightarrow> 'db \<Rightarrow> (rerr + nat) \<times> 'db" where
  "Notification_Subscribe n s = PSubscribe (cache n) [subscribe_space n] s"

record message =
  Channel :: string
  MsgPayload :: string

datatype 'db round = Ignored | Dropped | Retried "'db Payload" | Finished "'db Payload"

text \<open>
  One received message. The handler sees the payload through a pointer and may change its exported
  field \<^verbatim>\<open>Value\<close>: it returns its decision and the value it leaves there. \<open>Retried p\<close> and
  \<open>Finished p\<close> say which branch was taken after the handler.
\<close>

definition on_message ::
  "(nat \<Rightarrow> nat \<Rightarrow> nat \<Rightarrow> nat) \<Rightarrow> nat \<Rightarrow> 'db notification \<Rightarrow>
   ('db Payload \<Rightarrow> 'db \<Rightarrow> (bool \<times> string) \<times> 'db) \<Rightarrow> message \<Rightarrow> 'db \<Rightarrow> (unit, 'db round) outcome \<times> 'db" where
  "on_message frac gid n h m s =
     (if MsgPayload m \<noteq> ''expired'' then (Returns Ignored, s)
      else case decodePayload (Channel m) of
        None \<Rightarrow> (Returns Ignored, s)
      | Some p0 \<Rightarrow>
          (let p = p0\<lparr>count := count p0 + 1, pcache := Some (cache n)\<rparr>
           in case lock frac gid n p s of
                (False, s1) \<Rightarrow> (Returns Dropped, s1)
              | (True, s1) \<Rightarrow>
                  (case h p s1 of ((putNext, v), s2) \<Rightarrow>
                     (let p' = p\<lparr>Value := v\<rparr>
                      in if putNext \<and> count p' < int (length (policies n)) then
                           (case PutNotification frac n p' s2 of
                              (Panics x, s3) \<Rightarrow> (Panics x, s3)
                            | (Returns _, s3) \<Rightarrow> (Returns (Retried p'), s3))
                         else
                           (case unlock n p' s2 of
                              (Panics x, s3) \<Rightarrow> (Panics x, s3)
                            | (Returns _, s3) \<Rightarrow> (Returns (Finished p'), s3))))))"

section \<open>The payload codec\<close>

definition plain_value :: "string \<Rightarrow> bool" where
  "plain_value v \<longleftrightarrow> CHR '':'' \<notin> set v \<and> \<not> sublist ''||'' (v @ ''|'')"

lemma split_encoded:
  assumes "\<not> sublist ''||'' (v @ ''|'')"
  shows "strings_Split (v @ ''||'' @ Sprint_d i) ''||'' = [v, Sprint_d i]"
proof -
  have "\<not> sublist ''||'' (Sprint_d i)"
    using sublist_imp_subseq set_mono_sublist [of "''||''" "Sprint_d i"] by auto
  then show ?thesis
    using assms strings_Split_first [of "''||''" v "Sprint_d i"]
    by (simp add: strings_Split_none)
qed

lemma decode_tail:
  assumes "plain_value v" and "- (2 ^ 31) \<le> i" and "i < 2 ^ 31"
  shows "decodePayload (a @ '':'' @ v @ ''||'' @ Sprint_d i) = Some \<lparr>count = i, Value = v, pcache = None\<rparr>"
proof -
  have ne: "strings_Split a '':'' \<noteq> []" by simp
  have enc: "CHR '':'' \<notin> set (v @ ''||'' @ Sprint_d i)"
    using assms(1) by (simp add: plain_value_def)
  have ss: "strings_Split (a @ '':'' @ v @ ''||'' @ Sprint_d i) '':'' =
      strings_Split a '':'' @ [v @ ''||'' @ Sprint_d i]"
    using strings_Split_char_app [of a "CHR '':''" "v @ ''||'' @ Sprint_d i"] enc
    by simp
  have "ParseInt 32 (Sprint_d i) = (i, False)"
    using assms(2,3) by (intro ParseInt_Sprint_d) auto
  moreover have "\<not> sublist ''||'' (v @ ''|'')" using assms(1) by (simp add: plain_value_def)
  ultimately show ?thesis
    using ne unfolding decodePayload_def ss
    by (cases "strings_Split a '':''") (simp_all add: Let_def split_encoded [simplified])
qed

text \<open>
  The channel on which the server announces the expiry of the key of a payload (database \<open>db\<close>).
\<close>

definition expiry_message :: "string \<Rightarrow> 'db notification \<Rightarrow> 'db Payload \<Rightarrow> message" where
  "expiry_message db n p =
     \<lparr>Channel = ''__keyspace@'' @ db @ ''__:'' @ expandKey (cache n) (retry_key n (encodePayload p)),
      MsgPayload = ''expired''\<rparr>"

lemma expiry_channel:
  "Channel (expiry_message db n p) =
     (''__keyspace@'' @ db @ ''__:'' @ key_prefix (cache n) @ '':'' @ retryKeyPrefix @ ''-'' @ nkey n) @ '':''
       @ Value p @ ''||'' @ Sprint_d (count p)"
  by (simp add: expiry_message_def expandKey_def RedisKeySep_def retry_key_def encodePayload_def)

lemma decode_expiry:
  "plain_value (Value p) \<Longrightarrow> - (2 ^ 31) \<le> count p \<Longrightarrow> count p < 2 ^ 31 \<Longrightarrow>
   decodePayload (Channel (expiry_message db n p)) = Some \<lparr>count = count p, Value = Value p, pcache = None\<rparr>"
  unfolding expiry_channel by (rule decode_tail)

text \<open>
  C29. Payload round trip. The message that announces the expiry of the key written for a payload
  is decoded to the same value and the same counter, for every prefix, notification key and
  database name, when the value has no colon, no \<^verbatim>\<open>||\<close> and does not end in \<^verbatim>\<open>|\<close> and the counter
  fits 32 bits.
\<close>

theorem payload_roundtrip:
  assumes "CHR '':'' \<notin> set (Value p)" and "\<not> sublist ''||'' (Value p @ ''|'')"
    and "- (2 ^ 31) \<le> count p" and "count p < 2 ^ 31"
  shows "decodePayload (Channel (expiry_message db n p)) = Some \<lparr>count = count p, Value = Value p, pcache = None\<rparr>"
  using assms by (simp add: decode_expiry plain_value_def)

theorem payload_roundtrip_witness:
  "let n = \<lparr>nkey = ''orders'', node = ''n1'', cache = NewRedisView kv_client ''app:v1'', policies = [1]\<rparr>
   in decodePayload (Channel (expiry_message ''0'' n \<lparr>count = 2, Value = ''o-17'', pcache = None\<rparr>)) =
        Some \<lparr>count = 2, Value = ''o-17'', pcache = None :: (string \<Rightarrow> string option) redisView option\<rparr>"
  using payload_roundtrip [of "\<lparr>count = 2, Value = ''o-17'', pcache = None\<rparr>" "''0''"
      "\<lparr>nkey = ''orders'', node = ''n1'', cache = NewRedisView kv_client ''app:v1'', policies = [1]\<rparr>"]
  by (simp add: sublist_Cons_right)

text \<open>
  A value with a colon does not survive: only the part after its last colon is handed to the
  handler, with the counter unchanged.
\<close>

theorem payload_colon_truncated:
  assumes "CHR '':'' \<notin> set b" and "\<not> sublist ''||'' (b @ ''|'')" and "- (2 ^ 31) \<le> c" and "c < 2 ^ 31"
  shows "decodePayload (Channel (expiry_message db n \<lparr>count = c, Value = a @ '':'' @ b, pcache = None\<rparr>)) =
           Some \<lparr>count = c, Value = b, pcache = None\<rparr>"
proof -
  let ?p = "\<lparr>count = c, Value = a @ '':'' @ b, pcache = None\<rparr>"
  have "Channel (expiry_message db n ?p) =
     (''__keyspace@'' @ db @ ''__:'' @ key_prefix (cache n) @ '':'' @ retryKeyPrefix @ ''-'' @ nkey n @ '':'' @ a)
       @ '':'' @ b @ ''||'' @ Sprint_d c"
    by (simp add: expiry_channel)
  moreover have "plain_value b" using assms(1,2) by (simp add: plain_value_def)
  ultimately show ?thesis using assms(3,4) by (simp only: decode_tail)
qed

theorem payload_colon_truncated_witness:
  "let n = \<lparr>nkey = ''orders'', node = ''n1'', cache = NewRedisView kv_client ''app'', policies = [1]\<rparr>
   in decodePayload (Channel (expiry_message ''0'' n \<lparr>count = 0, Value = ''user:17'', pcache = None\<rparr>)) =
        Some \<lparr>count = 0, Value = ''17'', pcache = None :: (string \<Rightarrow> string option) redisView option\<rparr>"
  using payload_colon_truncated [of "''17''" 0 "''0''"
      "\<lparr>nkey = ''orders'', node = ''n1'', cache = NewRedisView kv_client ''app'', policies = [1]\<rparr>" "''user''"]
  by (simp add: sublist_Cons_right)

section \<open>Retries\<close>

lemma PutNotification_in_range:
  "0 \<le> count p \<Longrightarrow> count p < int (length (policies n)) \<Longrightarrow> fst (PutNotification frac n p s) = Returns ()"
  by (simp add: PutNotification_def Let_def case_prod_unfold)

text \<open>
  A policy of whole seconds, as all default policies are, becomes exactly the expiry of the key:
  \<^verbatim>\<open>PutNotification\<close> issues one \<^verbatim>\<open>SET\<close> of the payload's key with policy number \<^verbatim>\<open>count\<close> as its
  time to live (the policy goes through its text and back).
\<close>

theorem put_uses_policy:
  assumes "0 \<le> count p" and "count p < int (length (policies n))"
    and "policies n ! nat (count p) = int k * 1000000000" and "0 < k" and "k * 1000000000 < 2 ^ 63"
  shows "PutNotification frac n p s =
    (Returns (), snd (stringCmd (cmd (cache n))
       (Req ''SET'' [key_prefix (cache n) @ '':retry-'' @ nkey n @ '':'' @ Value p @ ''||'' @ Sprint_d (count p)]
         [ABytes [CHR 0x01], ADur (policies n ! nat (count p))]) s))"
proof -
  have ne: "Duration_String (int k * 1000000000) \<noteq> []"
    using hd_Duration_String [OF assms(4)] by auto
  show ?thesis
    using assms(1-3) ne ParseDuration_String [OF assms(4,5), of frac]
    by (simp add: PutNotification_def Set_def Let_def case_prod_unfold retry_key_def Payload_String_def
        encodePayload_def expandKey_def RedisKeySep_def retryKeyPrefix_def)
qed

theorem put_uses_policy_witness:
  "let n = \<lparr>nkey = ''orders'', node = ''n1'', cache = NewRedisView kv_client ''app'', policies = DefaultRetryPolicies\<rparr>
   in snd (PutNotification (\<lambda>f u sc. 0) n \<lparr>count = 1, Value = ''o1'', pcache = None\<rparr> Map.empty) =
     snd (kv_string (Req ''SET'' [''app:retry-orders:o1||'' @ Sprint_d 1] [ABytes [CHR 0x01], ADur 300000000000]) Map.empty)"
  using put_uses_policy [of "\<lparr>count = 1, Value = ''o1'', pcache = None\<rparr>"
      "\<lparr>nkey = ''orders'', node = ''n1'', cache = NewRedisView kv_client ''app'', policies = DefaultRetryPolicies\<rparr>" 300
      "\<lambda>f u sc. 0" Map.empty]
  by (simp add: Let_def DefaultRetryPolicies_def NewRedisView_def kv_client_def)

text \<open>
  A retry chain: a payload was put; each round the environment changes the server's state and the
  expiry of the key that was put last is announced. The result is the counters the handler is
  called with, in order, and whether the goroutine panicked.
\<close>

fun retry_run ::
  "(nat \<Rightarrow> nat \<Rightarrow> nat \<Rightarrow> nat) \<Rightarrow> nat \<Rightarrow> 'db notification \<Rightarrow> ('db Payload \<Rightarrow> 'db \<Rightarrow> (bool \<times> string) \<times> 'db) \<Rightarrow>
   string \<Rightarrow> ('db \<Rightarrow> 'db) list \<Rightarrow> 'db Payload \<Rightarrow> 'db \<Rightarrow> int list \<times> bool" where
  "retry_run frac gid n h db [] p s = ([], False)"
| "retry_run frac gid n h db (env # es) p s =
     (case on_message frac gid n h (expiry_message db n p) (env s) of
        (Returns (Retried p'), s') \<Rightarrow> (let (cs, b) = retry_run frac gid n h db es p' s' in (count p' # cs, b))
      | (Returns (Finished p'), _) \<Rightarrow> ([count p'], False)
      | (Returns _, _) \<Rightarrow> ([], False)
      | (Panics _, _) \<Rightarrow> ([], True))"

text \<open>The round that the expiry of a payload's own key starts.\<close>

definition next_payload :: "'db notification \<Rightarrow> 'db Payload \<Rightarrow> 'db Payload" where
  "next_payload n p = \<lparr>count = count p + 1, Value = Value p, pcache = Some (cache n)\<rparr>"

lemma next_payload_simps [simp]:
  "count (next_payload n p) = count p + 1" "Value (next_payload n p) = Value p" "pcache (next_payload n p) = Some (cache n)"
  by (simp_all add: next_payload_def)

lemma on_message_expiry:
  assumes "plain_value (Value p)" and "0 \<le> count p" and "count p < 2 ^ 31"
    and "lock frac gid n (next_payload n p) s = (ok, s1)" and "h (next_payload n p) s1 = ((nxt, v), s2)"
  defines "p' \<equiv> (next_payload n p)\<lparr>Value := v\<rparr>"
  shows "on_message frac gid n h (expiry_message db n p) s =
    (if \<not> ok then (Returns Dropped, s1)
     else if nxt \<and> count p + 1 < int (length (policies n)) then (Returns (Retried p'), snd (PutNotification frac n p' s2))
     else (Returns (Finished p'), snd (Del (cache n) [retry_key n v] s2)))"
proof -
  have dec: "decodePayload (Channel (expiry_message db n p)) = Some \<lparr>count = count p, Value = Value p, pcache = None\<rparr>"
    using assms(1-3) by (intro decode_expiry) auto
  have "MsgPayload (expiry_message db n p) = ''expired''" by (simp add: expiry_message_def)
  moreover have "fst (PutNotification frac n p' s2) = Returns ()" if "count p + 1 < int (length (policies n))"
    using that assms(2) by (intro PutNotification_in_range) (simp_all add: p'_def)
  ultimately show ?thesis using assms(4,5)
    by (auto simp: on_message_def dec Let_def next_payload_def p'_def unlock_def split: prod.splits outcome.splits)
qed

lemma retry_run_shape:
  assumes h: "\<forall>p s. plain_value (Value p) \<longrightarrow> plain_value (snd (fst (h p s)))" and len: "length (policies n) < 2 ^ 31"
    and "plain_value (Value p)" and "count p = int c" and "c < length (policies n)"
  shows "\<exists>k. retry_run frac gid n h db es p s = (map int [Suc c ..< Suc c + k], False) \<and> c + k \<le> length (policies n)"
  using assms(3-)
proof (induction es arbitrary: p s c)
  case Nil
  then show ?case by (intro exI [of _ 0]) simp
next
  case (Cons env es)
  let ?q = "next_payload n p"
  obtain ok s1 where l: "lock frac gid n ?q (env s) = (ok, s1)" by fastforce
  obtain nxt v s2 where hh: "h ?q s1 = ((nxt, v), s2)" by (metis prod.collapse)
  have "plain_value v" using h [rule_format, of ?q s1] hh Cons.prems(1) by simp
  moreover have "0 \<le> count p" "count p < 2 ^ 31" using Cons.prems len by simp_all
  note om = on_message_expiry [where h = h, OF Cons.prems(1) this l hh, of db]
  show ?case
  proof (cases "ok \<and> nxt \<and> Suc c < length (policies n)")
    case True
    have "count (?q\<lparr>Value := v\<rparr>) = int (Suc c)" using Cons.prems(2) by simp
    from Cons.IH [OF _ this, of "snd (PutNotification frac n (?q\<lparr>Value := v\<rparr>) s2)"] calculation True obtain k where
      k: "retry_run frac gid n h db es (?q\<lparr>Value := v\<rparr>) (snd (PutNotification frac n (?q\<lparr>Value := v\<rparr>) s2)) =
           (map int [Suc (Suc c) ..< Suc (Suc c) + k], False)" "Suc c + k \<le> length (policies n)" by auto
    have "[Suc c ..< Suc c + Suc k] = Suc c # [Suc (Suc c) ..< Suc (Suc c) + k]"
      by (simp add: upt_conv_Cons del: upt_Suc)
    with k om True Cons.prems(2) show ?thesis by (intro exI [of _ "Suc k"]) (simp del: upt_Suc)
  next
    case False
    show ?thesis
    proof (cases ok)
      case ok: True
      then show ?thesis using om False Cons.prems by (intro exI [of _ 1]) auto
    next
      case no: False
      then show ?thesis using om Cons.prems(3) by (intro exI [of _ 0]) simp
    qed
  qed
qed

text \<open>
  C14. Retries are bounded and safe. A payload with a value that the codec carries (no colon, no
  \<^verbatim>\<open>||\<close>, no \<^verbatim>\<open>|\<close> at the end) and a counter in range was put. Then whatever the handler decides, whoever
  holds the lock and whatever happens on the server between the rounds, the handler is called for
  the messages of this chain with consecutive counters from the next one on, never with more than
  the number of policies, and the goroutine does not panic on them (in particular never indexes
  the policies out of range). The handler may change the value, but leaves one that the codec
  carries where it got one; it does not panic itself. Messages with counters that this code never
  wrote are not covered.
\<close>

theorem retry_bounded:
  assumes "\<forall>p s. plain_value (Value p) \<longrightarrow> plain_value (snd (fst (h p s)))" and "length (policies n) < 2 ^ 31"
    and "plain_value (Value p)" and "count p = int c" and "c < length (policies n)"
  shows "\<exists>k. retry_run frac gid n h db es p s = (map int [Suc c ..< Suc c + k], False) \<and> c + k \<le> length (policies n)"
  using assms by (rule retry_run_shape)

text \<open>The ordinary handler, which leaves the value alone.\<close>

theorem retry_bounded_witness:
  "\<exists>k. retry_run (\<lambda>f u sc. 0) 7
        \<lparr>nkey = ''orders'', node = ''n1'', cache = NewRedisView kv_client ''app'', policies = [10 ^ 9, 10 ^ 9]\<rparr>
        (\<lambda>p s. ((True, Value p), s)) ''0'' [id, id, id, id] \<lparr>count = int 0, Value = ''o1'', pcache = None\<rparr> Map.empty
      = (map int [Suc 0 ..< Suc 0 + k], False)
    \<and> 0 + k \<le> length (policies \<lparr>nkey = ''orders'', node = ''n1'', cache = NewRedisView kv_client ''app'',
               policies = [10 ^ 9, 10 ^ 9]\<rparr>)"
  by (rule retry_bounded) (simp_all add: plain_value_def sublist_Cons_right)

text \<open>
  A key that was not written by this code but matches the subscribed pattern can carry a negative
  counter; a retry of it panics.
\<close>

theorem negative_counter_panics:
  assumes "count p < 0" shows "fst (PutNotification frac n p s) = Panics ()"
  using assms by (simp add: PutNotification_def Let_def)

lemma ParseDuration_zero: "ParseDuration frac ''0'' = Some 0"
  by (simp add: ParseDuration_def)

lemma nat_digits_inj: "nat_digits a = nat_digits b \<Longrightarrow> a = b"
proof -
  assume e: "nat_digits a = nat_digits b"
  have "scan_uint (max a b) 0 (nat_digits a) = NumOk a" "scan_uint (max a b) 0 (nat_digits b) = NumOk b"
    by (intro scan_nat_digits, simp)+
  with e show ?thesis by (metis num_result.inject)
qed

lemma nat_digits_no_dash: "CHR ''-'' \<notin> set (nat_digits n)"
  by (auto dest!: nat_digits_are_digits simp: digit_val_def)

lemma lock_value_inj: "lock_value n gid = lock_value n' gid' \<longleftrightarrow> node n = node n' \<and> gid = gid'"
proof
  assume e: "lock_value n gid = lock_value n' gid'"
  have s: "strings_Split (lock_value m g) ''-'' = strings_Split (node m) ''-'' @ [nat_digits g]" for m :: "'a notification" and g
    using strings_Split_char_app [of "node m" "CHR ''-''" "nat_digits g"] nat_digits_no_dash [of g]
    by (simp add: lock_value_def)
  have s': "strings_Split (lock_value m g) ''-'' = strings_Split (node m) ''-'' @ [nat_digits g]" for m :: "'b notification" and g
    using strings_Split_char_app [of "node m" "CHR ''-''" "nat_digits g"] nat_digits_no_dash [of g]
    by (simp add: lock_value_def)
  have "nat_digits gid = nat_digits gid'" "strings_Split (node n) ''-'' = strings_Split (node n') ''-''"
    using e s [of n gid] s' [of n' gid'] by simp_all
  moreover have "strings_Join (strings_Split m ''-'') ''-'' = m" for m
    by (rule strings_Join_Split) simp
  ultimately show "node n = node n' \<and> gid = gid'"
    using nat_digits_inj by metis
qed (simp add: lock_value_def)

text \<open>
  What the lock relies on of the server: \<^verbatim>\<open>SETNX\<close> sets an absent key only, \<^verbatim>\<open>GET\<close> reads. An entry of
  the server need not be a text: \<open>str\<close> makes an entry of a text and \<open>as\<close> reads one.
\<close>

locale lock_server =
  fixes c :: "'db RedisCmd" and look :: "'db \<Rightarrow> string \<Rightarrow> 'v option" and str :: "string \<Rightarrow> 'v" and as :: "'v \<Rightarrow> string option"
  assumes as_str: "as (str x) = Some y \<longleftrightarrow> x = y"
    and setnx: "boolCmd c (Req ''SETNX'' [k] [ABytes v, ADur 0]) s = ((d, e), t) \<Longrightarrow>
      if look s k = None then d \<and> look t = (look s)(k \<mapsto> str v) else \<not> d \<and> look t = look s"
    and get: "stringCmd c (Req ''GET'' [k] []) s = ((v, e), t) \<Longrightarrow>
      look t = look s \<and> (case Option.bind (look s k) as of Some x \<Rightarrow> v = x \<and> e = None | None \<Rightarrow> e \<noteq> None)"
begin

lemma lock_spec:
  fixes n :: "'db notification" and p :: "'db Payload"
  assumes "cmd (cache n) = c"
  defines "k \<equiv> expandKey (cache n) (retry_key n (Value p))"
  shows "fst (lock frac gid n p s) \<longleftrightarrow> look s k = None \<or> Option.bind (look s k) as = Some (lock_value n gid)"
    and "look (snd (lock frac gid n p s)) = (if look s k = None then (look s)(k \<mapsto> str (lock_value n gid)) else look s)"
proof -
  let ?v = "lock_value n gid"
  obtain d e t where b: "boolCmd c (Req ''SETNX'' [k] [ABytes ?v, ADur 0]) s = ((d, e), t)"
    by (metis prod.collapse)
  obtain w f u where g: "stringCmd c (Req ''GET'' [k] []) t = ((w, f), u)"
    by (metis prod.collapse)
  note d = setnx [OF b] and w = get [OF g]
  have l: "lock frac gid n p s = (if d then (True, t) else (?v = (if f = None then w else []), u))"
    using b g by (auto simp: lock_def Let_def SetNX_def Get_def ParseDuration_zero on_ok_def k_def assms(1)
        split: option.splits)
  have "?v \<noteq> []" by (simp add: lock_value_def)
  with l d w show "fst (lock frac gid n p s) \<longleftrightarrow> look s k = None \<or> Option.bind (look s k) as = Some ?v"
    by (cases "look s k") (auto split: option.splits)
  from l d w show "look (snd (lock frac gid n p s)) = (if look s k = None then (look s)(k \<mapsto> str ?v) else look s)"
    by (cases "look s k") auto
qed

lemma lock_excludes:
  assumes "cmd (cache n) = c" and "cache n' = cache n" and "nkey n' = nkey n"
    and "Value p' = Value p" and "fst (lock frac gid n p s)"
  shows "(fst (lock frac gid' n' p' (snd (lock frac gid n p s))) \<longleftrightarrow> node n' = node n \<and> gid' = gid) \<and>
         look (snd (lock frac gid' n' p' (snd (lock frac gid n p s)))) = look (snd (lock frac gid n p s))"
proof -
  let ?t = "snd (lock frac gid n p s)" and ?k = "expandKey (cache n) (retry_key n (Value p))"
  have k: "expandKey (cache n') (retry_key n' (Value p')) = ?k"
    using assms(2-4) by (simp add: retry_key_def)
  have "look ?t ?k \<noteq> None \<and> Option.bind (look ?t ?k) as = Some (lock_value n gid)"
    using lock_spec [OF assms(1), of frac gid p s] assms(5) as_str by (cases "look s ?k") auto
  then show ?thesis
    using lock_spec [of n' frac gid' p' ?t] assms(1,2) k
    by (auto simp: lock_value_inj)
qed

end

text \<open>
  C18. The lock excludes. Once a goroutine of a node holds the lock of a value, an attempt on the
  same value succeeds exactly for the same goroutine of the same node, and changes nothing; for
  node names of any form, also ones with a dash.
\<close>

theorem lock_exclusive:
  assumes "lock_server (cmd (cache n)) look str as" and "cache n' = cache n" and "nkey n' = nkey n"
    and "Value p' = Value p" and "fst (lock frac gid n p s)"
  shows "(fst (lock frac gid' n' p' (snd (lock frac gid n p s))) \<longleftrightarrow> node n' = node n \<and> gid' = gid) \<and>
         look (snd (lock frac gid' n' p' (snd (lock frac gid n p s)))) = look (snd (lock frac gid n p s))"
  by (rule lock_server.lock_excludes [OF assms(1) refl assms(2-5)])

interpretation kv_lock: lock_server kv_client "\<lambda>s. s" "\<lambda>v. v" Some
  by unfold_locales (auto simp: kv_client_def kv_bool_def kv_string_def Let_def split: option.splits if_splits)

theorem lock_exclusive_witness:
  "let n = \<lparr>nkey = ''orders'', node = ''n1'', cache = NewRedisView kv_client ''app'', policies = [1]\<rparr>;
       n' = n\<lparr>node := ''n2''\<rparr>; p = \<lparr>count = 1, Value = ''o1'', pcache = None\<rparr>
   in \<not> fst (lock (\<lambda>f u sc. 0) 7 n' p (snd (lock (\<lambda>f u sc. 0) 7 n p Map.empty)))"
proof -
  let ?n = "\<lparr>nkey = ''orders'', node = ''n1'', cache = NewRedisView kv_client ''app'', policies = [1]\<rparr>"
  let ?p = "\<lparr>count = 1, Value = ''o1'', pcache = None\<rparr>"
  have c: "cmd (cache ?n) = kv_client" by (simp add: NewRedisView_def)
  have first: "fst (lock (\<lambda>f u sc. 0) 7 ?n ?p Map.empty)" using kv_lock.lock_spec(1) [OF c] by simp
  have "lock_server (cmd (cache ?n)) (\<lambda>s. s) (\<lambda>v. v) Some" unfolding c by (rule kv_lock.lock_server_axioms)
  from lock_exclusive [OF this _ _ _ first, of "?n\<lparr>node := ''n2''\<rparr>" ?p 7] show ?thesis by (simp add: Let_def)
qed

section \<open>The lock during a chain\<close>

text \<open>
  The lock is re-entrant for the goroutine that holds it: as long as nobody else has the lock of the
  value, every round of the chain gets it. For this the \<^verbatim>\<open>SET\<close> of a retry key must leave the lock's
  key alone.
\<close>

definition lock_key :: "'db notification \<Rightarrow> string \<Rightarrow> string" where
  "lock_key n v = expandKey (cache n) (retry_key n v)"

definition free_or_mine ::
  "('db \<Rightarrow> string \<Rightarrow> 'v option) \<Rightarrow> ('v \<Rightarrow> string option) \<Rightarrow> nat \<Rightarrow> 'db notification \<Rightarrow> string \<Rightarrow> 'db \<Rightarrow> bool" where
  "free_or_mine look as gid n v s \<longleftrightarrow>
     look s (lock_key n v) = None \<or> Option.bind (look s (lock_key n v)) as = Some (lock_value n gid)"

locale retry_server = lock_server c look str as
  for c :: "'db RedisCmd" and look :: "'db \<Rightarrow> string \<Rightarrow> 'v option" and str :: "string \<Rightarrow> 'v" and as :: "'v \<Rightarrow> string option" +
  assumes set_frame: "k' \<noteq> k \<Longrightarrow> look (snd (stringCmd c (Req ''SET'' [k] [ABytes v, ADur d]) s)) k' = look s k'"
begin

lemma PutNotification_frame:
  assumes "cmd (cache n) = c" and "Value p = v"
  shows "look (snd (PutNotification frac n p s)) (lock_key n v) = look s (lock_key n v)"
proof -
  have ne: "lock_key n v \<noteq> expandKey (cache n) (retry_key n (Payload_String p))"
    using assms(2) by (auto simp: lock_key_def expandKey_def retry_key_def Payload_String_def encodePayload_def)
  show ?thesis
    using set_frame [OF ne] assms(1)
    by (auto simp: PutNotification_def Set_def Let_def case_prod_unfold split: option.splits)
qed

lemma lock_mine:
  assumes "cmd (cache n) = c" and "free_or_mine look as gid n (Value p) s"
  shows "fst (lock frac gid n p s)" and "free_or_mine look as gid n (Value p) (snd (lock frac gid n p s))"
  using assms(2) lock_spec [OF assms(1), of frac gid p s] as_str
  by (auto simp: free_or_mine_def lock_key_def)

lemma retry_run_complete:
  assumes n: "cmd (cache n) = c"
    and h: "\<forall>q s. Value q = v \<longrightarrow> fst (h q s) = (True, v) \<and> (free_or_mine look as gid n v s \<longrightarrow> free_or_mine look as gid n v (snd (h q s)))"
    and env: "\<forall>f \<in> set es. \<forall>s. free_or_mine look as gid n v s \<longrightarrow> free_or_mine look as gid n v (f s)"
    and len: "length (policies n) < 2 ^ 31" and v: "plain_value v"
    and "Value p = v" and "count p = int k" and "k < length (policies n)"
    and "free_or_mine look as gid n v s" and "length (policies n) - k \<le> length es"
  shows "retry_run frac gid n h db es p s = (map int [Suc k ..< Suc (length (policies n))], False)"
  using env assms(6-)
proof (induction es arbitrary: p s k)
  case (Cons f es)
  let ?q = "next_payload n p"
  have mine: "free_or_mine look as gid n v (f s)" using Cons.prems by simp
  obtain s1 where l: "lock frac gid n ?q (f s) = (True, s1)" and m1: "free_or_mine look as gid n v s1"
    using lock_mine [OF n, of gid ?q "f s" frac] mine Cons.prems(2) by (cases "lock frac gid n ?q (f s)") auto
  obtain s2 where hh: "h ?q s1 = ((True, v), s2)" and m2: "free_or_mine look as gid n v s2"
    using h [rule_format, of ?q s1] m1 Cons.prems(2) by (cases "h ?q s1") auto
  have pv: "plain_value (Value p)" "0 \<le> count p" "count p < 2 ^ 31" using Cons.prems v len by simp_all
  note om = on_message_expiry [where h = h, OF pv l hh, of db]
  have same: "?q\<lparr>Value := v\<rparr> = ?q" using Cons.prems(2) by (simp add: next_payload_def)
  show ?case
  proof (cases "Suc k < length (policies n)")
    case True
    let ?s3 = "snd (PutNotification frac n ?q s2)"
    have "free_or_mine look as gid n v ?s3"
      using m2 PutNotification_frame [OF n, of ?q v frac s2] Cons.prems(2) by (simp add: free_or_mine_def)
    then have "retry_run frac gid n h db es ?q ?s3 = (map int [Suc (Suc k) ..< Suc (length (policies n))], False)"
      using Cons.prems True by (intro Cons.IH) simp_all
    with om same True Cons.prems(3) show ?thesis by (simp add: upt_conv_Cons [of "Suc k"] del: upt_Suc)
  next
    case False
    then have "length (policies n) = Suc k" using Cons.prems(4) by simp
    with om same Cons.prems(3) show ?thesis by simp
  qed
qed simp

end


interpretation kv_retry: retry_server kv_client "\<lambda>s. s" "\<lambda>v. v" Some
  by unfold_locales (simp add: kv_client_def kv_string_def)

text \<open>Two retries, while another node takes the lock of another value in between.\<close>

definition kv_note :: "(string \<Rightarrow> string option) notification" where
  "kv_note = \<lparr>nkey = ''orders'', node = ''n1'', cache = NewRedisView kv_client ''app'', policies = [10 ^ 9, 10 ^ 9]\<rparr>"

definition other_node :: "(string \<Rightarrow> string option) \<Rightarrow> string \<Rightarrow> string option" where
  "other_node s = snd (lock (\<lambda>f u sc. 0) 9 (kv_note\<lparr>node := ''n2''\<rparr>) \<lparr>count = 0, Value = ''o2'', pcache = None\<rparr> s)"

lemma other_node_frame:
  "free_or_mine (\<lambda>s. s) Some 7 kv_note ''o1'' s \<Longrightarrow> free_or_mine (\<lambda>s. s) Some 7 kv_note ''o1'' (other_node s)"
proof -
  let ?n = "kv_note\<lparr>node := ''n2''\<rparr>" and ?p = "\<lparr>count = 0, Value = ''o2'', pcache = None\<rparr>"
  have c: "cmd (cache ?n) = kv_client" by (simp add: kv_note_def NewRedisView_def)
  have "other_node s (lock_key kv_note ''o1'') = s (lock_key kv_note ''o1'')"
    unfolding other_node_def kv_lock.lock_spec(2) [OF c]
    by (simp add: lock_key_def expandKey_def retry_key_def kv_note_def)
  then show "free_or_mine (\<lambda>s. s) Some 7 kv_note ''o1'' s \<Longrightarrow> free_or_mine (\<lambda>s. s) Some 7 kv_note ''o1'' (other_node s)"
    by (simp add: free_or_mine_def)
qed


text \<open>
  The lock's value names the goroutine it is taken by: for the header line that the runtime writes
  for goroutine \<open>n\<close>, the number read is \<open>n\<close>, for every 64-bit number.
\<close>

lemma takeWhile_digits:
  "takeWhile (\<lambda>c. c \<noteq> CHR '' '') (nat_digits n @ CHR '' '' # r) = nat_digits n"
proof -
  have "c \<noteq> CHR '' ''" if "c \<in> set (nat_digits n)" for c
    using nat_digits_are_digits [OF that] by (auto simp: digit_val_def)
  then show ?thesis by (simp add: takeWhile_append2)
qed

theorem getRoutineID_reads_number:
  assumes "n < 2 ^ 64"
  shows "getRoutineID (''goroutine '' @ nat_digits n @ '' '' @ rest) = Returns n"
proof -
  have "length (nat_digits n) \<le> 20"
    by (rule nat_digits_length) (use assms in simp_all)
  then have "bytes_TrimPrefix (take 64 (''goroutine '' @ nat_digits n @ '' '' @ rest)) ''goroutine '' =
      nat_digits n @ CHR '' '' # take (53 - length (nat_digits n)) rest"
    by (simp add: bytes_TrimPrefix_def take_Cons' diff_diff_eq)
  then show ?thesis
    using assms by (simp add: getRoutineID_def takeWhile_digits ParseUint_nat_digits)
qed

end
