(* ===== verification/Redis_Store.thy ===== *)
theory Redis_Store
  imports Redis_View
begin

text \<open>
  What a view promises its user: a private store. The contract is an abstract machine on a map from
  the user's keys to typed values (strings, hashes, lists, sets); the theorems show that the methods
  of \<^verbatim>\<open>redisView\<close> implement it on every server that behaves as the Redis documentation says
  (locale \<open>redis_server\<close>, one law per command), together with keys that expire and other clients of the
  server that stay outside the view's key space.

  An entry is a value and whether it has an expiry time. What a command does to the entry of its
  key is a function \<open>sem\<close> from the entry (\<open>None\<close> when the key is absent) to the reply and the new
  entry. \<open>SPop\<close>, whose result the server draws, the scans and key lists, whose order it chooses, and the
  sorted sets and geo sets are not part of the contract.
\<close>

section \<open>Typed entries\<close>

datatype rval = RStr bytes | RHash "string \<rightharpoonup> bytes" | RList "bytes list" | RSet "bytes set"

type_synonym entry = "rval \<times> bool"
type_synonym store = "string \<rightharpoonup> entry"
type_synonym 'a sem = "entry option \<Rightarrow> 'a \<times> entry option"

definition redis_nil :: rerr where "redis_nil = ErrClient ''redis: nil''"

definition wrong_type :: rerr where
  "wrong_type = ErrClient ''WRONGTYPE Operation against a key holding the wrong kind of value''"

text \<open>The value of an entry as a string, hash, list or set; absent keys count as empty, \<open>None\<close> is the wrong kind.\<close>

fun as_str :: "entry option \<Rightarrow> bytes option option" where
  "as_str None = Some None"
| "as_str (Some (RStr v, _)) = Some (Some v)"
| "as_str _ = None"

fun as_hash :: "entry option \<Rightarrow> (string \<rightharpoonup> bytes) option" where
  "as_hash None = Some Map.empty"
| "as_hash (Some (RHash h, _)) = Some h"
| "as_hash _ = None"

fun as_list :: "entry option \<Rightarrow> bytes list option" where
  "as_list None = Some []"
| "as_list (Some (RList xs, _)) = Some xs"
| "as_list _ = None"

fun as_set :: "entry option \<Rightarrow> bytes set option" where
  "as_set None = Some {}"
| "as_set (Some (RSet xs, _)) = Some xs"
| "as_set _ = None"

fun empty_val :: "rval \<Rightarrow> bool" where
  "empty_val (RStr v) = False"
| "empty_val (RHash h) = (h = Map.empty)"
| "empty_val (RList xs) = (xs = [])"
| "empty_val (RSet xs) = (xs = {})"

definition volatile :: "entry option \<Rightarrow> bool" where
  "volatile e = (case e of None \<Rightarrow> False | Some (_, x) \<Rightarrow> x)"

text \<open>A changed value keeps the expiry; a value that became empty is removed.\<close>

definition changed :: "entry option \<Rightarrow> rval \<Rightarrow> entry option" where
  "changed e v = (if empty_val v then None else Some (v, volatile e))"

definition lindex :: "int \<Rightarrow> 'a list \<Rightarrow> 'a option" where
  "lindex i xs = (let j = (if i < 0 then int (length xs) + i else i)
                  in if 0 \<le> j \<and> j < int (length xs) then Some (xs ! nat j) else None)"

definition lrange :: "int \<Rightarrow> int \<Rightarrow> 'a list \<Rightarrow> 'a list" where
  "lrange i j xs =
     (let n = int (length xs); a = max 0 (if i < 0 then n + i else i); b = (if j < 0 then n + j else j)
      in take (nat (b - a + 1)) (drop (nat a) xs))"

section \<open>The server\<close>

text \<open>\<open>on_key run look k sem\<close>: the call \<open>run\<close> answers and changes the entry of \<open>k\<close>, and nothing else, as \<open>sem\<close> says.\<close>

definition on_key :: "('db \<Rightarrow> 'a \<times> 'db) \<Rightarrow> ('db \<Rightarrow> store) \<Rightarrow> string \<Rightarrow> 'a sem \<Rightarrow> bool" where
  "on_key run look k sem \<longleftrightarrow>
     (\<forall>s. fst (run s) = fst (sem (look s k)) \<and> look (snd (run s)) = (look s)(k := snd (sem (look s k))))"

definition typed :: "(entry option \<Rightarrow> 'v option) \<Rightarrow> 'a \<Rightarrow> ('v \<Rightarrow> ('a \<times> rerr option) \<times> entry option) \<Rightarrow> ('a \<times> rerr option) sem" where
  "typed as zero f e = (case as e of None \<Rightarrow> ((zero, Some wrong_type), e) | Some v \<Rightarrow> f v)"

definition arity_error :: "'a \<Rightarrow> rerr \<Rightarrow> ('a \<times> rerr option) sem" where
  "arity_error zero err e = ((zero, Some err), e)"

text \<open>
  The documented behaviour of the commands the contract uses. \<open>arity n\<close> is the error the server
  reports when command \<open>n\<close> has too few arguments.
\<close>

locale redis_server =
  fixes c :: "'db RedisCmd" and look :: "'db \<Rightarrow> store" and arity :: "string \<Rightarrow> rerr"
  assumes SET: "0 \<le> d \<Longrightarrow> on_key (stringCmd c (Req ''SET'' [k] [ABytes v, ADur d])) look k
        (\<lambda>e. ((''OK'', None), Some (RStr v, 0 < d)))"
    and SETNX: "0 \<le> d \<Longrightarrow> on_key (boolCmd c (Req ''SETNX'' [k] [ABytes v, ADur d])) look k
        (\<lambda>e. if e = None then ((True, None), Some (RStr v, 0 < d)) else ((False, None), e))"
    and GET: "on_key (stringCmd c (Req ''GET'' [k] [])) look k
        (\<lambda>e. typed as_str [] (\<lambda>v. (case v of None \<Rightarrow> ([], Some redis_nil) | Some x \<Rightarrow> (x, None), e)) e)"
    and DEL: "ks \<noteq> [] \<Longrightarrow> fst (intCmd c (Req ''DEL'' ks []) s) = (int (card (set ks \<inter> dom (look s))), None) \<and>
        look (snd (intCmd c (Req ''DEL'' ks []) s)) = look s |` (- set ks)"
    and DEL_none: "fst (intCmd c (Req ''DEL'' [] []) s) = (0, Some (arity ''DEL'')) \<and>
        look (snd (intCmd c (Req ''DEL'' [] []) s)) = look s"
    and EXISTS: "on_key (intCmd c (Req ''EXISTS'' [k] [])) look k (\<lambda>e. ((if e = None then 0 else 1, None), e))"
    and EXPIRE: "on_key (boolCmd c (Req ''EXPIRE'' [k] [ADur d])) look k
        (\<lambda>e. case e of None \<Rightarrow> ((False, None), None) | Some (v, _) \<Rightarrow> ((True, None), if 0 < d then Some (v, True) else None))"
    and HSET: "on_key (intCmd c (Req ''HSET'' [k] [AStr f, ABytes v])) look k
        (\<lambda>e. typed as_hash 0 (\<lambda>h. ((if h f = None then 1 else 0, None), changed e (RHash (h(f \<mapsto> v))))) e)"
    and HSETNX: "on_key (boolCmd c (Req ''HSETNX'' [k] [AStr f, ABytes v])) look k
        (\<lambda>e. typed as_hash False
           (\<lambda>h. if h f = None then ((True, None), changed e (RHash (h(f \<mapsto> v)))) else ((False, None), e)) e)"
    and HMSET: "m \<noteq> Map.empty \<Longrightarrow> on_key (boolCmd c (Req ''HMSET'' [k] [AFields m])) look k
        (\<lambda>e. typed as_hash False (\<lambda>h. ((True, None), changed e (RHash (h ++ m)))) e)"
    and HMSET_none: "on_key (boolCmd c (Req ''HMSET'' [k] [AFields Map.empty])) look k (arity_error False (arity ''HMSET''))"
    and HGET: "on_key (stringCmd c (Req ''HGET'' [k] [AStr f])) look k
        (\<lambda>e. typed as_hash [] (\<lambda>h. (case h f of None \<Rightarrow> ([], Some redis_nil) | Some x \<Rightarrow> (x, None), e)) e)"
    and HGETALL: "on_key (mapCmd c (Req ''HGETALL'' [k] [])) look k
        (\<lambda>e. typed as_hash Map.empty (\<lambda>h. ((h, None), e)) e)"
    and HDEL: "fs \<noteq> [] \<Longrightarrow> on_key (intCmd c (Req ''HDEL'' [k] (map AStr fs))) look k
        (\<lambda>e. typed as_hash 0 (\<lambda>h. ((int (card (set fs \<inter> dom h)), None), changed e (RHash (h |` (- set fs))))) e)"
    and HDEL_none: "on_key (intCmd c (Req ''HDEL'' [k] [])) look k (arity_error 0 (arity ''HDEL''))"
    and HLEN: "on_key (intCmd c (Req ''HLEN'' [k] [])) look k
        (\<lambda>e. typed as_hash 0 (\<lambda>h. ((int (card (dom h)), None), e)) e)"
    and HEXISTS: "on_key (boolCmd c (Req ''HEXISTS'' [k] [AStr f])) look k
        (\<lambda>e. typed as_hash False (\<lambda>h. ((h f \<noteq> None, None), e)) e)"
    and LPUSH: "vs \<noteq> [] \<Longrightarrow> on_key (intCmd c (Req ''LPUSH'' [k] (map ABytes vs))) look k
        (\<lambda>e. typed as_list 0 (\<lambda>xs. ((int (length vs + length xs), None), changed e (RList (rev vs @ xs)))) e)"
    and LPUSH_none: "on_key (intCmd c (Req ''LPUSH'' [k] [])) look k (arity_error 0 (arity ''LPUSH''))"
    and RPUSH: "vs \<noteq> [] \<Longrightarrow> on_key (intCmd c (Req ''RPUSH'' [k] (map ABytes vs))) look k
        (\<lambda>e. typed as_list 0 (\<lambda>xs. ((int (length xs + length vs), None), changed e (RList (xs @ vs)))) e)"
    and RPUSH_none: "on_key (intCmd c (Req ''RPUSH'' [k] [])) look k (arity_error 0 (arity ''RPUSH''))"
    and LPOP: "on_key (stringCmd c (Req ''LPOP'' [k] [])) look k
        (\<lambda>e. typed as_list [] (\<lambda>xs. case xs of [] \<Rightarrow> (([], Some redis_nil), e) | x # ys \<Rightarrow> ((x, None), changed e (RList ys))) e)"
    and RPOP: "on_key (stringCmd c (Req ''RPOP'' [k] [])) look k
        (\<lambda>e. typed as_list [] (\<lambda>xs. if xs = [] then (([], Some redis_nil), e)
               else ((last xs, None), changed e (RList (butlast xs)))) e)"
    and LLEN: "on_key (intCmd c (Req ''LLEN'' [k] [])) look k
        (\<lambda>e. typed as_list 0 (\<lambda>xs. ((int (length xs), None), e)) e)"
    and LINDEX: "on_key (stringCmd c (Req ''LINDEX'' [k] [AInt i])) look k
        (\<lambda>e. typed as_list [] (\<lambda>xs. (case lindex (sint i) xs of None \<Rightarrow> ([], Some redis_nil) | Some x \<Rightarrow> (x, None), e)) e)"
    and LRANGE: "on_key (stringsCmd c (Req ''LRANGE'' [k] [AInt i, AInt j])) look k
        (\<lambda>e. typed as_list [] (\<lambda>xs. ((lrange (sint i) (sint j) xs, None), e)) e)"
    and SADD: "vs \<noteq> [] \<Longrightarrow> on_key (intCmd c (Req ''SADD'' [k] (map ABytes vs))) look k
        (\<lambda>e. typed as_set 0 (\<lambda>xs. ((int (card (set vs - xs)), None), changed e (RSet (xs \<union> set vs)))) e)"
    and SADD_none: "on_key (intCmd c (Req ''SADD'' [k] [])) look k (arity_error 0 (arity ''SADD''))"
    and SREM: "vs \<noteq> [] \<Longrightarrow> on_key (intCmd c (Req ''SREM'' [k] (map ABytes vs))) look k
        (\<lambda>e. typed as_set 0 (\<lambda>xs. ((int (card (xs \<inter> set vs)), None), changed e (RSet (xs - set vs)))) e)"
    and SREM_none: "on_key (intCmd c (Req ''SREM'' [k] [])) look k (arity_error 0 (arity ''SREM''))"
    and SCARD: "on_key (intCmd c (Req ''SCARD'' [k] [])) look k
        (\<lambda>e. typed as_set 0 (\<lambda>xs. ((int (card xs), None), e)) e)"

section \<open>The contract of a view\<close>

datatype view_op =
    OpSet string bytes string
  | OpSetNX string bytes string
  | OpGet string
  | OpDel "string list"
  | OpExists string
  | OpExpire string string
  | OpHSet string string bytes
  | OpHSetNX string string bytes
  | OpHMSet string "(string \<rightharpoonup> bytes) option"
  | OpHGet string string
  | OpHGetAll string
  | OpHDel string "string list"
  | OpHLen string
  | OpHExists string string
  | OpLPush string "bytes list"
  | OpLAppend string "bytes list"
  | OpLPop string
  | OpLRPop string
  | OpLLen string
  | OpLIndex string int64
  | OpLRange string int64 int64
  | OpSAdd string "bytes list"
  | OpSRem string "bytes list"
  | OpSLen string

datatype view_res =
    VErr "rerr option"
  | VBool bool "rerr option"
  | VBytes bytes "rerr option"
  | VInt int "rerr option"
  | VMap "string \<rightharpoonup> bytes" "rerr option"
  | VList "bytes list" "rerr option"

text \<open>The methods of the view, by operation.\<close>

fun view_exec :: "'db redisView \<Rightarrow> (nat \<Rightarrow> nat \<Rightarrow> nat \<Rightarrow> nat) \<Rightarrow> view_op \<Rightarrow> 'db \<Rightarrow> view_res \<times> 'db" where
  "view_exec r frac (OpSet k v d) s = apfst VErr (Set r frac k v d s)"
| "view_exec r frac (OpSetNX k v d) s = apfst (case_prod VBool) (SetNX r frac k v d s)"
| "view_exec r frac (OpGet k) s = apfst (case_prod VBytes) (Get r k s)"
| "view_exec r frac (OpDel ks) s = apfst (case_prod VInt) (Del r ks s)"
| "view_exec r frac (OpExists k) s = apfst (case_prod VBool) (Exists r k s)"
| "view_exec r frac (OpExpire k d) s = apfst VErr (Expire r frac k d s)"
| "view_exec r frac (OpHSet k f v) s = apfst VErr (HSet r k f v s)"
| "view_exec r frac (OpHSetNX k f v) s = apfst VErr (HSetNX r k f v s)"
| "view_exec r frac (OpHMSet k m) s = apfst VErr (HMSet r k m s)"
| "view_exec r frac (OpHGet k f) s = apfst (case_prod VBytes) (HGet r k f s)"
| "view_exec r frac (OpHGetAll k) s = apfst (case_prod VMap) (HGetAll r k s)"
| "view_exec r frac (OpHDel k fs) s = apfst (case_prod VInt) (HDel r k fs s)"
| "view_exec r frac (OpHLen k) s = apfst (case_prod VInt) (HLen r k s)"
| "view_exec r frac (OpHExists k f) s = apfst (case_prod VBool) (HExists r k f s)"
| "view_exec r frac (OpLPush k vs) s = apfst (case_prod VInt) (LPush r k vs s)"
| "view_exec r frac (OpLAppend k vs) s = apfst (case_prod VInt) (LAppend r k vs s)"
| "view_exec r frac (OpLPop k) s = apfst (case_prod VBytes) (LPop r k s)"
| "view_exec r frac (OpLRPop k) s = apfst (case_prod VBytes) (LRPop r k s)"
| "view_exec r frac (OpLLen k) s = apfst (case_prod VInt) (LLen r k s)"
| "view_exec r frac (OpLIndex k i) s = apfst (case_prod VBytes) (LIndex r k i s)"
| "view_exec r frac (OpLRange k i j) s = apfst (case_prod VList) (LRange r k i j s)"
| "view_exec r frac (OpSAdd k vs) s = apfst (case_prod VInt) (SAdd r k vs s)"
| "view_exec r frac (OpSRem k vs) s = apfst (case_prod VInt) (SRem r k vs s)"
| "view_exec r frac (OpSLen k) s = apfst (case_prod VInt) (SLen r k s)"

text \<open>
  The contract, on the entry of the operation's key. Empty durations mean no expiry; a duration that
  does not parse is refused. A wrong kind of value is an error that changes nothing.
\<close>

definition duration_of :: "(nat \<Rightarrow> nat \<Rightarrow> nat \<Rightarrow> nat) \<Rightarrow> string \<Rightarrow> int option" where
  "duration_of frac d = (if d = [] then Some 0 else ParseDuration frac d)"

definition guarded ::
  "(entry option \<Rightarrow> 'v option) \<Rightarrow> (rerr option \<Rightarrow> view_res) \<Rightarrow> ('v \<Rightarrow> view_res \<times> entry option) \<Rightarrow> view_res sem" where
  "guarded as bad f e = (case as e of None \<Rightarrow> (bad (Some wrong_type), e) | Some v \<Rightarrow> f v)"

definition found :: "bytes option \<Rightarrow> view_res" where
  "found x = (case x of None \<Rightarrow> VBytes [] (Some redis_nil) | Some v \<Rightarrow> VBytes v None)"

fun entry_spec :: "(nat \<Rightarrow> nat \<Rightarrow> nat \<Rightarrow> nat) \<Rightarrow> (string \<Rightarrow> rerr) \<Rightarrow> view_op \<Rightarrow> view_res sem" where
  "entry_spec frac arity (OpSet k v d) e =
     (case duration_of frac d of
        None \<Rightarrow> (VErr (Some (ErrDuration d)), e) | Some t \<Rightarrow> (VErr None, Some (RStr v, 0 < t)))"
| "entry_spec frac arity (OpSetNX k v d) e =
     (case duration_of frac d of
        None \<Rightarrow> (VBool False (Some (ErrDuration d)), e)
      | Some t \<Rightarrow> if e = None then (VBool True None, Some (RStr v, 0 < t)) else (VBool False None, e))"
| "entry_spec frac arity (OpGet k) e = guarded as_str (VBytes []) (\<lambda>x. (found x, e)) e"
| "entry_spec frac arity (OpDel ks) e = (VInt (if e = None then 0 else 1) None, None)"
| "entry_spec frac arity (OpExists k) e = (VBool (e \<noteq> None) None, e)"
| "entry_spec frac arity (OpExpire k d) e =
     (case ParseDuration frac d of
        None \<Rightarrow> (VErr (Some (ErrDuration d)), e)
      | Some t \<Rightarrow> (case e of
            None \<Rightarrow> (VErr (Some ErrorResultNotTrue), None)
          | Some (v, _) \<Rightarrow> (VErr None, if 0 < t then Some (v, True) else None)))"
| "entry_spec frac arity (OpHSet k f v) e = guarded as_hash VErr (\<lambda>h. (VErr None, changed e (RHash (h(f \<mapsto> v))))) e"
| "entry_spec frac arity (OpHSetNX k f v) e =
     guarded as_hash VErr (\<lambda>h. if h f = None then (VErr None, changed e (RHash (h(f \<mapsto> v))))
                                else (VErr (Some ErrorResultNotTrue), e)) e"
| "entry_spec frac arity (OpHMSet k m) e =
     (case m of
        None \<Rightarrow> (VErr (Some ErrorInputValuesIsNil), e)
      | Some fs \<Rightarrow>
          if fs = Map.empty then (VErr (Some (arity ''HMSET'')), e)
          else guarded as_hash VErr (\<lambda>h. (VErr None, changed e (RHash (h ++ fs)))) e)"
| "entry_spec frac arity (OpHGet k f) e = guarded as_hash (VBytes []) (\<lambda>h. (found (h f), e)) e"
| "entry_spec frac arity (OpHGetAll k) e = guarded as_hash (VMap Map.empty) (\<lambda>h. (VMap h None, e)) e"
| "entry_spec frac arity (OpHDel k fs) e =
     (if fs = [] then (VInt 0 (Some (arity ''HDEL'')), e)
      else guarded as_hash (VInt 0)
             (\<lambda>h. (VInt (int (card (set fs \<inter> dom h))) None, changed e (RHash (h |` (- set fs))))) e)"
| "entry_spec frac arity (OpHLen k) e = guarded as_hash (VInt 0) (\<lambda>h. (VInt (int (card (dom h))) None, e)) e"
| "entry_spec frac arity (OpHExists k f) e = guarded as_hash (VBool False) (\<lambda>h. (VBool (f \<in> dom h) None, e)) e"
| "entry_spec frac arity (OpLPush k vs) e =
     (if vs = [] then (VInt 0 (Some (arity ''LPUSH'')), e)
      else guarded as_list (VInt 0)
             (\<lambda>xs. (VInt (int (length vs + length xs)) None, changed e (RList (rev vs @ xs)))) e)"
| "entry_spec frac arity (OpLAppend k vs) e =
     (if vs = [] then (VInt 0 (Some (arity ''RPUSH'')), e)
      else guarded as_list (VInt 0)
             (\<lambda>xs. (VInt (int (length xs + length vs)) None, changed e (RList (xs @ vs)))) e)"
| "entry_spec frac arity (OpLPop k) e =
     guarded as_list (VBytes [])
       (\<lambda>xs. case xs of [] \<Rightarrow> (found None, e) | x # ys \<Rightarrow> (found (Some x), changed e (RList ys))) e"
| "entry_spec frac arity (OpLRPop k) e =
     guarded as_list (VBytes [])
       (\<lambda>xs. if xs = [] then (found None, e) else (found (Some (last xs)), changed e (RList (butlast xs)))) e"
| "entry_spec frac arity (OpLLen k) e = guarded as_list (VInt 0) (\<lambda>xs. (VInt (int (length xs)) None, e)) e"
| "entry_spec frac arity (OpLIndex k i) e = guarded as_list (VBytes []) (\<lambda>xs. (found (lindex (sint i) xs), e)) e"
| "entry_spec frac arity (OpLRange k i j) e =
     guarded as_list (VList []) (\<lambda>xs. (VList (lrange (sint i) (sint j) xs) None, e)) e"
| "entry_spec frac arity (OpSAdd k vs) e =
     (if vs = [] then (VInt 0 (Some (arity ''SADD'')), e)
      else guarded as_set (VInt 0)
             (\<lambda>xs. (VInt (int (card (set vs - xs))) None, changed e (RSet (xs \<union> set vs)))) e)"
| "entry_spec frac arity (OpSRem k vs) e =
     (if vs = [] then (VInt 0 (Some (arity ''SREM'')), e)
      else guarded as_set (VInt 0)
             (\<lambda>xs. (VInt (int (card (xs \<inter> set vs))) None, changed e (RSet (xs - set vs)))) e)"
| "entry_spec frac arity (OpSLen k) e = guarded as_set (VInt 0) (\<lambda>xs. (VInt (int (card xs)) None, e)) e"

fun op_keys :: "view_op \<Rightarrow> string list" where
  "op_keys (OpSet k v d) = [k]" | "op_keys (OpSetNX k v d) = [k]" | "op_keys (OpGet k) = [k]"
| "op_keys (OpDel ks) = ks" | "op_keys (OpExists k) = [k]" | "op_keys (OpExpire k d) = [k]"
| "op_keys (OpHSet k f v) = [k]" | "op_keys (OpHSetNX k f v) = [k]" | "op_keys (OpHMSet k m) = [k]"
| "op_keys (OpHGet k f) = [k]" | "op_keys (OpHGetAll k) = [k]" | "op_keys (OpHDel k fs) = [k]"
| "op_keys (OpHLen k) = [k]" | "op_keys (OpHExists k f) = [k]"
| "op_keys (OpLPush k vs) = [k]" | "op_keys (OpLAppend k vs) = [k]" | "op_keys (OpLPop k) = [k]"
| "op_keys (OpLRPop k) = [k]" | "op_keys (OpLLen k) = [k]" | "op_keys (OpLIndex k i) = [k]"
| "op_keys (OpLRange k i j) = [k]" | "op_keys (OpSAdd k vs) = [k]" | "op_keys (OpSRem k vs) = [k]"
| "op_keys (OpSLen k) = [k]"

definition is_OpDel :: "view_op \<Rightarrow> bool" where
  "is_OpDel op \<longleftrightarrow> (\<exists>ks. op = OpDel ks)"

lemma is_OpDel_simps [simp]:
  "is_OpDel (OpDel ks)" "\<not> is_OpDel (OpSet k v d)" "\<not> is_OpDel (OpSetNX k v d)" "\<not> is_OpDel (OpGet k)"
  "\<not> is_OpDel (OpExists k)" "\<not> is_OpDel (OpExpire k d)" "\<not> is_OpDel (OpHSet k f v)" "\<not> is_OpDel (OpHSetNX k f v)"
  "\<not> is_OpDel (OpHMSet k m)" "\<not> is_OpDel (OpHGet k f)" "\<not> is_OpDel (OpHGetAll k)" "\<not> is_OpDel (OpHDel k fs)"
  "\<not> is_OpDel (OpHLen k)" "\<not> is_OpDel (OpHExists k f)" "\<not> is_OpDel (OpLPush k vs)" "\<not> is_OpDel (OpLAppend k vs)"
  "\<not> is_OpDel (OpLPop k)" "\<not> is_OpDel (OpLRPop k)" "\<not> is_OpDel (OpLLen k)" "\<not> is_OpDel (OpLIndex k i)"
  "\<not> is_OpDel (OpLRange k i j)" "\<not> is_OpDel (OpSAdd k vs)" "\<not> is_OpDel (OpSRem k vs)" "\<not> is_OpDel (OpSLen k)"
  by (simp_all add: is_OpDel_def)

definition store_step :: "(nat \<Rightarrow> nat \<Rightarrow> nat \<Rightarrow> nat) \<Rightarrow> (string \<Rightarrow> rerr) \<Rightarrow> view_op \<Rightarrow> store \<Rightarrow> view_res \<times> store" where
  "store_step frac arity op st =
     (case op of
        OpDel ks \<Rightarrow>
          if ks = [] then (VInt 0 (Some (arity ''DEL'')), st)
          else (VInt (int (card (set ks \<inter> dom st))) None, st |` (- set ks))
      | _ \<Rightarrow> (let k = hd (op_keys op); (res, e) = entry_spec frac arity op (st k) in (res, st(k := e))))"

text \<open>
  Negative durations are outside the contract: the client library gives some of them a meaning of
  their own (it keeps the expiry, or the server reports an error).
\<close>

fun op_ok :: "(nat \<Rightarrow> nat \<Rightarrow> nat \<Rightarrow> nat) \<Rightarrow> view_op \<Rightarrow> bool" where
  "op_ok frac (OpSet k v d) = (case duration_of frac d of None \<Rightarrow> True | Some t \<Rightarrow> 0 \<le> t)"
| "op_ok frac (OpSetNX k v d) = (case duration_of frac d of None \<Rightarrow> True | Some t \<Rightarrow> 0 \<le> t)"
| "op_ok frac op = True"

section \<open>Every method keeps the contract\<close>

definition with_err :: "'b \<Rightarrow> ('a \<Rightarrow> 'b) \<Rightarrow> 'a \<times> rerr option \<Rightarrow> 'b \<times> rerr option" where
  "with_err zero f x = (case x of (v, None) \<Rightarrow> (f v, None) | (v, Some e) \<Rightarrow> (zero, Some e))"

fun checked :: "iface \<times> rerr option \<Rightarrow> rerr option" where
  "checked (x, Some e) = Some e"
| "checked (IBool b, None) = (if b then None else Some ErrorResultNotTrue)"
| "checked (IStr t, None) = (if t = ''OK'' then None else Some ErrorResultNotOK)"
| "checked (x, None) = None"

lemma on_ok_apfst: "on_ok zero f call = apfst (with_err zero f) call"
  by (cases call) (auto simp: on_ok_def with_err_def split: prod.split option.split)

lemma slice_apfst: "wrapSliceStringToSliceBytes call = apfst (with_err [] (\<lambda>x. x)) call"
  by (cases call) (auto simp: wrapSliceStringToSliceBytes_def with_err_def split: prod.split option.split)

lemma wrapResult_apfst: "wrapResult (boxed b call) = apfst (\<lambda>(x, e). checked (b x, e)) call"
proof -
  obtain x e s where "call = ((x, e), s)" by (metis prod.collapse)
  then show ?thesis by (cases e; cases "b x") (simp_all add: wrapResult_def boxed_def)
qed

lemma on_key_apfst:
  assumes "on_key run look k sem" and "\<And>s. run' s = apfst g (run s)" and "\<And>e. spec e = apfst g (sem e)"
  shows "on_key run' look k spec"
  using assms by (simp add: on_key_def)

lemma on_key_same: "(\<And>s. run s = (x, s)) \<Longrightarrow> (\<And>e. spec e = (x, e)) \<Longrightarrow> on_key run look k spec"
  by (simp add: on_key_def)

lemmas apfst_forms = on_ok_apfst slice_apfst wrapResult_apfst apfst_compose [unfolded comp_def]

lemmas contract_defs = typed_def guarded_def arity_error_def found_def with_err_def duration_of_def

context redis_server
begin

abbreviation kept :: "'db redisView \<Rightarrow> (nat \<Rightarrow> nat \<Rightarrow> nat \<Rightarrow> nat) \<Rightarrow> view_op \<Rightarrow> bool" where
  "kept r frac op \<equiv> on_key (view_exec r frac op) look (expandKey r (hd (op_keys op))) (entry_spec frac arity op)"

lemma strings_kept:
  assumes "cmd r = c"
  shows "kept r frac (OpGet k)" and "kept r frac (OpExists k)"
    and "op_ok frac (OpSet k v d) \<Longrightarrow> kept r frac (OpSet k v d)"
    and "op_ok frac (OpSetNX k v d) \<Longrightarrow> kept r frac (OpSetNX k v d)"
    and "kept r frac (OpExpire k d)"
proof -
  show "kept r frac (OpGet k)"
    by (rule on_key_apfst [OF GET, where g = "\<lambda>x. case with_err [] (\<lambda>x. x) x of (v, e) \<Rightarrow> VBytes v e"])
      (auto simp: Get_def assms apfst_forms contract_defs split: option.split list.split)
  show "kept r frac (OpExists k)"
    by (rule on_key_apfst [OF EXISTS, where g = "\<lambda>x. case with_err False (\<lambda>n. n > 0) x of (v, e) \<Rightarrow> VBool v e"])
      (auto simp: Exists_def assms apfst_forms contract_defs split: option.split list.split)
  show "kept r frac (OpSet k v d)" if "op_ok frac (OpSet k v d)"
  proof (cases "duration_of frac d")
    case None
    then show ?thesis
      by (intro on_key_same [where x = "VErr (Some (ErrDuration d))"]) (auto simp: Set_def duration_of_def split: if_splits)
  next
    case (Some t)
    with that have "0 \<le> t" by simp
    from SET [OF this] show ?thesis
      by (rule on_key_apfst [where g = "\<lambda>(x, e). VErr e"])
        (use Some in \<open>auto simp: Set_def assms duration_of_def apfst_def map_prod_def split: if_splits prod.splits\<close>)
  qed
  show "kept r frac (OpSetNX k v d)" if "op_ok frac (OpSetNX k v d)"
  proof (cases "duration_of frac d")
    case None
    then show ?thesis
      by (intro on_key_same [where x = "VBool False (Some (ErrDuration d))"]) (auto simp: SetNX_def duration_of_def split: if_splits)
  next
    case (Some t)
    with that have "0 \<le> t" by simp
    from SETNX [OF this] show ?thesis
      by (rule on_key_apfst [where g = "\<lambda>(x, e). VBool x e"])
        (use Some in \<open>auto simp: SetNX_def assms duration_of_def split: if_splits\<close>)
  qed
  show "kept r frac (OpExpire k d)"
  proof (cases "ParseDuration frac d")
    case None
    then show ?thesis
      by (intro on_key_same [where x = "VErr (Some (ErrDuration d))"]) (auto simp: Expire_def)
  next
    case (Some t)
    from EXPIRE show ?thesis
      by (rule on_key_apfst [where g = "\<lambda>x. VErr (case x of (v, e) \<Rightarrow> checked (IBool v, e))"])
        (use Some in \<open>auto simp: Expire_def assms apfst_forms split: option.split\<close>)
  qed
qed

lemma hashes_kept:
  assumes "cmd r = c"
  shows "kept r frac (OpHSet k f v)" and "kept r frac (OpHSetNX k f v)" and "kept r frac (OpHMSet k m)"
    and "kept r frac (OpHGet k f)" and "kept r frac (OpHGetAll k)" and "kept r frac (OpHDel k fs)"
    and "kept r frac (OpHLen k)" and "kept r frac (OpHExists k f)"
proof -
  show "kept r frac (OpHSet k f v)"
    by (rule on_key_apfst [OF HSET, where g = "\<lambda>x. VErr (case x of (v, e) \<Rightarrow> checked (IInt v, e))"])
      (auto simp: HSet_def assms apfst_forms contract_defs split: option.split list.split)
  show "kept r frac (OpHSetNX k f v)"
    by (rule on_key_apfst [OF HSETNX, where g = "\<lambda>x. VErr (case x of (v, e) \<Rightarrow> checked (IBool v, e))"])
      (auto simp: HSetNX_def assms apfst_forms contract_defs split: option.split list.split)
  show "kept r frac (OpHMSet k m)"
  proof (cases m)
    case None
    then show ?thesis
      by (intro on_key_same [where x = "VErr (Some ErrorInputValuesIsNil)"]) (auto simp: HMSet_def)
  next
    case (Some fs)
    show ?thesis
    proof (cases "fs = Map.empty")
      case True
      show ?thesis
        by (rule on_key_apfst [OF HMSET_none, where g = "\<lambda>x. VErr (case x of (v, e) \<Rightarrow> checked (IBool v, e))"])
          (auto simp: True Some HMSet_def assms apfst_forms contract_defs)
    next
      case False
      show ?thesis
        by (rule on_key_apfst [OF HMSET [OF False], where g = "\<lambda>x. VErr (case x of (v, e) \<Rightarrow> checked (IBool v, e))"])
          (auto simp: False Some HMSet_def assms apfst_forms contract_defs split: option.split)
    qed
  qed
  show "kept r frac (OpHGet k f)"
    by (rule on_key_apfst [OF HGET, where g = "\<lambda>(x, e). VBytes x e"])
      (auto simp: HGet_def assms apfst_forms contract_defs split: option.split list.split)
  show "kept r frac (OpHGetAll k)"
    by (rule on_key_apfst [OF HGETALL, where g = "\<lambda>x. case with_err Map.empty (\<lambda>x. x) x of (v, e) \<Rightarrow> VMap v e"])
      (auto simp: HGetAll_def assms apfst_forms contract_defs split: option.split list.split)
  show "kept r frac (OpHDel k fs)"
  proof (cases "fs = []")
    case True
    show ?thesis
      by (rule on_key_apfst [OF HDEL_none, where g = "\<lambda>(x, e). VInt x e"])
        (auto simp: True HDel_def assms apfst_forms contract_defs)
  next
    case False
    show ?thesis
      by (rule on_key_apfst [OF HDEL [OF False], where g = "\<lambda>(x, e). VInt x e"])
        (auto simp: False HDel_def assms apfst_forms contract_defs split: option.split)
  qed
  show "kept r frac (OpHLen k)"
    by (rule on_key_apfst [OF HLEN, where g = "\<lambda>(x, e). VInt x e"])
      (auto simp: HLen_def assms apfst_forms contract_defs split: option.split list.split)
  show "kept r frac (OpHExists k f)"
    by (rule on_key_apfst [OF HEXISTS, where g = "\<lambda>(x, e). VBool x e"])
      (auto simp: HExists_def assms apfst_forms contract_defs split: option.split list.split)
qed

lemma lists_kept:
  assumes "cmd r = c"
  shows "kept r frac (OpLPush k vs)" and "kept r frac (OpLAppend k vs)" and "kept r frac (OpLPop k)"
    and "kept r frac (OpLRPop k)" and "kept r frac (OpLLen k)" and "kept r frac (OpLIndex k i)" and "kept r frac (OpLRange k i j)"
proof -
  show "kept r frac (OpLPush k vs)"
  proof (cases "vs = []")
    case True
    show ?thesis
      by (rule on_key_apfst [OF LPUSH_none, where g = "\<lambda>(x, e). VInt x e"])
        (auto simp: True LPush_def assms apfst_forms contract_defs)
  next
    case False
    show ?thesis
      by (rule on_key_apfst [OF LPUSH [OF False], where g = "\<lambda>(x, e). VInt x e"])
        (auto simp: False LPush_def assms apfst_forms contract_defs split: option.split)
  qed
  show "kept r frac (OpLAppend k vs)"
  proof (cases "vs = []")
    case True
    show ?thesis
      by (rule on_key_apfst [OF RPUSH_none, where g = "\<lambda>(x, e). VInt x e"])
        (auto simp: True LAppend_def assms apfst_forms contract_defs)
  next
    case False
    show ?thesis
      by (rule on_key_apfst [OF RPUSH [OF False], where g = "\<lambda>(x, e). VInt x e"])
        (auto simp: False LAppend_def assms apfst_forms contract_defs split: option.split)
  qed
  show "kept r frac (OpLPop k)"
    by (rule on_key_apfst [OF LPOP, where g = "\<lambda>x. case with_err [] (\<lambda>x. x) x of (v, e) \<Rightarrow> VBytes v e"])
      (auto simp: LPop_def assms apfst_forms contract_defs split: option.split list.split)
  show "kept r frac (OpLRPop k)"
    by (rule on_key_apfst [OF RPOP, where g = "\<lambda>x. case with_err [] (\<lambda>x. x) x of (v, e) \<Rightarrow> VBytes v e"])
      (auto simp: LRPop_def assms apfst_forms contract_defs split: option.split list.split)
  show "kept r frac (OpLLen k)"
    by (rule on_key_apfst [OF LLEN, where g = "\<lambda>(x, e). VInt x e"])
      (auto simp: LLen_def assms apfst_forms contract_defs split: option.split list.split)
  show "kept r frac (OpLIndex k i)"
    by (rule on_key_apfst [OF LINDEX, where g = "\<lambda>x. case with_err [] (\<lambda>x. x) x of (v, e) \<Rightarrow> VBytes v e"])
      (auto simp: LIndex_def assms apfst_forms contract_defs split: option.split list.split)
  show "kept r frac (OpLRange k i j)"
    by (rule on_key_apfst [OF LRANGE, where g = "\<lambda>x. case with_err [] (\<lambda>x. x) x of (v, e) \<Rightarrow> VList v e"])
      (auto simp: LRange_def assms apfst_forms contract_defs split: option.split list.split)
qed

lemma sets_kept:
  assumes "cmd r = c"
  shows "kept r frac (OpSAdd k vs)" and "kept r frac (OpSRem k vs)" and "kept r frac (OpSLen k)"
proof -
  show "kept r frac (OpSAdd k vs)"
  proof (cases "vs = []")
    case True
    show ?thesis
      by (rule on_key_apfst [OF SADD_none, where g = "\<lambda>(x, e). VInt x e"])
        (auto simp: True SAdd_def assms apfst_forms contract_defs)
  next
    case False
    show ?thesis
      by (rule on_key_apfst [OF SADD [OF False], where g = "\<lambda>(x, e). VInt x e"])
        (auto simp: False SAdd_def assms apfst_forms contract_defs split: option.split)
  qed
  show "kept r frac (OpSRem k vs)"
  proof (cases "vs = []")
    case True
    show ?thesis
      by (rule on_key_apfst [OF SREM_none, where g = "\<lambda>(x, e). VInt x e"])
        (auto simp: True SRem_def assms apfst_forms contract_defs)
  next
    case False
    show ?thesis
      by (rule on_key_apfst [OF SREM [OF False], where g = "\<lambda>(x, e). VInt x e"])
        (auto simp: False SRem_def assms apfst_forms contract_defs split: option.split)
  qed
  show "kept r frac (OpSLen k)"
    by (rule on_key_apfst [OF SCARD, where g = "\<lambda>(x, e). VInt x e"])
      (auto simp: SLen_def assms apfst_forms contract_defs split: option.split list.split)
qed

lemma method_kept:
  assumes "cmd r = c" and "op_ok frac op" and "\<not> is_OpDel op"
  shows "kept r frac op"
  using assms(2,3)
  by (cases op) (simp_all only: strings_kept [OF assms(1)] hashes_kept [OF assms(1)] lists_kept [OF assms(1)]
      sets_kept [OF assms(1)] is_OpDel_simps simp_thms)

end

section \<open>The view is a private store\<close>

definition view_store :: "('db \<Rightarrow> store) \<Rightarrow> 'db redisView \<Rightarrow> 'db \<Rightarrow> store" where
  "view_store look r s = (\<lambda>k. look s (expandKey r k))"

lemma expandKey_inject [simp]: "expandKey r k = expandKey r l \<longleftrightarrow> k = l"
  by (simp add: expandKey_def)

lemma inj_expandKey: "inj (expandKey r)"
  by (simp add: inj_def)

lemma view_store_upd:
  "look t = (look s)(expandKey r k := e) \<Longrightarrow> view_store look r t = (view_store look r s)(k := e)"
  by (auto simp: view_store_def)

lemma store_step_single:
  assumes "\<not> is_OpDel op"
  shows "store_step frac arity op st =
    (fst (entry_spec frac arity op (st (hd (op_keys op)))),
     st(hd (op_keys op) := snd (entry_spec frac arity op (st (hd (op_keys op))))))"
  using assms by (cases op) (simp_all only: store_step_def view_op.case Let_def case_prod_unfold is_OpDel_simps simp_thms)

text \<open>
  The interface of a private store: an implementation whose operations follow the contract. What a
  user of a store relies on is derived from it.
\<close>

locale private_store =
  fixes exec :: "view_op \<Rightarrow> 's \<Rightarrow> view_res \<times> 's" and abs :: "'s \<Rightarrow> store"
    and frac :: "nat \<Rightarrow> nat \<Rightarrow> nat \<Rightarrow> nat" and arity :: "string \<Rightarrow> rerr"
  assumes implements: "op_ok frac op \<Longrightarrow> store_step frac arity op (abs s) = (fst (exec op s), abs (snd (exec op s)))"
begin

lemma single:
  assumes "op_ok frac op" and "\<not> is_OpDel op"
  shows "fst (exec op s) = fst (entry_spec frac arity op (abs s (hd (op_keys op))))"
    and "abs (snd (exec op s)) = (abs s)(hd (op_keys op) := snd (entry_spec frac arity op (abs s (hd (op_keys op)))))"
  using implements [OF assms(1), of s] store_step_single [OF assms(2), of frac arity "abs s"] by simp_all

lemma get_after_set:
  "op_ok frac (OpSet k v d) \<Longrightarrow> duration_of frac d \<noteq> None \<Longrightarrow>
     fst (exec (OpGet k) (snd (exec (OpSet k v d) s))) = VBytes v None"
  by (auto simp: single guarded_def found_def)

lemma get_after_del: "fst (exec (OpGet k) (snd (exec (OpDel [k]) s))) = VBytes [] (Some redis_nil)"
proof -
  have "abs (snd (exec (OpDel [k]) s)) k = None"
    using implements [of "OpDel [k]" s] by (simp add: store_step_def) (metis ComplD insertI1 restrict_out)
  then show ?thesis by (simp add: single guarded_def found_def)
qed

lemma hget_after_hset:
  "as_hash (abs s k) \<noteq> None \<Longrightarrow> fst (exec (OpHGet k g) (snd (exec (OpHSet k f v) s))) =
     (if g = f then VBytes v None else fst (exec (OpHGet k g) s))"
  by (auto simp: single guarded_def changed_def found_def)

text \<open>A list used as a queue: what is appended comes out in the same order.\<close>

fun pops :: "nat \<Rightarrow> string \<Rightarrow> 's \<Rightarrow> view_res list" where
  "pops 0 k s = []"
| "pops (Suc n) k s = fst (exec (OpLPop k) s) # pops n k (snd (exec (OpLPop k) s))"

lemma pops_list:
  "as_list (abs s k) = Some (xs @ ys) \<Longrightarrow> pops (length xs) k s = map (\<lambda>x. VBytes x None) xs"
proof (induction xs arbitrary: s)
  case (Cons x xs)
  from Cons.prems have "as_list (abs (snd (exec (OpLPop k) s)) k) = Some (xs @ ys)"
    by (auto simp: single guarded_def changed_def)
  with Cons show ?case by (simp add: single guarded_def found_def)
qed simp

lemma queue_fifo:
  assumes "abs s k = None"
  shows "pops (length vs) k (snd (exec (OpLAppend k vs) s)) = map (\<lambda>x. VBytes x None) vs"
proof (cases "vs = []")
  case False
  then have "as_list (abs (snd (exec (OpLAppend k vs) s)) k) = Some (vs @ [])"
    using assms by (simp add: single guarded_def changed_def)
  then show ?thesis by (rule pops_list)
qed simp

end

context redis_server
begin

lemma del_step:
  assumes "cmd r = c"
  shows "store_step frac arity (OpDel ks) (view_store look r s) =
      (fst (view_exec r frac (OpDel ks) s), view_store look r (snd (view_exec r frac (OpDel ks) s)))"
proof (cases "ks = []")
  case True
  then show ?thesis using DEL_none [of s] assms by (simp add: Del_def store_step_def view_store_def)
next
  case False
  let ?ks = "map (expandKey r) ks"
  from False DEL [of ?ks s] have d: "fst (intCmd c (Req ''DEL'' ?ks []) s) = (int (card (set ?ks \<inter> dom (look s))), None)"
    "look (snd (intCmd c (Req ''DEL'' ?ks []) s)) = look s |` (- set ?ks)" by simp_all
  have "set ?ks \<inter> dom (look s) = expandKey r ` (set ks \<inter> dom (view_store look r s))"
    by (auto simp: view_store_def)
  then have "card (set ?ks \<inter> dom (look s)) = card (set ks \<inter> dom (view_store look r s))"
    by (simp add: card_image inj_on_def)
  moreover have "view_store look r (snd (intCmd c (Req ''DEL'' ?ks []) s)) = view_store look r s |` (- set ks)"
    unfolding view_store_def d(2) by (auto simp: restrict_map_def fun_eq_iff)
  ultimately show ?thesis using False d(1) assms by (simp add: Del_def store_step_def)
qed

lemma step_refines:
  assumes "cmd r = c" and "op_ok frac op"
  shows "store_step frac arity op (view_store look r s) =
      (fst (view_exec r frac op s), view_store look r (snd (view_exec r frac op s)))"
proof (cases "is_OpDel op")
  case True
  then show ?thesis using del_step [OF assms(1)] by (auto simp: is_OpDel_def)
next
  case False
  from method_kept [OF assms False] show ?thesis
    unfolding store_step_single [OF False] on_key_def
    by (simp add: view_store_upd) (simp add: view_store_def)
qed

sublocale view: private_store "view_exec (NewRedisView c p) frac" "view_store look (NewRedisView c p)" frac arity for p frac
  by unfold_locales (simp add: step_refines NewRedisView_def)

end

section \<open>Runs\<close>

text \<open>
  A run of a view, with what each call answered. Between the calls time passes and other clients
  work: a key of the view may go away when it has an expiry time, and the keys outside the view's
  key space change in any way.
\<close>

definition lapses :: "store \<Rightarrow> store \<Rightarrow> bool" where
  "lapses st st' \<longleftrightarrow> (\<forall>k. st' k = st k \<or> volatile (st k) \<and> st' k = None)"

inductive view_run ::
  "('db \<Rightarrow> store) \<Rightarrow> 'db redisView \<Rightarrow> (nat \<Rightarrow> nat \<Rightarrow> nat \<Rightarrow> nat) \<Rightarrow> 'db \<Rightarrow> (view_op \<times> view_res) list \<Rightarrow> 'db \<Rightarrow> bool"
  for look r frac where
  view_run_end: "view_run look r frac s [] s"
| view_run_call: "op_ok frac op \<Longrightarrow> view_exec r frac op s = (res, t) \<Longrightarrow> view_run look r frac t tr u \<Longrightarrow>
     view_run look r frac s ((op, res) # tr) u"
| view_run_env: "lapses (view_store look r s) (view_store look r t) \<Longrightarrow> view_run look r frac t tr u \<Longrightarrow>
     view_run look r frac s tr u"

inductive store_run ::
  "(nat \<Rightarrow> nat \<Rightarrow> nat \<Rightarrow> nat) \<Rightarrow> (string \<Rightarrow> rerr) \<Rightarrow> store \<Rightarrow> (view_op \<times> view_res) list \<Rightarrow> store \<Rightarrow> bool"
  for frac arity where
  store_run_end: "store_run frac arity st [] st"
| store_run_call: "store_step frac arity op st = (res, st') \<Longrightarrow> store_run frac arity st' tr st'' \<Longrightarrow>
     store_run frac arity st ((op, res) # tr) st''"
| store_run_lapse: "lapses st st' \<Longrightarrow> store_run frac arity st' tr st'' \<Longrightarrow> store_run frac arity st tr st''"

inductive_cases store_run_endE: "store_run frac arity st [] st'"
inductive_cases store_run_callE: "store_run frac arity st ((op, res) # tr) st'"

lemma view_run_store:
  assumes "redis_server (cmd r) look arity" and "view_run look r frac s tr t"
  shows "store_run frac arity (view_store look r s) tr (view_store look r t)"
  using assms(2)
proof induction
  case (view_run_call op s res t tr u)
  have "store_step frac arity op (view_store look r s) = (res, view_store look r t)"
    using redis_server.step_refines [OF assms(1) refl view_run_call(1)] view_run_call(2) by simp
  then show ?case using view_run_call.IH by (rule store_run_call)
qed (auto intro: store_run_end store_run_lapse)

text \<open>
  C7. A view is a private store. On every server that behaves as documented, whatever a user of a
  view observes in a run (the answers to all calls, errors included, while keys expire and other
  clients work outside the key space) is a run of the abstract store, which has the user's own keys
  without the prefix, values of four kinds and no trace of the rest of the server.
\<close>

theorem view_is_private_store:
  assumes "redis_server (cmd r) look arity" and "view_run look r frac s tr t"
  shows "store_run frac arity (view_store look r s) tr (view_store look r t)"
  using assms by (rule view_run_store)

section \<open>Kinds\<close>

datatype kind = KStr | KHash | KList | KSet

fun kind_of :: "rval \<Rightarrow> kind" where
  "kind_of (RStr v) = KStr"
| "kind_of (RHash h) = KHash"
| "kind_of (RList xs) = KList"
| "kind_of (RSet xs) = KSet"

text \<open>The kind a method works on; the others accept every kind.\<close>

fun op_kind :: "view_op \<Rightarrow> kind option" where
  "op_kind (OpGet k) = Some KStr"
| "op_kind (OpHSet k f v) = Some KHash"
| "op_kind (OpHSetNX k f v) = Some KHash"
| "op_kind (OpHMSet k m) = Some KHash"
| "op_kind (OpHGet k f) = Some KHash"
| "op_kind (OpHGetAll k) = Some KHash"
| "op_kind (OpHDel k fs) = Some KHash"
| "op_kind (OpHLen k) = Some KHash"
| "op_kind (OpHExists k f) = Some KHash"
| "op_kind (OpLPush k vs) = Some KList"
| "op_kind (OpLAppend k vs) = Some KList"
| "op_kind (OpLPop k) = Some KList"
| "op_kind (OpLRPop k) = Some KList"
| "op_kind (OpLLen k) = Some KList"
| "op_kind (OpLIndex k i) = Some KList"
| "op_kind (OpLRange k i j) = Some KList"
| "op_kind (OpSAdd k vs) = Some KSet"
| "op_kind (OpSRem k vs) = Some KSet"
| "op_kind (OpSLen k) = Some KSet"
| "op_kind _ = None"

fun res_err :: "view_res \<Rightarrow> rerr option" where
  "res_err (VErr e) = e"
| "res_err (VBool b e) = e"
| "res_err (VBytes v e) = e"
| "res_err (VInt n e) = e"
| "res_err (VMap m e) = e"
| "res_err (VList xs e) = e"

text \<open>Redis keeps no empty hashes, lists and sets.\<close>

definition wf_entry :: "entry option \<Rightarrow> bool" where
  "wf_entry e \<longleftrightarrow> (case e of None \<Rightarrow> True | Some (v, _) \<Rightarrow> \<not> empty_val v)"

definition entry_kind :: "entry option \<Rightarrow> kind option" where
  "entry_kind e = map_option (kind_of \<circ> fst) e"

lemma wf_changed [simp]: "wf_entry (changed e v)"
  by (simp add: wf_entry_def changed_def)

lemma kind_changed: "entry_kind (changed e v) = (if empty_val v then None else Some (kind_of v))"
  by (simp add: entry_kind_def changed_def)

lemma as_kind:
  "as_str e = Some v \<Longrightarrow> entry_kind e \<in> {None, Some KStr}"
  "as_hash e = Some h \<Longrightarrow> entry_kind e \<in> {None, Some KHash}"
  "as_list e = Some xs \<Longrightarrow> entry_kind e \<in> {None, Some KList}"
  "as_set e = Some ys \<Longrightarrow> entry_kind e \<in> {None, Some KSet}"
  by (cases e rule: as_str.cases, auto simp: entry_kind_def) (cases e rule: as_hash.cases, auto simp: entry_kind_def,
      cases e rule: as_list.cases, auto simp: entry_kind_def, cases e rule: as_set.cases, auto simp: entry_kind_def)

lemma guarded_wf:
  "wf_entry e \<Longrightarrow> (\<And>v. as e = Some v \<Longrightarrow> wf_entry (snd (f v))) \<Longrightarrow> wf_entry (snd (guarded as bad f e))"
  by (simp add: guarded_def split: option.split)

lemma entry_spec_wf:
  assumes "wf_entry e" shows "wf_entry (snd (entry_spec frac arity op e))"
  using assms
  by (cases op) (auto intro!: guarded_wf simp: wf_entry_def [of None] wf_entry_def [of "Some (RStr _, _)"]
      wf_entry_def [of "Some (_, True)"] wf_entry_def [of "Some _"] split: option.split list.split)

definition keeps_kind :: "entry option \<Rightarrow> entry option \<Rightarrow> bool" where
  "keeps_kind e e' \<longleftrightarrow> e = None \<or> e' = None \<or> entry_kind e' = entry_kind e"

lemma guarded_keeps_kind:
  "(\<And>v. as e = Some v \<Longrightarrow> keeps_kind e (snd (f v))) \<Longrightarrow> keeps_kind e (snd (guarded as bad f e))"
  by (simp add: guarded_def keeps_kind_def split: option.split)

lemma changed_keeps_kind:
  "as_hash e = Some h \<Longrightarrow> keeps_kind e (changed e (RHash h'))"
  "as_list e = Some xs \<Longrightarrow> keeps_kind e (changed e (RList xs'))"
  "as_set e = Some ys \<Longrightarrow> keeps_kind e (changed e (RSet ys'))"
  using as_kind(2-4) [of e] by (auto simp: keeps_kind_def changed_def entry_kind_def)

lemma keeps_kind_simps [simp]: "keeps_kind e e" "keeps_kind None e" "keeps_kind e None" "keeps_kind (Some (v, x)) (Some (v, y))"
  by (simp_all add: keeps_kind_def entry_kind_def)

lemma entry_spec_kind:
  assumes "\<And>k b d. op \<noteq> OpSet k b d"
  shows "keeps_kind e (snd (entry_spec frac arity op e))"
  using assms
  by (cases op) (auto intro!: guarded_keeps_kind intro: changed_keeps_kind split: option.split list.split)

lemma as_wrong:
  "entry_kind e = Some \<kappa> \<Longrightarrow> \<kappa> \<noteq> KStr \<Longrightarrow> as_str e = None"
  "entry_kind e = Some \<kappa> \<Longrightarrow> \<kappa> \<noteq> KHash \<Longrightarrow> as_hash e = None"
  "entry_kind e = Some \<kappa> \<Longrightarrow> \<kappa> \<noteq> KList \<Longrightarrow> as_list e = None"
  "entry_kind e = Some \<kappa> \<Longrightarrow> \<kappa> \<noteq> KSet \<Longrightarrow> as_set e = None"
  using as_kind [of e] by (metis insertE option.distinct(1) option.exhaust option.inject singletonD)+

lemma entry_spec_wrong:
  assumes "op_kind op = Some \<kappa>" and "entry_kind e = Some \<kappa>'" and "\<kappa>' \<noteq> \<kappa>"
  shows "res_err (fst (entry_spec frac arity op e)) \<noteq> None \<and> snd (entry_spec frac arity op e) = e"
  using assms
  by (cases op) (auto simp: guarded_def as_wrong [OF assms(2)] split: option.split)

lemma op_kind_single: "op_kind op = Some \<kappa> \<Longrightarrow> \<not> is_OpDel op"
  by (cases op) simp_all

lemma store_step_del: "snd (store_step frac arity (OpDel ks) st) k \<in> {None, st k}"
  by (simp add: store_step_def restrict_map_def)

lemma store_step_wf:
  assumes "\<forall>k. wf_entry (st k)"
  shows "wf_entry (snd (store_step frac arity op st) k)"
proof (cases "is_OpDel op")
  case True
  then obtain ks where "op = OpDel ks" by (auto simp: is_OpDel_def)
  then have "snd (store_step frac arity op st) k = None \<or> snd (store_step frac arity op st) k = st k"
    using store_step_del [of frac arity ks st k] by simp
  then show ?thesis using assms by (auto simp: wf_entry_def)
next
  case False
  then show ?thesis using assms by (simp add: store_step_single entry_spec_wf)
qed

lemma store_step_kind:
  assumes "\<And>b d. op \<noteq> OpSet k b d"
  shows "keeps_kind (st k) (snd (store_step frac arity op st) k)"
proof (cases "is_OpDel op")
  case True
  then obtain ks where "op = OpDel ks" by (auto simp: is_OpDel_def)
  then show ?thesis using store_step_del [of frac arity ks st k] by auto
next
  case False
  show ?thesis
  proof (cases "k = hd (op_keys op)")
    case True
    then have "op \<noteq> OpSet k' b d" for k' b d using assms [of b d] by auto
    then show ?thesis using True False by (simp add: store_step_single entry_spec_kind)
  qed (simp add: store_step_single [OF False])
qed

lemma store_run_wf: "store_run frac arity st tr st' \<Longrightarrow> \<forall>k. wf_entry (st k) \<Longrightarrow> \<forall>k. wf_entry (st' k)"
proof (induction rule: store_run.induct)
  case (store_run_call op st res st' tr st'')
  then show ?case using store_step_wf [of st frac arity op] by simp
next
  case (store_run_lapse st st' tr st'')
  have "wf_entry (st' k)" for k
    using store_run_lapse.hyps(1) store_run_lapse.prems by (auto simp: lapses_def wf_entry_def dest: spec [of _ k])
  then show ?case using store_run_lapse.IH by blast
qed

text \<open>
  C24. Kinds are respected. In every run of a view that starts with a well-formed store (no empty
  hash, list or set) the store stays well-formed; no call but \<^verbatim>\<open>Set\<close> on the key itself, and no expiry,
  turns a value into one of another kind; and a method for one kind, called on a key that holds
  another, reports an error and leaves the store as it was.
\<close>

theorem view_kinds_respected:
  assumes "redis_server (cmd r) look arity" and "view_run look r frac s0 tr s"
    and "\<forall>k. wf_entry (view_store look r s0 k)"
    and "op_ok frac op" and "view_exec r frac op s = (res, t)"
  shows "(\<forall>k. wf_entry (view_store look r t k)) \<and>
    (\<forall>k. (\<forall>b d. op \<noteq> OpSet k b d) \<longrightarrow> view_store look r s k = None \<or> view_store look r t k = None \<or>
          entry_kind (view_store look r t k) = entry_kind (view_store look r s k)) \<and>
    (\<forall>\<kappa> \<kappa>'. op_kind op = Some \<kappa> \<and> entry_kind (view_store look r s (hd (op_keys op))) = Some \<kappa>' \<and> \<kappa>' \<noteq> \<kappa> \<longrightarrow>
          res_err res \<noteq> None \<and> view_store look r t = view_store look r s)"
proof (intro conjI allI impI)
  have step: "store_step frac arity op (view_store look r s) = (res, view_store look r t)"
    using redis_server.step_refines [OF assms(1) refl assms(4), of s] assms(5) by simp
  show "wf_entry (view_store look r t k)" for k
    using store_run_wf [OF view_run_store [OF assms(1,2)] assms(3)] store_step_wf [of "view_store look r s" frac arity op k] step
    by simp
  show "view_store look r s k = None \<or> view_store look r t k = None \<or>
      entry_kind (view_store look r t k) = entry_kind (view_store look r s k)" if "\<forall>b d. op \<noteq> OpSet k b d" for k
    using store_step_kind [of op k "view_store look r s" frac arity] that step by (simp add: keeps_kind_def)
  fix \<kappa> \<kappa>'
  assume k: "op_kind op = Some \<kappa> \<and> entry_kind (view_store look r s (hd (op_keys op))) = Some \<kappa>' \<and> \<kappa>' \<noteq> \<kappa>"
  then have "\<not> is_OpDel op" by (auto dest: op_kind_single)
  with step entry_spec_wrong [of op \<kappa> _ \<kappa>' frac arity] k
  show "res_err res \<noteq> None" and "view_store look r t = view_store look r s"
    by (auto simp: store_step_single)
qed

section \<open>A reference server\<close>

text \<open>
  A server with which the laws are shown to hold: it executes the commands above on a store, and
  answers every other command with a zero value.
\<close>

definition at_key :: "'a sem \<Rightarrow> string \<Rightarrow> store \<Rightarrow> 'a \<times> store" where
  "at_key sem k st = (case sem (st k) of (x, e) \<Rightarrow> (x, st(k := e)))"

definition ref_arity :: "string \<Rightarrow> rerr" where
  "ref_arity n = ErrClient (''ERR wrong number of arguments for '' @ n)"

definition arg_bytes :: "arg list \<Rightarrow> bytes list" where
  "arg_bytes as = map (\<lambda>a. case a of ABytes b \<Rightarrow> b | AStr t \<Rightarrow> t | _ \<Rightarrow> []) as"

definition arg_dur :: "arg list \<Rightarrow> int" where
  "arg_dur as = (case List.last as of ADur d \<Rightarrow> d | _ \<Rightarrow> 0)"

definition arg_int :: "arg \<Rightarrow> int" where
  "arg_int a = (case a of AInt i \<Rightarrow> sint i | _ \<Rightarrow> 0)"

definition variadic :: "string \<Rightarrow> 'x list \<Rightarrow> 'a \<Rightarrow> ('a \<times> rerr option) sem \<Rightarrow> ('a \<times> rerr option) sem" where
  "variadic n xs zero sem = (if xs = [] then arity_error zero (ref_arity n) else sem)"

definition ref_int_sem :: "string \<Rightarrow> arg list \<Rightarrow> (int \<times> rerr option) sem" where
  "ref_int_sem n as =
     (let xs = arg_bytes as in
      if n = ''EXISTS'' then (\<lambda>e. ((if e = None then 0 else 1, None), e))
      else if n = ''HSET'' then
        (\<lambda>e. typed as_hash 0 (\<lambda>h. ((if h (xs ! 0) = None then 1 else 0, None), changed e (RHash (h(xs ! 0 \<mapsto> xs ! 1))))) e)
      else if n = ''HDEL'' then variadic n as 0
        (\<lambda>e. typed as_hash 0 (\<lambda>h. ((int (card (set xs \<inter> dom h)), None), changed e (RHash (h |` (- set xs))))) e)
      else if n = ''HLEN'' then (\<lambda>e. typed as_hash 0 (\<lambda>h. ((int (card (dom h)), None), e)) e)
      else if n = ''LPUSH'' then variadic n as 0
        (\<lambda>e. typed as_list 0 (\<lambda>ys. ((int (length xs + length ys), None), changed e (RList (rev xs @ ys)))) e)
      else if n = ''RPUSH'' then variadic n as 0
        (\<lambda>e. typed as_list 0 (\<lambda>ys. ((int (length ys + length xs), None), changed e (RList (ys @ xs)))) e)
      else if n = ''LLEN'' then (\<lambda>e. typed as_list 0 (\<lambda>ys. ((int (length ys), None), e)) e)
      else if n = ''SADD'' then variadic n as 0
        (\<lambda>e. typed as_set 0 (\<lambda>ys. ((int (card (set xs - ys)), None), changed e (RSet (ys \<union> set xs)))) e)
      else if n = ''SREM'' then variadic n as 0
        (\<lambda>e. typed as_set 0 (\<lambda>ys. ((int (card (ys \<inter> set xs)), None), changed e (RSet (ys - set xs)))) e)
      else if n = ''SCARD'' then (\<lambda>e. typed as_set 0 (\<lambda>ys. ((int (card ys), None), e)) e)
      else (\<lambda>e. ((0, None), e)))"

definition ref_int :: "(store, int) redis_cmd" where
  "ref_int q st =
     (if req_name q = ''DEL'' then
        (if req_keys q = [] then ((0, Some (ref_arity ''DEL'')), st)
         else ((int (card (set (req_keys q) \<inter> dom st)), None), st |` (- set (req_keys q))))
      else case req_keys q of [k] \<Rightarrow> at_key (ref_int_sem (req_name q) (req_args q)) k st | _ \<Rightarrow> ((0, None), st))"

definition ref_bool_sem :: "string \<Rightarrow> arg list \<Rightarrow> (bool \<times> rerr option) sem" where
  "ref_bool_sem n as =
     (let xs = arg_bytes as in
      if n = ''SETNX'' then
        (\<lambda>e. if e = None then ((True, None), Some (RStr (xs ! 0), 0 < arg_dur as)) else ((False, None), e))
      else if n = ''EXPIRE'' then
        (\<lambda>e. case e of None \<Rightarrow> ((False, None), None)
           | Some (v, _) \<Rightarrow> ((True, None), if 0 < arg_dur as then Some (v, True) else None))
      else if n = ''HSETNX'' then
        (\<lambda>e. typed as_hash False
           (\<lambda>h. if h (xs ! 0) = None then ((True, None), changed e (RHash (h(xs ! 0 \<mapsto> xs ! 1)))) else ((False, None), e)) e)
      else if n = ''HMSET'' then
        (case as of
           [AFields m] \<Rightarrow> (if m = Map.empty then arity_error False (ref_arity n)
                           else (\<lambda>e. typed as_hash False (\<lambda>h. ((True, None), changed e (RHash (h ++ m)))) e))
         | _ \<Rightarrow> (\<lambda>e. ((False, None), e)))
      else if n = ''HEXISTS'' then (\<lambda>e. typed as_hash False (\<lambda>h. ((h (xs ! 0) \<noteq> None, None), e)) e)
      else (\<lambda>e. ((False, None), e)))"

definition ref_string_sem :: "string \<Rightarrow> arg list \<Rightarrow> (string \<times> rerr option) sem" where
  "ref_string_sem n as =
     (let xs = arg_bytes as; answer = (\<lambda>x. case x of None \<Rightarrow> ([], Some redis_nil) | Some v \<Rightarrow> (v, None)) in
      if n = ''SET'' then (\<lambda>e. ((''OK'', None), Some (RStr (xs ! 0), 0 < arg_dur as)))
      else if n = ''GET'' then (\<lambda>e. typed as_str [] (\<lambda>v. (answer v, e)) e)
      else if n = ''HGET'' then (\<lambda>e. typed as_hash [] (\<lambda>h. (answer (h (xs ! 0)), e)) e)
      else if n = ''LPOP'' then
        (\<lambda>e. typed as_list [] (\<lambda>ys. case ys of [] \<Rightarrow> (([], Some redis_nil), e) | y # zs \<Rightarrow> ((y, None), changed e (RList zs))) e)
      else if n = ''RPOP'' then
        (\<lambda>e. typed as_list [] (\<lambda>ys. if ys = [] then (([], Some redis_nil), e)
               else ((List.last ys, None), changed e (RList (butlast ys)))) e)
      else if n = ''LINDEX'' then (\<lambda>e. typed as_list [] (\<lambda>ys. (answer (lindex (arg_int (as ! 0)) ys), e)) e)
      else (\<lambda>e. (([], None), e)))"

definition ref_strings_sem :: "string \<Rightarrow> arg list \<Rightarrow> (string list \<times> rerr option) sem" where
  "ref_strings_sem n as =
     (if n = ''LRANGE'' then (\<lambda>e. typed as_list [] (\<lambda>ys. ((lrange (arg_int (as ! 0)) (arg_int (as ! 1)) ys, None), e)) e)
      else (\<lambda>e. (([], None), e)))"

definition ref_map_sem :: "string \<Rightarrow> arg list \<Rightarrow> ((string \<rightharpoonup> string) \<times> rerr option) sem" where
  "ref_map_sem n as =
     (if n = ''HGETALL'' then (\<lambda>e. typed as_hash Map.empty (\<lambda>h. ((h, None), e)) e) else (\<lambda>e. ((Map.empty, None), e)))"

definition on_first :: "'a \<Rightarrow> (string \<Rightarrow> arg list \<Rightarrow> ('a \<times> rerr option) sem) \<Rightarrow> (store, 'a) redis_cmd" where
  "on_first zero sem q st = (case req_keys q of [k] \<Rightarrow> at_key (sem (req_name q) (req_args q)) k st | _ \<Rightarrow> ((zero, None), st))"

definition ref_client :: "store RedisCmd" where
  "ref_client = \<lparr>intCmd = ref_int, boolCmd = on_first False ref_bool_sem, stringCmd = on_first [] ref_string_sem,
     stringsCmd = on_first [] ref_strings_sem, scanCmd = (\<lambda>q s. ((([], 0), None), s)), mapCmd = on_first Map.empty ref_map_sem,
     ifacesCmd = (\<lambda>q s. (([], None), s)), zsCmd = (\<lambda>q s. (([], None), s)), floatCmd = (\<lambda>q s. ((0, None), s)),
     geosCmd = (\<lambda>q s. (([], None), s)), posCmd = (\<lambda>q s. (([], None), s)), subscribeCap = None, psubscribeCap = None\<rparr>"

lemma on_key_at_key: "on_key (at_key sem k) (\<lambda>s. s) k sem"
  by (simp add: on_key_def at_key_def case_prod_unfold)

lemma arg_bytes_map [simp]: "arg_bytes (map ABytes vs) = vs" "arg_bytes (map AStr vs) = vs"
  by (simp_all add: arg_bytes_def comp_def)

lemma ref_client_sel [simp]:
  "intCmd ref_client = ref_int" "boolCmd ref_client = on_first False ref_bool_sem"
  "stringCmd ref_client = on_first [] ref_string_sem" "stringsCmd ref_client = on_first [] ref_strings_sem"
  "mapCmd ref_client = on_first Map.empty ref_map_sem"
  by (simp_all add: ref_client_def)

lemma on_first_key: "sem n as = f \<Longrightarrow> on_key (on_first zero sem (Req n [k] as)) (\<lambda>s. s) k f"
  using on_key_at_key [of "sem n as" k] by (simp add: on_key_def on_first_def)

lemma ref_int_key: "n \<noteq> ''DEL'' \<Longrightarrow> ref_int_sem n as = f \<Longrightarrow> on_key (ref_int (Req n [k] as)) (\<lambda>s. s) k f"
  using on_key_at_key [of "ref_int_sem n as" k] by (simp add: on_key_def ref_int_def)

lemmas ref_defs = ref_int_sem_def ref_bool_sem_def ref_string_sem_def ref_strings_sem_def ref_map_sem_def
  variadic_def Let_def arg_dur_def arg_int_def

interpretation ref: redis_server ref_client "\<lambda>s. s" ref_arity
  by (unfold_locales, unfold ref_client_sel)
    ((rule on_first_key, simp add: ref_defs arg_bytes_def cong: if_cong)
     | (rule ref_int_key, simp, simp add: ref_defs arg_bytes_def comp_def cong: if_cong)
     | (simp add: ref_int_def))+

text \<open>What the interface promises, for the views of that server.\<close>

lemma ref_queue:
  assumes "st (expandKey (NewRedisView ref_client p) k) = None"
  shows "ref.view.pops p frac (length vs) k (snd (LAppend (NewRedisView ref_client p) k vs st)) = map (\<lambda>x. VBytes x None) vs"
  using ref.view.queue_fifo [of p st k frac vs] assms by (simp add: view_store_def)

text \<open>
  A run with an expiry, on a server that also has a key of somebody else: a string is set and read,
  used as a hash, and asked for again after it has expired.
\<close>

definition demo_view :: "store redisView" where "demo_view = NewRedisView ref_client ''app''"
definition demo_frac :: "nat \<Rightarrow> nat \<Rightarrow> nat \<Rightarrow> nat" where "demo_frac f u sc = 0"
definition demo_start :: store where "demo_start = [''other'' \<mapsto> (RStr ''x'', False)]"
definition demo_set :: store where "demo_set = demo_start(''app:n'' \<mapsto> (RStr ''1'', True))"

definition demo_dur :: string where "demo_dur = Duration_String (int 10 * 1000000000)"

lemma demo_duration: "ParseDuration demo_frac demo_dur = Some 10000000000" "demo_dur \<noteq> []"
proof -
  show p: "ParseDuration demo_frac demo_dur = Some 10000000000"
    unfolding demo_dur_def by (subst ParseDuration_String) simp_all
  show "demo_dur \<noteq> []"
  proof
    assume "demo_dur = []"
    with p show False by (simp add: ParseDuration_def)
  qed
qed

lemma demo_cmd: "cmd demo_view = ref_client"
  by (simp add: demo_view_def NewRedisView_def)

lemma demo_key: "expandKey demo_view k = ''app:'' @ k"
  by (simp add: demo_view_def NewRedisView_def expandKey_def RedisKeySep_def)

lemma demo_steps:
  "view_exec demo_view demo_frac (OpSet ''n'' ''1'' demo_dur) demo_start = (VErr None, demo_set)"
  "view_exec demo_view demo_frac (OpGet ''n'') demo_set = (VBytes ''1'' None, demo_set)"
  "view_exec demo_view demo_frac (OpHSet ''n'' ''f'' ''v'') demo_set = (VErr (Some wrong_type), demo_set)"
  "view_exec demo_view demo_frac (OpGet ''n'') demo_start = (VBytes [] (Some redis_nil), demo_start)"
  by (simp_all add: Set_def Get_def HSet_def apfst_forms demo_duration demo_cmd demo_key on_first_def ref_int_def at_key_def
      ref_defs arg_bytes_def contract_defs demo_start_def demo_set_def fun_eq_iff)

lemma demo_run:
  "view_run (\<lambda>s. s) demo_view demo_frac demo_start
     [(OpSet ''n'' ''1'' demo_dur, VErr None), (OpGet ''n'', VBytes ''1'' None),
      (OpHSet ''n'' ''f'' ''v'', VErr (Some wrong_type)), (OpGet ''n'', VBytes [] (Some redis_nil))] demo_start"
proof -
  have "lapses (view_store (\<lambda>s. s) demo_view demo_set) (view_store (\<lambda>s. s) demo_view demo_start)"
    by (auto simp: lapses_def view_store_def demo_key demo_set_def demo_start_def volatile_def)
  then show ?thesis
    by (intro view_run_call [OF _ demo_steps(1)] view_run_call [OF _ demo_steps(2)] view_run_call [OF _ demo_steps(3)]
        view_run_env [where t = demo_start and s = demo_set] view_run_call [OF _ demo_steps(4)] view_run_end)
      (simp_all add: duration_of_def demo_duration)
qed

theorem view_is_private_store_witness:
  "store_run demo_frac ref_arity Map.empty
     [(OpSet ''n'' ''1'' demo_dur, VErr None), (OpGet ''n'', VBytes ''1'' None),
      (OpHSet ''n'' ''f'' ''v'', VErr (Some wrong_type)), (OpGet ''n'', VBytes [] (Some redis_nil))] Map.empty"
proof -
  have "view_store (\<lambda>s. s) demo_view demo_start = Map.empty"
    by (auto simp: view_store_def demo_key demo_start_def)
  with view_is_private_store [OF _ demo_run, of ref_arity] ref.redis_server_axioms show ?thesis by (simp add: demo_cmd)
qed

theorem view_kinds_respected_witness:
  "\<exists>res t. view_exec demo_view demo_frac (OpHSet ''n'' ''f'' ''v'') demo_set = (res, t) \<and> res_err res \<noteq> None \<and>
     view_store (\<lambda>s. s) demo_view t = view_store (\<lambda>s. s) demo_view demo_set"
proof -
  have run: "view_run (\<lambda>s. s) demo_view demo_frac demo_start [(OpSet ''n'' ''1'' demo_dur, VErr None)] demo_set"
    by (intro view_run_call [OF _ demo_steps(1)] view_run_end) (simp add: duration_of_def demo_duration)
  have wf: "\<forall>k. wf_entry (view_store (\<lambda>s. s) demo_view demo_start k)"
    by (simp add: view_store_def demo_key demo_start_def wf_entry_def)
  have kind: "entry_kind (view_store (\<lambda>s. s) demo_view demo_set ''n'') = Some KStr"
    by (simp add: view_store_def demo_key demo_set_def entry_kind_def)
  obtain res t where e: "view_exec demo_view demo_frac (OpHSet ''n'' ''f'' ''v'') demo_set = (res, t)"
    by (metis prod.collapse)
  from view_kinds_respected [OF _ run wf _ e, of ref_arity] ref.redis_server_axioms kind
  have "res_err res \<noteq> None \<and> view_store (\<lambda>s. s) demo_view t = view_store (\<lambda>s. s) demo_view demo_set"
    by (simp add: demo_cmd)
  with e show ?thesis by blast
qed

end
