(* ===== verification/Message_Queue.thy ===== *)
theory Message_Queue
  imports Prelude
begin

text \<open>
  \<^verbatim>\<open>queue/message_sender.go\<close> and \<^verbatim>\<open>queue/message_revice.go\<close>: the sending and the receiving end of
  a websocket, with the message type of \<^verbatim>\<open>protocol/ws_message.go\<close> and the codec of \<^verbatim>\<open>codec\<close>.

  Both ends are event machines (theory \<^verbatim>\<open>Prelude\<close>): a goroutine of the source is a program counter
  in the state, an event is one atomic step of one goroutine. A \<^verbatim>\<open>select\<close> is modelled by one event
  per case, enabled when that case is ready; when several are ready each may be taken, as in Go.
  The websocket connection is the environment: each write succeeds or fails by the event. Log
  output and write deadlines are not modelled. The state carries two ghost lists: the messages
  \<^verbatim>\<open>SendRawBytes\<close> accepted, and the frames written to the connection.
\<close>

section \<open>Messages and codec\<close>

record Message =
  Main :: string
  Sub :: string
  Payload :: string

definition GetPayload :: "Message \<Rightarrow> string" where "GetPayload m = Payload m"
definition GetMain :: "Message \<Rightarrow> string" where "GetMain m = Main m"
definition GetSub :: "Message \<Rightarrow> string" where "GetSub m = Sub m"

text \<open>
  \<open>marshal\<close> and \<open>unmarshal\<close> stand for the JSON encoder behind \<^verbatim>\<open>utils.Struct2Bytes\<close> and
  \<^verbatim>\<open>utils.Bytes2Struct\<close>, \<open>proto_marshal\<close> for \<^verbatim>\<open>proto.Marshal\<close>; \<open>None\<close> is an error.
\<close>

definition NewJsonMessage :: "('d \<Rightarrow> string option) \<Rightarrow> string \<Rightarrow> string \<Rightarrow> 'd \<Rightarrow> Message option" where
  "NewJsonMessage marshal main sub data =
     (case marshal data of None \<Rightarrow> None | Some payload \<Rightarrow> Some \<lparr>Main = main, Sub = sub, Payload = payload\<rparr>)"

definition NewProtobufMessage :: "('d \<Rightarrow> bytes option) \<Rightarrow> string \<Rightarrow> string \<Rightarrow> 'd \<Rightarrow> Message option" where
  "NewProtobufMessage proto_marshal main sub msg =
     (case proto_marshal msg of None \<Rightarrow> None | Some payload \<Rightarrow> Some \<lparr>Main = main, Sub = sub, Payload = payload\<rparr>)"

definition DefaultHandlerMessage ::
  "(string \<Rightarrow> string option) \<Rightarrow> (Message option \<Rightarrow> string option) \<Rightarrow> Message \<Rightarrow> string option" where
  "DefaultHandlerMessage marshal_str marshal_msg msg =
     (let result = ''you send message '' @ GetPayload msg @ '':'';
          resultMsg = NewJsonMessage marshal_str ''system'' ''echo'' result
      in marshal_msg resultMsg)"

definition JsonCodec_Decode :: "(bytes \<Rightarrow> Message option) \<Rightarrow> bytes \<Rightarrow> Message option" where
  "JsonCodec_Decode unmarshal data = (case unmarshal data of None \<Rightarrow> None | Some msg \<Rightarrow> Some msg)"

definition JsonCodec_Encode :: "(Message \<Rightarrow> string option) \<Rightarrow> Message \<Rightarrow> string option" where
  "JsonCodec_Encode marshal message' = (case marshal message' of None \<Rightarrow> None | Some b \<Rightarrow> Some b)"

section \<open>The sender\<close>

datatype wire_frame = WText bytes | WPing | WClose

text \<open>Where the goroutine of \<^verbatim>\<open>sendPump\<close> is: at the \<^verbatim>\<open>select\<close>, in a write, or returned.\<close>

datatype pump = PSelect | PWrite bytes | PPing | PClose | PDone

text \<open>Where a call of \<^verbatim>\<open>Stop\<close> is: before each of its five effects, returned, or panicked.\<close>

datatype stop_pc = StCancel | StTicker | StCloseChan | StWait | StCloseClosed | StReturned | StPanicked

record MessageSender =
  sendChan :: "bytes chan"
  ctx_done :: bool
  ticker_on :: bool
  tick :: bool
  pumps :: "pump list"
  stops :: "stop_pc list"
  closed :: "unit chan"
  accepted :: "bytes list"
  wire :: "wire_frame list"

definition NewMessageSender :: MessageSender where
  "NewMessageSender = \<lparr>sendChan = make_chan 256, ctx_done = False, ticker_on = True, tick = False,
     pumps = [], stops = [], closed = make_chan 0, accepted = [], wire = []\<rparr>"

text \<open>\<^verbatim>\<open>Start\<close>: one more goroutine.\<close>

definition Start :: "MessageSender \<Rightarrow> MessageSender" where
  "Start s = s\<lparr>pumps := pumps s @ [PSelect]\<rparr>"

text \<open>
  \<^verbatim>\<open>SendRawBytes\<close>, one result per \<^verbatim>\<open>select\<close> case: queued, cancelled, timed out (the timer can
  only win while the buffer is full), or the panic of a send on the closed channel.
\<close>

datatype send_case = CaseSend | CaseDone | CaseTimeout
datatype send_ret = SendNil | SendCancelled | SendDeadlineExceeded | SendPanicked

definition SendRawBytes :: "bytes \<Rightarrow> send_case \<Rightarrow> MessageSender \<Rightarrow> (send_ret \<times> MessageSender) option" where
  "SendRawBytes data c s =
     (case c of
        CaseSend \<Rightarrow>
          (case chan_send data (sendChan s) of
             Sent ch \<Rightarrow> Some (SendNil, s\<lparr>sendChan := ch, accepted := accepted s @ [data]\<rparr>)
           | SendPanics \<Rightarrow> Some (SendPanicked, s)
           | SendBlocks \<Rightarrow> None)
      | CaseDone \<Rightarrow> if ctx_done s then Some (SendCancelled, s) else None
      | CaseTimeout \<Rightarrow>
          (case chan_send data (sendChan s) of
             SendBlocks \<Rightarrow> Some (SendDeadlineExceeded, s)
           | _ \<Rightarrow> None))"

definition SendMessage ::
  "(Message \<Rightarrow> string option) \<Rightarrow> Message \<Rightarrow> send_case \<Rightarrow> MessageSender \<Rightarrow> (send_ret option \<times> MessageSender) option" where
  "SendMessage encode msg c s =
     (case encode msg of
        None \<Rightarrow> Some (None, s)
      | Some data \<Rightarrow> (case SendRawBytes data c s of None \<Rightarrow> None | Some (r, t) \<Rightarrow> Some (Some r, t)))"

definition IsRunning :: "MessageSender \<Rightarrow> bool" where
  "IsRunning s = (if ctx_done s then False else True)"

text \<open>The steps of \<^verbatim>\<open>sendPump\<close>; \<open>ok\<close> says whether the write succeeds.\<close>

datatype pump_case = TakeMessage | TakeTick | TakeDone | WriteFrame bool

definition sendPump :: "nat \<Rightarrow> pump_case \<Rightarrow> MessageSender \<Rightarrow> MessageSender option" where
  "sendPump i c s =
     (if length (pumps s) \<le> i then None
      else case (pumps s ! i, c) of
        (PSelect, TakeMessage) \<Rightarrow>
          (case chan_recv (sendChan s) of
             Received m ch \<Rightarrow> Some (s\<lparr>sendChan := ch, pumps := (pumps s)[i := PWrite m]\<rparr>)
           | RecvClosed \<Rightarrow> Some (s\<lparr>pumps := (pumps s)[i := PClose]\<rparr>)
           | RecvBlocks \<Rightarrow> None)
      | (PSelect, TakeTick) \<Rightarrow>
          if tick s then Some (s\<lparr>tick := False, pumps := (pumps s)[i := PPing]\<rparr>) else None
      | (PSelect, TakeDone) \<Rightarrow>
          if ctx_done s then Some (s\<lparr>pumps := (pumps s)[i := PDone]\<rparr>) else None
      | (PWrite m, WriteFrame ok) \<Rightarrow>
          Some (if ok then s\<lparr>wire := wire s @ [WText m], pumps := (pumps s)[i := PSelect]\<rparr>
                else s\<lparr>pumps := (pumps s)[i := PDone]\<rparr>)
      | (PPing, WriteFrame ok) \<Rightarrow>
          Some (if ok then s\<lparr>wire := wire s @ [WPing], pumps := (pumps s)[i := PSelect]\<rparr>
                else s\<lparr>pumps := (pumps s)[i := PDone]\<rparr>)
      | (PClose, WriteFrame ok) \<Rightarrow>
          Some (s\<lparr>wire := (if ok then wire s @ [WClose] else wire s), pumps := (pumps s)[i := PDone]\<rparr>)
      | _ \<Rightarrow> None)"

text \<open>
  The steps of \<^verbatim>\<open>Stop\<close>. \<^verbatim>\<open>wg.Wait\<close> passes when every pump has returned; a second close of a
  channel panics.
\<close>

definition Stop :: "nat \<Rightarrow> MessageSender \<Rightarrow> MessageSender option" where
  "Stop j s =
     (if length (stops s) \<le> j then None
      else case stops s ! j of
        StCancel \<Rightarrow> Some (s\<lparr>ctx_done := True, stops := (stops s)[j := StTicker]\<rparr>)
      | StTicker \<Rightarrow> Some (s\<lparr>ticker_on := False, stops := (stops s)[j := StCloseChan]\<rparr>)
      | StCloseChan \<Rightarrow>
          (case chan_close (sendChan s) of
             None \<Rightarrow> Some (s\<lparr>stops := (stops s)[j := StPanicked]\<rparr>)
           | Some ch \<Rightarrow> Some (s\<lparr>sendChan := ch, stops := (stops s)[j := StWait]\<rparr>))
      | StWait \<Rightarrow> if list_all (\<lambda>p. p = PDone) (pumps s) then Some (s\<lparr>stops := (stops s)[j := StCloseClosed]\<rparr>) else None
      | StCloseClosed \<Rightarrow>
          (case chan_close (closed s) of
             None \<Rightarrow> Some (s\<lparr>stops := (stops s)[j := StPanicked]\<rparr>)
           | Some ch \<Rightarrow> Some (s\<lparr>closed := ch, stops := (stops s)[j := StReturned]\<rparr>))
      | _ \<Rightarrow> None)"

datatype sender_event =
    EvStart
  | EvSend bytes send_case
  | EvTick
  | EvPump nat pump_case
  | EvStopCall
  | EvStop nat

fun sender_step :: "sender_event \<Rightarrow> MessageSender \<Rightarrow> MessageSender option" where
  "sender_step EvStart s = Some (Start s)"
| "sender_step (EvSend data c) s = map_option snd (SendRawBytes data c s)"
| "sender_step EvTick s = (if ticker_on s then Some (s\<lparr>tick := True\<rparr>) else None)"
| "sender_step (EvPump i c) s = sendPump i c s"
| "sender_step EvStopCall s = Some (s\<lparr>stops := stops s @ [StCancel]\<rparr>)"
| "sender_step (EvStop j) s = Stop j s"

section \<open>The receiver\<close>

text \<open>
  Where a goroutine of \<^verbatim>\<open>processMessage\<close> is: before its first check, the call of the processor, the
  second check, the look at the sender, the call of \<^verbatim>\<open>IsRunning\<close> and that of \<^verbatim>\<open>SendRawBytes\<close>. The
  processor and the sender are set or nil, and a call on nil panics; the processor's answer comes
  with the event.
\<close>

datatype proc =
    RStart Message | RHandling Message | RReply string | RChecked string | RAsking string | RSending string
  | RDone | RProcPanicked

datatype recv_pump = RSelect | RReading | RReturned | RPanicked

record MessageReceiver =
  messageChan :: "Message chan"
  rctx_done :: bool
  processor :: bool
  rsender :: bool
  rpumps :: "recv_pump list"
  procs :: "proc list"
  rstops :: "stop_pc list"
  rclosed :: "unit chan"
  decoded :: "Message list"
  replies :: "string list"

definition NewMessageReceiver :: "bool \<Rightarrow> MessageReceiver" where
  "NewMessageReceiver p = \<lparr>messageChan = make_chan 100, rctx_done = False, processor = p, rsender = False,
     rpumps = [], procs = [], rstops = [], rclosed = make_chan 0, decoded = [], replies = []\<rparr>"

definition Receiver_Start :: "MessageReceiver \<Rightarrow> MessageReceiver" where
  "Receiver_Start r = r\<lparr>rpumps := rpumps r @ [RSelect]\<rparr>"

definition SetProcessor :: "bool \<Rightarrow> MessageReceiver \<Rightarrow> MessageReceiver" where
  "SetProcessor p r = r\<lparr>processor := p\<rparr>"

definition SetSender :: "bool \<Rightarrow> MessageReceiver \<Rightarrow> MessageReceiver" where
  "SetSender b r = r\<lparr>rsender := b\<rparr>"

definition GetMessageChan :: "MessageReceiver \<Rightarrow> Message chan" where
  "GetMessageChan r = messageChan r"

definition Receiver_IsRunning :: "MessageReceiver \<Rightarrow> bool" where
  "Receiver_IsRunning r = (if rctx_done r then False else True)"

text \<open>
  \<^verbatim>\<open>handleRawMessage\<close>. Its \<^verbatim>\<open>select\<close> has a default case: it queues the message when there is room,
  leaves when the context is done, and otherwise drops the message; with room and a done context
  either case may be taken (\<open>prefer_done\<close>).
\<close>

definition handleRawMessage ::
  "(bytes \<Rightarrow> Message option) \<Rightarrow> bytes \<Rightarrow> bool \<Rightarrow> MessageReceiver \<Rightarrow> (unit, MessageReceiver) outcome" where
  "handleRawMessage decode data prefer_done r =
     (if length data = 0 then Returns r
      else case decode data of
        None \<Rightarrow> Returns r
      | Some msg \<Rightarrow>
          (let r0 = r\<lparr>decoded := decoded r @ [msg]\<rparr>;
               spawn = (\<lambda>x. if processor x then x\<lparr>procs := procs x @ [RStart msg]\<rparr> else x)
           in if rctx_done r \<and> prefer_done then Returns r0
              else case chan_send msg (messageChan r) of
                SendPanics \<Rightarrow> Panics ()
              | Sent ch \<Rightarrow> Returns (spawn (r0\<lparr>messageChan := ch\<rparr>))
              | SendBlocks \<Rightarrow> if rctx_done r then Returns r0 else Returns (spawn r0)))"

text \<open>\<^verbatim>\<open>receivePump\<close>: the check of the context, then a blocking read that ends with data or an error.\<close>

datatype read_result = ReadData bytes bool | ReadError

definition receivePump ::
  "(bytes \<Rightarrow> Message option) \<Rightarrow> nat \<Rightarrow> read_result option \<Rightarrow> MessageReceiver \<Rightarrow> MessageReceiver option" where
  "receivePump decode i ev r =
     (if length (rpumps r) \<le> i then None
      else case (rpumps r ! i, ev) of
        (RSelect, None) \<Rightarrow>
          Some (r\<lparr>rpumps := (rpumps r)[i := (if rctx_done r then RReturned else RReading)]\<rparr>)
      | (RReading, Some ReadError) \<Rightarrow> Some (r\<lparr>rpumps := (rpumps r)[i := RReturned]\<rparr>)
      | (RReading, Some (ReadData data pd)) \<Rightarrow>
          (case handleRawMessage decode data pd r of
             Panics _ \<Rightarrow> Some (r\<lparr>rpumps := (rpumps r)[i := RPanicked]\<rparr>)
           | Returns t \<Rightarrow> Some (t\<lparr>rpumps := (rpumps t)[i := RSelect]\<rparr>))
      | _ \<Rightarrow> None)"

text \<open>
  \<^verbatim>\<open>processMessage\<close>: first check of the context; the handler; second check; the reply. \<open>answer\<close>
  is what the processor returned (\<open>None\<close> an error), \<open>running\<close> what the sender's \<^verbatim>\<open>IsRunning\<close>
  returned; the reply is handed to the sender's \<^verbatim>\<open>SendRawBytes\<close> (theory \<^verbatim>\<open>Endpoint\<close> joins the two). The
  processor and the sender are read again at each use: when one was unset after the check, the call
  on it panics. The processor itself returns.
\<close>

definition processMessage :: "nat \<Rightarrow> string option \<Rightarrow> bool \<Rightarrow> MessageReceiver \<Rightarrow> MessageReceiver option" where
  "processMessage i answer running r =
     (if length (procs r) \<le> i then None
      else let goto = (\<lambda>p x. Some (x\<lparr>procs := (procs x)[i := p]\<rparr>))
           in case procs r ! i of
                RStart m \<Rightarrow> goto (if rctx_done r then RDone else RHandling m) r
              | RHandling m \<Rightarrow>
                  if \<not> processor r then goto RProcPanicked r
                  else goto (case answer of None \<Rightarrow> RDone | Some a \<Rightarrow> RReply a) r
              | RReply a \<Rightarrow> goto (if rctx_done r then RDone else RChecked a) r
              | RChecked a \<Rightarrow> goto (if rsender r \<and> a \<noteq> [] then RAsking a else RDone) r
              | RAsking a \<Rightarrow>
                  if \<not> rsender r then goto RProcPanicked r
                  else goto (if running then RSending a else RDone) r
              | RSending a \<Rightarrow>
                  if \<not> rsender r then goto RProcPanicked r
                  else goto RDone (r\<lparr>replies := replies r @ [a]\<rparr>)
              | RDone \<Rightarrow> None
              | RProcPanicked \<Rightarrow> None)"

definition Receiver_Stop :: "nat \<Rightarrow> MessageReceiver \<Rightarrow> MessageReceiver option" where
  "Receiver_Stop j r =
     (if length (rstops r) \<le> j then None
      else case rstops r ! j of
        StCancel \<Rightarrow> Some (r\<lparr>rctx_done := True, rstops := (rstops r)[j := StWait]\<rparr>)
      | StWait \<Rightarrow> if list_all (\<lambda>p. p = RReturned) (rpumps r) then Some (r\<lparr>rstops := (rstops r)[j := StCloseChan]\<rparr>) else None
      | StCloseChan \<Rightarrow>
          (case chan_close (messageChan r) of
             None \<Rightarrow> Some (r\<lparr>rstops := (rstops r)[j := StPanicked]\<rparr>)
           | Some ch \<Rightarrow> Some (r\<lparr>messageChan := ch, rstops := (rstops r)[j := StCloseClosed]\<rparr>))
      | StCloseClosed \<Rightarrow>
          (case chan_close (rclosed r) of
             None \<Rightarrow> Some (r\<lparr>rstops := (rstops r)[j := StPanicked]\<rparr>)
           | Some ch \<Rightarrow> Some (r\<lparr>rclosed := ch, rstops := (rstops r)[j := StReturned]\<rparr>))
      | _ \<Rightarrow> None)"

datatype receiver_event =
    RvStart
  | RvPump nat "read_result option"
  | RvProcess nat "string option" bool
  | RvConsume
  | RvStopCall
  | RvStop nat
  | RvSetProcessor bool
  | RvSetSender bool

fun receiver_step :: "(bytes \<Rightarrow> Message option) \<Rightarrow> receiver_event \<Rightarrow> MessageReceiver \<Rightarrow> MessageReceiver option" where
  "receiver_step decode RvStart r = Some (Receiver_Start r)"
| "receiver_step decode (RvPump i ev) r = receivePump decode i ev r"
| "receiver_step decode (RvProcess i answer running) r = processMessage i answer running r"
| "receiver_step decode RvConsume r =
     (case chan_recv (messageChan r) of Received m ch \<Rightarrow> Some (r\<lparr>messageChan := ch\<rparr>) | RecvClosed \<Rightarrow> Some r | RecvBlocks \<Rightarrow> None)"
| "receiver_step decode RvStopCall r = Some (r\<lparr>rstops := rstops r @ [StCancel]\<rparr>)"
| "receiver_step decode (RvStop j) r = Receiver_Stop j r"
| "receiver_step decode (RvSetProcessor b) r = Some (SetProcessor b r)"
| "receiver_step decode (RvSetSender b) r = Some (SetSender b r)"

section \<open>Specification of the sender\<close>

text \<open>
  What a sender has to be: a log of accepted messages of which an initial piece has been
  delivered. \<open>QOut\<close> delivers the next accepted message; after \<open>QEnd\<close> nothing is delivered.
\<close>

record queue_spec =
  acc :: "bytes list"
  out :: "bytes list"
  ended :: bool

datatype queue_event = QPut bytes | QOut | QEnd

fun queue_step :: "queue_event \<Rightarrow> queue_spec \<Rightarrow> queue_spec option" where
  "queue_step (QPut x) q = Some (q\<lparr>acc := acc q @ [x]\<rparr>)"
| "queue_step QOut q =
     (if \<not> ended q \<and> length (out q) < length (acc q) then Some (q\<lparr>out := out q @ [acc q ! length (out q)]\<rparr>) else None)"
| "queue_step QEnd q = Some (q\<lparr>ended := True\<rparr>)"

interpretation queue_prefix: event_invariant queue_step "\<lambda>q. prefix (out q) (acc q)"
proof unfold_locales
  fix q e q'
  assume p: "prefix (out q) (acc q)" and st: "queue_step e q = Some q'"
  show "prefix (out q') (acc q')"
  proof (cases e)
    case QOut
    from p obtain zs where "acc q = out q @ zs" by (auto elim: prefixE)
    with st QOut show ?thesis by (cases zs) (auto split: if_splits)
  qed (use p st in \<open>auto intro: prefix_prefix\<close>)
qed

section \<open>Correctness of the sender\<close>

fun texts :: "wire_frame list \<Rightarrow> bytes list" where
  "texts [] = []"
| "texts (WText m # fs) = m # texts fs"
| "texts (_ # fs) = texts fs"

lemma texts_append [simp]: "texts (a @ b) = texts a @ texts b"
  by (induction a rule: texts.induct) auto

fun flight :: "pump list \<Rightarrow> bytes list" where
  "flight [PWrite m] = [m]"
| "flight _ = []"

text \<open>
  The documented use starts the sender once: \<open>single_step\<close> is a step of the sender in which
  \<^verbatim>\<open>Start\<close> is not called a second time.
\<close>

definition single_step :: "sender_event \<Rightarrow> MessageSender \<Rightarrow> MessageSender option" where
  "single_step e s = (if e = EvStart \<and> pumps s \<noteq> [] then None else sender_step e s)"

definition sender_inv :: "MessageSender \<Rightarrow> bool" where
  "sender_inv s \<longleftrightarrow>
     length (pumps s) \<le> 1 \<and> chan_ok (sendChan s) \<and> chan_cap (sendChan s) = 256 \<and>
     (pumps s \<noteq> [PDone] \<longrightarrow> accepted s = texts (wire s) @ flight (pumps s) @ chan_buf (sendChan s)) \<and>
     (pumps s = [PClose] \<longrightarrow> chan_closed (sendChan s) \<and> chan_buf (sendChan s) = []) \<and>
     (WClose \<in> set (wire s) \<longrightarrow> pumps s = [PDone] \<and> chan_closed (sendChan s) \<and> accepted s = texts (wire s))"

definition sender_abs :: "MessageSender \<Rightarrow> queue_spec" where
  "sender_abs s = \<lparr>acc = accepted s, out = texts (wire s), ended = (pumps s = [PDone])\<rparr>"

definition sender_evs :: "sender_event \<Rightarrow> MessageSender \<Rightarrow> queue_event list" where
  "sender_evs e s =
     (case e of
        EvSend data CaseSend \<Rightarrow> (case chan_send data (sendChan s) of Sent _ \<Rightarrow> [QPut data] | _ \<Rightarrow> [])
      | EvPump i c \<Rightarrow>
          (case (pumps s, c) of
             ([PWrite m], WriteFrame True) \<Rightarrow> [QOut]
           | ([PWrite m], WriteFrame False) \<Rightarrow> [QEnd]
           | ([PPing], WriteFrame False) \<Rightarrow> [QEnd]
           | ([PClose], WriteFrame _) \<Rightarrow> [QEnd]
           | ([PSelect], TakeDone) \<Rightarrow> [QEnd]
           | _ \<Rightarrow> [])
      | _ \<Rightarrow> [])"

lemma pumps_single: "length (pumps s) \<le> 1 \<Longrightarrow> \<not> length (pumps s) \<le> i \<Longrightarrow> \<exists>p. pumps s = [p] \<and> i = 0"
  by (cases "pumps s") auto

lemmas sender_defs = sender_inv_def sender_abs_def sender_evs_def chan_ok_def

lemma send_step:
  assumes "sender_inv s" and "SendRawBytes data c s = Some (r, t)"
  shows "sender_inv t \<and> run_events queue_step (sender_evs (EvSend data c) s) (sender_abs s) = Some (sender_abs t)"
proof (cases c)
  case CaseSend
  show ?thesis
  proof (cases "chan_closed (sendChan s) \<or> \<not> length (chan_buf (sendChan s)) < chan_cap (sendChan s)")
    case True
    with assms CaseSend have "t = s" and "sender_evs (EvSend data c) s = []"
      by (simp_all add: SendRawBytes_def chan_send_def sender_evs_def split: if_splits)
    with assms(1) show ?thesis by simp
  next
    case False
    with assms(2) CaseSend
    have t: "t = s\<lparr>sendChan := sendChan s\<lparr>chan_buf := chan_buf (sendChan s) @ [data]\<rparr>, accepted := accepted s @ [data]\<rparr>"
      by (simp add: SendRawBytes_def chan_send_def)
    have "sender_evs (EvSend data c) s = [QPut data]"
      using False CaseSend by (simp add: sender_evs_def chan_send_def)
    moreover have "sender_inv t"
      using assms(1) False by (simp add: t sender_inv_def chan_ok_def)
    ultimately show ?thesis by (simp add: t sender_abs_def)
  qed
next
  case CaseDone
  with assms show ?thesis by (simp add: SendRawBytes_def sender_evs_def split: if_splits)
next
  case CaseTimeout
  with assms show ?thesis
    by (simp add: SendRawBytes_def sender_evs_def split: send_result.splits)
qed

lemma pump_step:
  assumes "sender_inv s" and "sendPump i c s = Some t"
  shows "sender_inv t \<and> run_events queue_step (sender_evs (EvPump i c) s) (sender_abs s) = Some (sender_abs t)"
proof -
  from assms have "\<not> length (pumps s) \<le> i" by (auto simp: sendPump_def)
  moreover from assms(1) have "length (pumps s) \<le> 1" by (simp add: sender_inv_def)
  ultimately obtain p where p: "pumps s = [p]" "i = 0" using pumps_single by blast
  show ?thesis
    using assms p
    by (cases p; cases c)
      (auto simp: sender_defs sendPump_def chan_recv_def split: if_splits list.splits bool.splits)
qed

definition same_traffic :: "MessageSender \<Rightarrow> MessageSender \<Rightarrow> bool" where
  "same_traffic s t \<longleftrightarrow> pumps t = pumps s \<and> accepted t = accepted s \<and> wire t = wire s \<and>
     chan_buf (sendChan t) = chan_buf (sendChan s) \<and> chan_cap (sendChan t) = chan_cap (sendChan s) \<and>
     (chan_closed (sendChan s) \<longrightarrow> chan_closed (sendChan t))"

lemma same_traffic_inv: "same_traffic s t \<Longrightarrow> sender_inv s \<Longrightarrow> sender_inv t \<and> sender_abs t = sender_abs s"
  by (auto simp: same_traffic_def sender_inv_def sender_abs_def chan_ok_def)

lemma stop_same_traffic: "Stop j s = Some t \<Longrightarrow> same_traffic s t"
  by (cases "stops s ! j") (auto simp: Stop_def same_traffic_def chan_close_def split: if_splits)

lemma stop_step: "sender_inv s \<Longrightarrow> Stop j s = Some t \<Longrightarrow> sender_inv t \<and> sender_abs t = sender_abs s"
  using same_traffic_inv stop_same_traffic by blast

lemma single_step_simulates:
  assumes "sender_inv s" and "single_step e s = Some t"
  shows "sender_inv t \<and> run_events queue_step (sender_evs e s) (sender_abs s) = Some (sender_abs t)"
proof (cases e)
  case EvStart
  with assms show ?thesis by (auto simp: single_step_def Start_def sender_defs split: if_splits)
next
  case (EvSend data c)
  with assms show ?thesis by (auto simp: single_step_def intro!: send_step)
next
  case EvTick
  with assms show ?thesis by (auto simp: single_step_def sender_defs split: if_splits)
next
  case (EvPump i c)
  with assms show ?thesis by (auto simp: single_step_def intro!: pump_step)
next
  case EvStopCall
  with assms show ?thesis by (auto simp: single_step_def sender_defs)
next
  case (EvStop j)
  with assms stop_step [of s j t] show ?thesis by (auto simp: single_step_def sender_evs_def)
qed

interpretation sender: event_refinement single_step sender_inv queue_step sender_abs sender_evs
  by unfold_locales (use single_step_simulates in blast)+

lemma sender_inv_new: "sender_inv NewMessageSender"
  by (simp add: sender_defs NewMessageSender_def make_chan_def)

text \<open>
  C6. The sender is a first-in-first-out queue. In every run of a sender that is started once, with
  any number of concurrent callers of \<^verbatim>\<open>SendRawBytes\<close> and \<^verbatim>\<open>Stop\<close>, timer ticks and write
  failures, the messages written to the connection are an initial piece of the messages that
  were accepted, in that order and none twice; at most 256 messages wait; and a close frame is
  written only when every accepted message has been written before it.
\<close>

theorem sender_fifo:
  assumes "run_events single_step es NewMessageSender = Some s"
  shows "prefix (texts (wire s)) (accepted s) \<and> length (chan_buf (sendChan s)) \<le> 256 \<and>
         (WClose \<in> set (wire s) \<longrightarrow> texts (wire s) = accepted s)"
proof -
  obtain fs where "run_events queue_step fs (sender_abs NewMessageSender) = Some (sender_abs s)"
    using sender.run_refines [OF sender_inv_new assms] by blast
  then have "prefix (out (sender_abs s)) (acc (sender_abs s))"
    by (rule queue_prefix.run_keeps [rotated]) (simp add: sender_abs_def NewMessageSender_def)
  moreover have "sender_inv s" by (rule sender.run_keeps [OF sender_inv_new assms])
  ultimately show ?thesis by (auto simp: sender_abs_def sender_inv_def chan_ok_def)
qed

theorem sender_fifo_witness:
  "\<exists>s. run_events single_step
        [EvStart, EvSend ''a'' CaseSend, EvSend ''b'' CaseSend, EvPump 0 TakeMessage, EvPump 0 (WriteFrame True)]
        NewMessageSender = Some s \<and> texts (wire s) = [''a''] \<and> prefix (texts (wire s)) (accepted s)"
proof -
  let ?es = "[EvStart, EvSend ''a'' CaseSend, EvSend ''b'' CaseSend, EvPump 0 TakeMessage, EvPump 0 (WriteFrame True)]"
  let ?s = "NewMessageSender\<lparr>sendChan := (make_chan 256)\<lparr>chan_buf := [''b'']\<rparr>, pumps := [PSelect],
    accepted := [''a'', ''b''], wire := [WText ''a'']\<rparr>"
  have r: "run_events single_step ?es NewMessageSender = Some ?s"
    by (simp add: single_step_def NewMessageSender_def make_chan_def Start_def SendRawBytes_def chan_send_def
        sendPump_def chan_recv_def)
  from sender_fifo [OF r] r show ?thesis by (intro exI [of _ ?s]) simp
qed

section \<open>Stopping the sender\<close>

definition stopping :: "MessageSender \<Rightarrow> bool" where
  "stopping s \<longleftrightarrow> ctx_done s \<and> \<not> ticker_on s \<and> chan_closed (sendChan s)"

fun pump_weight :: "pump \<Rightarrow> nat" where
  "pump_weight PSelect = 2"
| "pump_weight (PWrite _) = 3"
| "pump_weight PPing = 3"
| "pump_weight PClose = 1"
| "pump_weight PDone = 0"

definition work :: "MessageSender \<Rightarrow> nat" where
  "work s = 3 * length (chan_buf (sendChan s)) + (if tick s then 3 else 0) + sum_list (map pump_weight (pumps s))"

fun is_pump :: "sender_event \<Rightarrow> bool" where
  "is_pump (EvPump _ _) = True"
| "is_pump _ = False"

lemma sum_list_update_weight:
  "i < length ps \<Longrightarrow> sum_list (map pump_weight (ps[i := p])) + pump_weight (ps ! i) = sum_list (map pump_weight ps) + pump_weight p"
  by (induction ps arbitrary: i) (auto split: nat.split)

lemma pump_works:
  assumes "sendPump i c s = Some t" and "stopping s"
  shows "work t < work s \<and> stopping t"
proof -
  from assms(1) have i: "i < length (pumps s)" by (auto simp: sendPump_def split: if_splits)
  have w: "sum_list (map pump_weight ((pumps s)[i := p])) + pump_weight (pumps s ! i) =
      sum_list (map pump_weight (pumps s)) + pump_weight p" for p
    by (rule sum_list_update_weight [OF i])
  show ?thesis
  proof (cases "pumps s ! i")
    case PSelect
    with assms i w [of PDone] w [of PPing] w [of PClose] w [of "PWrite (hd (chan_buf (sendChan s)))"] show ?thesis
      by (cases c) (auto simp: sendPump_def stopping_def work_def chan_recv_def split: if_splits list.splits)
  next
    case (PWrite m)
    with assms i w [of PSelect] w [of PDone] show ?thesis
      by (cases c) (auto simp: sendPump_def stopping_def work_def split: if_splits)
  next
    case PPing
    with assms i w [of PSelect] w [of PDone] show ?thesis
      by (cases c) (auto simp: sendPump_def stopping_def work_def split: if_splits)
  next
    case PClose
    with assms i w [of PDone] show ?thesis
      by (cases c) (auto simp: sendPump_def stopping_def work_def split: if_splits)
  next
    case PDone
    with assms i show ?thesis by (cases c) (auto simp: sendPump_def)
  qed
qed

lemma other_works:
  assumes "sender_step e s = Some t" and "stopping s" and "e \<noteq> EvStart" and "\<not> is_pump e"
  shows "work t = work s \<and> stopping t"
proof (cases e)
  case (EvSend data c)
  with assms show ?thesis
    by (cases c) (auto simp: SendRawBytes_def chan_send_def stopping_def split: if_splits)
next
  case (EvStop j)
  with assms show ?thesis
    by (cases "stops s ! j") (auto simp: Stop_def chan_close_def stopping_def work_def split: if_splits)
qed (use assms in \<open>auto simp: stopping_def work_def\<close>)

lemma stop_work_bound:
  "run_events sender_step es s = Some t \<Longrightarrow> stopping s \<Longrightarrow> EvStart \<notin> set es \<Longrightarrow>
   length (filter is_pump es) + work t \<le> work s"
proof (induction es arbitrary: s)
  case (Cons e es)
  from Cons.prems obtain u where u: "sender_step e s = Some u" "run_events sender_step es u = Some t"
    by (auto split: option.splits)
  have "stopping u \<and> (if is_pump e then work u < work s else work u = work s)"
    using pump_works other_works [OF u(1)] u(1) Cons.prems(2,3) by (cases e) auto
  with Cons.IH [OF u(2)] Cons.prems(3) show ?case by (auto split: if_splits)
qed simp

lemma stopping_run:
  "run_events sender_step es s = Some t \<Longrightarrow> stopping s \<Longrightarrow> EvStart \<notin> set es \<Longrightarrow> stopping t"
proof (induction es arbitrary: s)
  case (Cons e es)
  from Cons.prems obtain u where u: "sender_step e s = Some u" "run_events sender_step es u = Some t"
    by (auto split: option.splits)
  then have "stopping u"
    using pump_works other_works [OF u(1)] Cons.prems by (cases e) auto
  with Cons u show ?case by simp
qed simp

lemma pump_progress:
  assumes "stopping t" and "i < length (pumps t)" and "pumps t ! i \<noteq> PDone"
  shows "\<exists>c. sendPump i c t \<noteq> None"
proof (cases "pumps t ! i = PSelect")
  case True
  with assms have "sendPump i TakeDone t \<noteq> None" by (simp add: sendPump_def stopping_def)
  then show ?thesis by blast
next
  case False
  with assms have "sendPump i (WriteFrame True) t \<noteq> None"
    by (cases "pumps t ! i") (simp_all add: sendPump_def)
  then show ?thesis by blast
qed

text \<open>
  C27. \<^verbatim>\<open>Stop\<close> terminates. Once it has cancelled the context, stopped the ticker and closed the
  queue, the pumps make at most \<open>work s\<close> further steps in total (three per queued message and
  pending tick, three per pump), whatever cases their \<^verbatim>\<open>select\<close> takes and whatever the callers
  do; and a pump that has not returned always has a step to make, so the wait ends.
\<close>

theorem stop_terminates:
  assumes "ctx_done s" and "\<not> ticker_on s" and "chan_closed (sendChan s)"
    and "run_events sender_step es s = Some t" and "EvStart \<notin> set es"
  shows "length (filter is_pump es) \<le> 3 * length (chan_buf (sendChan s)) + 3 + 3 * length (pumps s)
    \<and> (list_all (\<lambda>p. p = PDone) (pumps t) \<or> (\<exists>i c. i < length (pumps t) \<and> sendPump i c t \<noteq> None))"
proof -
  have st: "stopping s" using assms(1-3) by (simp add: stopping_def)
  have "pump_weight p \<le> 3" for p by (cases p) auto
  then have "sum_list (map pump_weight ps) \<le> 3 * length ps" for ps
    by (induction ps) (auto intro: add_mono)
  then have "work s \<le> 3 * length (chan_buf (sendChan s)) + 3 + 3 * length (pumps s)"
    by (simp add: work_def add_mono)
  then have bound: "length (filter is_pump es) \<le> 3 * length (chan_buf (sendChan s)) + 3 + 3 * length (pumps s)"
    using stop_work_bound [OF assms(4) st assms(5)] by simp
  have "stopping t" by (rule stopping_run [OF assms(4) st assms(5)])
  from pump_progress [OF this] bound show ?thesis by (auto simp: list_all_length)
qed

theorem stop_terminates_witness:
  "let s = NewMessageSender\<lparr>ctx_done := True, ticker_on := False, pumps := [PSelect],
             sendChan := \<lparr>chan_buf = [''a''], chan_cap = 256, chan_closed = True\<rparr>\<rparr>
   in \<exists>t. run_events sender_step [EvPump 0 TakeMessage, EvPump 0 (WriteFrame True), EvPump 0 TakeMessage] s = Some t \<and>
        (\<exists>i c. i < length (pumps t) \<and> sendPump i c t \<noteq> None)"
proof -
  let ?s = "NewMessageSender\<lparr>ctx_done := True, ticker_on := False, pumps := [PSelect],
             sendChan := \<lparr>chan_buf = [''a''], chan_cap = 256, chan_closed = True\<rparr>\<rparr>"
  let ?es = "[EvPump 0 TakeMessage, EvPump 0 (WriteFrame True), EvPump 0 TakeMessage]"
  let ?t = "?s\<lparr>pumps := [PClose], sendChan := \<lparr>chan_buf = [], chan_cap = 256, chan_closed = True\<rparr>, wire := [WText ''a'']\<rparr>"
  have r: "run_events sender_step ?es ?s = Some ?t"
    by (simp add: NewMessageSender_def sendPump_def chan_recv_def)
  have "list_all (\<lambda>p. p = PDone) (pumps ?t) \<or> (\<exists>i c. i < length (pumps ?t) \<and> sendPump i c ?t \<noteq> None)"
    using stop_terminates [of ?s ?es ?t] r by simp
  then have "\<exists>i c. i < length (pumps ?t) \<and> sendPump i c ?t \<noteq> None" by simp
  with r show ?thesis unfolding Let_def by blast
qed

text \<open>Every call of \<^verbatim>\<open>Stop\<close> that has passed its close of the queue left it closed and cancelled.\<close>

definition past_close :: "stop_pc \<Rightarrow> bool" where
  "past_close p \<longleftrightarrow> p \<in> {StWait, StCloseClosed, StReturned}"

definition stops_inv :: "MessageSender \<Rightarrow> bool" where
  "stops_inv s \<longleftrightarrow>
     (\<forall>p \<in> set (stops s). (p \<noteq> StCancel \<longrightarrow> ctx_done s) \<and> (past_close p \<longrightarrow> chan_closed (sendChan s)))"

definition same_stops :: "MessageSender \<Rightarrow> MessageSender \<Rightarrow> bool" where
  "same_stops s t \<longleftrightarrow> stops t = stops s \<and> ctx_done t = ctx_done s \<and> chan_closed (sendChan t) = chan_closed (sendChan s)"

lemma stops_inv_frame: "stops_inv s \<Longrightarrow> same_stops s t \<Longrightarrow> stops_inv t"
  by (simp add: stops_inv_def same_stops_def)

lemma pump_same_stops: "sendPump i c s = Some t \<Longrightarrow> same_stops s t"
  by (cases "pumps s ! i"; cases c)
    (auto simp: sendPump_def chan_recv_def same_stops_def split: if_splits list.splits)

lemma send_same_stops: "SendRawBytes d c s = Some (r, t) \<Longrightarrow> same_stops s t"
  by (cases c) (auto simp: SendRawBytes_def chan_send_def same_stops_def split: if_splits)

lemma stops_inv_update:
  assumes "stops_inv s" and "stops t = (stops s)[j := q]"
    and "q \<noteq> StCancel \<longrightarrow> ctx_done t" and "past_close q \<longrightarrow> chan_closed (sendChan t)"
    and "ctx_done s \<longrightarrow> ctx_done t" and "chan_closed (sendChan s) \<longrightarrow> chan_closed (sendChan t)"
  shows "stops_inv t"
  unfolding stops_inv_def
proof
  fix p assume "p \<in> set (stops t)"
  then have "p = q \<or> p \<in> set (stops s)"
    using set_update_subset_insert [of "stops s" j q] by (auto simp: assms(2))
  then show "(p \<noteq> StCancel \<longrightarrow> ctx_done t) \<and> (past_close p \<longrightarrow> chan_closed (sendChan t))"
    using assms(1,3-) unfolding stops_inv_def by blast
qed

lemma Stop_next:
  assumes "Stop j s = Some t"
  shows "\<exists>q. stops t = (stops s)[j := q] \<and>
     (if stops s ! j = StCancel then q = StTicker \<and> ctx_done t else ctx_done t = ctx_done s) \<and>
     (past_close q \<longrightarrow> past_close (stops s ! j) \<or> chan_closed (sendChan t)) \<and>
     (chan_closed (sendChan s) \<longrightarrow> chan_closed (sendChan t)) \<and> j < length (stops s)"
  using assms
  by (cases "stops s ! j") (auto simp: Stop_def chan_close_def past_close_def split: if_splits)

lemma stops_inv_stop:
  assumes "stops_inv s" and "Stop j s = Some t"
  shows "stops_inv t"
proof -
  obtain q where q: "stops t = (stops s)[j := q]"
    "if stops s ! j = StCancel then q = StTicker \<and> ctx_done t else ctx_done t = ctx_done s"
    "past_close q \<longrightarrow> past_close (stops s ! j) \<or> chan_closed (sendChan t)"
    "chan_closed (sendChan s) \<longrightarrow> chan_closed (sendChan t)" "j < length (stops s)"
    using Stop_next [OF assms(2)] by blast
  have "stops s ! j \<in> set (stops s)" using q(5) by simp
  with assms(1) have "stops s ! j \<noteq> StCancel \<longrightarrow> ctx_done s"
    "past_close (stops s ! j) \<longrightarrow> chan_closed (sendChan s)"
    unfolding stops_inv_def by blast+
  with q(2-4) show ?thesis
    by (intro stops_inv_update [OF assms(1) q(1)]) (auto split: if_splits)
qed

interpretation stop_calls: event_invariant sender_step stops_inv
proof unfold_locales
  fix s e t
  assume i: "stops_inv s" and st: "sender_step e s = Some t"
  show "stops_inv t"
  proof (cases e)
    case (EvSend d c)
    with i st show ?thesis by (auto intro: stops_inv_frame send_same_stops)
  next
    case (EvPump k c)
    with i st show ?thesis by (auto intro: stops_inv_frame pump_same_stops)
  next
    case (EvStop j)
    with i st show ?thesis by (auto intro: stops_inv_stop)
  next
    case EvStopCall
    with st have "stops t = stops s @ [StCancel]" "ctx_done t = ctx_done s" "sendChan t = sendChan s" by auto
    with i show ?thesis by (simp add: stops_inv_def past_close_def)
  next
    case EvStart
    with st have "same_stops s t" by (auto simp: same_stops_def Start_def)
    with i show ?thesis by (rule stops_inv_frame)
  next
    case EvTick
    with st have "same_stops s t" by (auto simp: same_stops_def split: if_splits)
    with i show ?thesis by (rule stops_inv_frame)
  qed
qed

text \<open>
  After \<^verbatim>\<open>Stop\<close> the sender is a trap. In every reachable state in which a call of \<^verbatim>\<open>Stop\<close> has
  returned, a call of \<^verbatim>\<open>SendRawBytes\<close> can only report the cancellation or panic (its \<^verbatim>\<open>select\<close>
  may take the send on the closed channel), and a further call of \<^verbatim>\<open>Stop\<close> that reaches its close
  of the queue panics.
\<close>

theorem sender_after_stop:
  assumes "run_events sender_step es NewMessageSender = Some s" and "StReturned \<in> set (stops s)"
  shows "SendRawBytes data CaseSend s = Some (SendPanicked, s)
    \<and> SendRawBytes data CaseDone s = Some (SendCancelled, s)
    \<and> SendRawBytes data CaseTimeout s = None
    \<and> (\<forall>k. k < length (stops s) \<and> stops s ! k = StCloseChan \<longrightarrow>
          Stop k s = Some (s\<lparr>stops := (stops s)[k := StPanicked]\<rparr>))"
proof -
  have "stops_inv NewMessageSender"
    by (simp add: stops_inv_def NewMessageSender_def make_chan_def)
  then have i: "stops_inv s" by (rule stop_calls.run_keeps [OF _ assms(1)])
  then have "chan_closed (sendChan s)" using assms(2) by (auto simp: stops_inv_def past_close_def)
  moreover from i assms(2) have "ctx_done s" by (auto simp: stops_inv_def)
  ultimately show ?thesis
    by (simp add: SendRawBytes_def chan_send_def Stop_def chan_close_def)
qed

theorem sender_after_stop_witness:
  "\<exists>s. run_events sender_step (EvStopCall # replicate 5 (EvStop 0)) NewMessageSender = Some s
     \<and> SendRawBytes ''x'' CaseSend s = Some (SendPanicked, s)"
proof -
  let ?s = "NewMessageSender\<lparr>ctx_done := True, ticker_on := False, stops := [StReturned],
     sendChan := (make_chan 256)\<lparr>chan_closed := True\<rparr>, closed := (make_chan 0)\<lparr>chan_closed := True\<rparr>\<rparr>"
  have r: "run_events sender_step (EvStopCall # replicate 5 (EvStop 0)) NewMessageSender = Some ?s"
    by (simp add: numeral_eq_Suc NewMessageSender_def Stop_def chan_close_def make_chan_def)
  from sender_after_stop [OF r, of "''x''"] r show ?thesis by (intro exI [of _ ?s]) simp
qed

section \<open>Correctness of the receiver\<close>

text \<open>
  The documented use does not start the receiver again once \<^verbatim>\<open>Stop\<close> has cancelled it.
\<close>

definition fresh_step :: "(bytes \<Rightarrow> Message option) \<Rightarrow> receiver_event \<Rightarrow> MessageReceiver \<Rightarrow> MessageReceiver option" where
  "fresh_step decode e r = (if e = RvStart \<and> rctx_done r then None else receiver_step decode e r)"

definition past_wait :: "stop_pc \<Rightarrow> bool" where
  "past_wait p \<longleftrightarrow> p \<in> {StCloseChan, StCloseClosed, StReturned}"

definition receiver_inv :: "MessageReceiver \<Rightarrow> bool" where
  "receiver_inv r \<longleftrightarrow>
     chan_ok (messageChan r) \<and> chan_cap (messageChan r) = 100 \<and> RPanicked \<notin> set (rpumps r) \<and>
     (\<forall>p \<in> set (rstops r). p \<noteq> StCancel \<longrightarrow> rctx_done r) \<and>
     (\<forall>p \<in> set (rstops r). past_wait p \<longrightarrow> list_all (\<lambda>q. q = RReturned) (rpumps r)) \<and>
     (chan_closed (messageChan r) \<longrightarrow> rctx_done r \<and> list_all (\<lambda>q. q = RReturned) (rpumps r))"

lemma set_update_cases: "x \<in> set (xs[i := y]) \<Longrightarrow> x = y \<or> x \<in> set xs"
  using set_update_subset_insert [of xs i y] by auto

text \<open>What \<^verbatim>\<open>handleRawMessage\<close> does on an open channel: the four ways a message goes.\<close>

lemma handle_result:
  assumes "\<not> chan_closed (messageChan r)" and "handleRawMessage decode data pd r = Returns t"
  shows "rpumps t = rpumps r \<and> rstops t = rstops r \<and> rctx_done t = rctx_done r \<and> processor t = processor r \<and>
    chan_cap (messageChan t) = chan_cap (messageChan r) \<and> \<not> chan_closed (messageChan t) \<and>
    (chan_ok (messageChan r) \<longrightarrow> chan_ok (messageChan t)) \<and>
    (\<not> rctx_done r \<longrightarrow> (\<exists>ms. decoded t = decoded r @ ms \<and>
       length (procs t) = length (procs r) + (if processor r then length ms else 0)))"
  using assms
  by (auto simp: handleRawMessage_def Let_def chan_send_def chan_ok_def split: option.splits if_splits)

lemma handle_open:
  assumes "\<not> chan_closed (messageChan r)"
  obtains t where "handleRawMessage decode data pd r = Returns t"
    and "rpumps t = rpumps r" and "rstops t = rstops r" and "rctx_done t = rctx_done r" and "processor t = processor r"
    and "chan_cap (messageChan t) = chan_cap (messageChan r)" and "\<not> chan_closed (messageChan t)"
    and "chan_ok (messageChan r) \<longrightarrow> chan_ok (messageChan t)"
    and "\<not> rctx_done r \<longrightarrow> (\<exists>ms. decoded t = decoded r @ ms \<and>
           length (procs t) = length (procs r) + (if processor r then length ms else 0))"
proof -
  obtain t where t: "handleRawMessage decode data pd r = Returns t"
    using assms by (cases "handleRawMessage decode data pd r")
      (auto simp: handleRawMessage_def Let_def chan_send_def split: option.splits if_splits)
  note facts = handle_result [OF assms t]
  show thesis by (rule that [OF t]) (use facts in blast)+
qed

lemma receiver_inv_pump:
  assumes "receiver_inv r" and "receivePump decode i ev r = Some t"
  shows "receiver_inv t"
proof -
  have i: "i < length (rpumps r)" using assms(2) by (auto simp: receivePump_def split: if_splits)
  have alive: "\<not> list_all (\<lambda>q. q = RReturned) (rpumps r)"
  proof
    assume "list_all (\<lambda>q. q = RReturned) (rpumps r)"
    with i have "rpumps r ! i = RReturned" by (simp add: list_all_length)
    with assms(2) show False by (simp add: receivePump_def split: option.splits if_splits)
  qed
  with assms(1) have open': "\<not> chan_closed (messageChan r)" and nowait: "\<forall>p \<in> set (rstops r). \<not> past_wait p"
    by (auto simp: receiver_inv_def)
  show ?thesis
  proof (cases "\<exists>data pd. rpumps r ! i = RReading \<and> ev = Some (ReadData data pd)")
    case True
    then obtain data pd where rd: "rpumps r ! i = RReading" "ev = Some (ReadData data pd)" by blast
    obtain u where u: "handleRawMessage decode data pd r = Returns u"
      "rpumps u = rpumps r" "rstops u = rstops r" "rctx_done u = rctx_done r"
      "chan_cap (messageChan u) = chan_cap (messageChan r)" "\<not> chan_closed (messageChan u)"
      "chan_ok (messageChan r) \<longrightarrow> chan_ok (messageChan u)"
      by (rule handle_open [OF open', of decode data pd])
    with rd i assms(2) have "t = u\<lparr>rpumps := (rpumps u)[i := RSelect]\<rparr>" by (simp add: receivePump_def)
    with u assms(1) nowait show ?thesis
      by (auto simp: receiver_inv_def dest!: set_update_cases)
  next
    case False
    with assms(2) i obtain p where "t = r\<lparr>rpumps := (rpumps r)[i := p]\<rparr>" "p \<noteq> RPanicked"
      by (auto simp: receivePump_def split: recv_pump.splits option.splits read_result.splits if_splits)
    with assms(1) nowait open' show ?thesis
      by (auto simp: receiver_inv_def dest!: set_update_cases)
  qed
qed

lemma processMessage_frame:
  assumes "processMessage i answer running r = Some t"
  shows "rpumps t = rpumps r \<and> rstops t = rstops r \<and> rctx_done t = rctx_done r \<and> messageChan t = messageChan r \<and>
    processor t = processor r \<and> decoded t = decoded r \<and> length (procs t) = length (procs r)"
  using assms
  by (cases "procs r ! i") (auto simp: processMessage_def Let_def split: if_splits)

lemma receiver_inv_frame:
  "receiver_inv r \<Longrightarrow> rpumps t = rpumps r \<Longrightarrow> rstops t = rstops r \<Longrightarrow> rctx_done t = rctx_done r \<Longrightarrow>
   messageChan t = messageChan r \<Longrightarrow> receiver_inv t"
  by (simp add: receiver_inv_def)

lemma Receiver_Stop_next:
  assumes "Receiver_Stop j r = Some t"
  shows "\<exists>q. rstops t = (rstops r)[j := q] \<and> j < length (rstops r) \<and> rpumps t = rpumps r \<and>
     (rctx_done r \<or> rstops r ! j = StCancel \<longrightarrow> rctx_done t) \<and>
     (past_wait q \<longrightarrow> past_wait (rstops r ! j) \<or> list_all (\<lambda>q. q = RReturned) (rpumps r)) \<and>
     chan_buf (messageChan t) = chan_buf (messageChan r) \<and> chan_cap (messageChan t) = chan_cap (messageChan r) \<and>
     (chan_closed (messageChan t) \<longrightarrow> chan_closed (messageChan r) \<or> past_wait (rstops r ! j))"
  using assms
  by (cases "rstops r ! j") (auto simp: Receiver_Stop_def chan_close_def past_wait_def split: if_splits)

lemma receiver_inv_stop:
  assumes "receiver_inv r" and "Receiver_Stop j r = Some t"
  shows "receiver_inv t"
proof -
  obtain q where q: "rstops t = (rstops r)[j := q]" "j < length (rstops r)" "rpumps t = rpumps r"
    "rctx_done r \<or> rstops r ! j = StCancel \<longrightarrow> rctx_done t"
    "past_wait q \<longrightarrow> past_wait (rstops r ! j) \<or> list_all (\<lambda>q. q = RReturned) (rpumps r)"
    "chan_buf (messageChan t) = chan_buf (messageChan r)" "chan_cap (messageChan t) = chan_cap (messageChan r)"
    "chan_closed (messageChan t) \<longrightarrow> chan_closed (messageChan r) \<or> past_wait (rstops r ! j)"
    using Receiver_Stop_next [OF assms(2)] by blast
  have mem: "rstops r ! j \<in> set (rstops r)" using q(2) by simp
  have cancelled: "rctx_done t" using assms(1) mem q(4) unfolding receiver_inv_def by blast
  have all: "past_wait (rstops r ! j) \<longrightarrow> list_all (\<lambda>q. q = RReturned) (rpumps r)"
    using assms(1) mem unfolding receiver_inv_def by blast
  have "list_all (\<lambda>q. q = RReturned) (rpumps t)" if "p \<in> set (rstops t)" "past_wait p" for p
    using that set_update_cases [of p "rstops r" j q] q(1,3,5) all assms(1)
    unfolding receiver_inv_def by metis
  with q all cancelled assms(1) show ?thesis
    unfolding receiver_inv_def chan_ok_def by (metis (no_types))
qed

lemma receiver_inv_step:
  assumes "receiver_inv r" and "fresh_step decode e r = Some t"
  shows "receiver_inv t"
proof (cases e)
  case RvStart
  with assms have "rstops t = rstops r" "rctx_done t = rctx_done r" "messageChan t = messageChan r"
    "rpumps t = rpumps r @ [RSelect]" "\<not> rctx_done r"
    by (auto simp: fresh_step_def Receiver_Start_def split: if_splits)
  with assms(1) show ?thesis by (auto simp: receiver_inv_def past_wait_def)
next
  case (RvPump i ev)
  with assms show ?thesis by (auto simp: fresh_step_def intro: receiver_inv_pump)
next
  case (RvProcess i answer running)
  with assms show ?thesis
    by (auto simp: fresh_step_def dest!: processMessage_frame intro: receiver_inv_frame)
next
  case RvConsume
  with assms show ?thesis
    by (auto simp: fresh_step_def receiver_inv_def chan_recv_def chan_ok_def split: list.splits if_splits)
next
  case RvStopCall
  with assms have "rstops t = rstops r @ [StCancel]" "rctx_done t = rctx_done r" "messageChan t = messageChan r"
    "rpumps t = rpumps r" by (auto simp: fresh_step_def)
  with assms(1) show ?thesis by (auto simp: receiver_inv_def past_wait_def)
next
  case (RvStop j)
  with assms show ?thesis by (auto simp: fresh_step_def intro: receiver_inv_stop)
next
  case (RvSetProcessor b)
  with assms show ?thesis by (auto simp: fresh_step_def SetProcessor_def intro: receiver_inv_frame)
next
  case (RvSetSender b)
  with assms show ?thesis by (auto simp: fresh_step_def SetSender_def intro: receiver_inv_frame)
qed

interpretation receiver: event_invariant "fresh_step decode" receiver_inv for decode
  by unfold_locales (rule receiver_inv_step)

text \<open>
  C25. The receiver never sends on its closed channel. In every run in which it is not started again
  after a cancellation, with any number of concurrent \<^verbatim>\<open>Stop\<close> calls, no receive goroutine
  panics, at most 100 messages wait in the channel, and when a call of \<^verbatim>\<open>Stop\<close> has returned every
  receive goroutine has returned.
\<close>

theorem receiver_safe:
  assumes "run_events (fresh_step decode) es (NewMessageReceiver p) = Some r"
  shows "RPanicked \<notin> set (rpumps r) \<and> length (chan_buf (messageChan r)) \<le> 100 \<and>
         (StReturned \<in> set (rstops r) \<longrightarrow> list_all (\<lambda>q. q = RReturned) (rpumps r))"
proof -
  have "receiver_inv (NewMessageReceiver p)"
    by (simp add: receiver_inv_def NewMessageReceiver_def make_chan_def chan_ok_def)
  then have "receiver_inv r" by (rule receiver.run_keeps [OF _ assms])
  then show ?thesis by (auto simp: receiver_inv_def chan_ok_def past_wait_def)
qed

theorem receiver_safe_witness:
  "\<exists>r. run_events (fresh_step (\<lambda>d. Some \<lparr>Main = ''m'', Sub = ''s'', Payload = d\<rparr>))
         [RvStart, RvPump 0 None, RvPump 0 (Some (ReadData ''hi'' False))] (NewMessageReceiver False) = Some r
     \<and> length (chan_buf (messageChan r)) = 1 \<and> RPanicked \<notin> set (rpumps r)"
proof -
  let ?d = "\<lambda>d. Some \<lparr>Main = ''m'', Sub = ''s'', Payload = d\<rparr>"
  let ?m = "\<lparr>Main = ''m'', Sub = ''s'', Payload = ''hi''\<rparr>"
  let ?es = "[RvStart, RvPump 0 None, RvPump 0 (Some (ReadData ''hi'' False))]"
  let ?r = "(NewMessageReceiver False)\<lparr>rpumps := [RSelect], decoded := [?m],
     messageChan := (make_chan 100)\<lparr>chan_buf := [?m]\<rparr>\<rparr>"
  have r: "run_events (fresh_step ?d) ?es (NewMessageReceiver False) = Some ?r"
    by (simp add: fresh_step_def NewMessageReceiver_def Receiver_Start_def receivePump_def handleRawMessage_def
        Let_def chan_send_def make_chan_def)
  from receiver_safe [OF r] r show ?thesis by (intro exI [of _ ?r]) simp
qed

text \<open>
  Until the receiver is cancelled, every decoded message gets its processing goroutine: also the
  ones that the full channel drops.
\<close>

definition processing_inv :: "MessageReceiver \<Rightarrow> bool" where
  "processing_inv r \<longleftrightarrow> processor r \<and> receiver_inv r \<and> (\<not> rctx_done r \<longrightarrow> length (procs r) = length (decoded r))"

definition on_step :: "(bytes \<Rightarrow> Message option) \<Rightarrow> receiver_event \<Rightarrow> MessageReceiver \<Rightarrow> MessageReceiver option" where
  "on_step decode e r = (if e = RvSetProcessor False then None else fresh_step decode e r)"

lemma processing_inv_step:
  assumes "processing_inv r" and "on_step decode e r = Some t"
  shows "processing_inv t"
proof -
  have st: "fresh_step decode e r = Some t" and e: "e \<noteq> RvSetProcessor False"
    using assms(2) by (auto simp: on_step_def split: if_splits)
  have inv: "receiver_inv r" "receiver_inv t"
    using assms(1) receiver_inv_step [OF _ st] by (auto simp: processing_inv_def)
  have "processor t \<and> (\<not> rctx_done t \<longrightarrow> length (procs t) = length (decoded t))"
  proof (cases e)
    case (RvPump i ev)
    then have p: "receivePump decode i ev r = Some t" using st by (simp add: fresh_step_def)
    show ?thesis
    proof (cases "\<exists>data pd. rpumps r ! i = RReading \<and> ev = Some (ReadData data pd)")
      case True
      then obtain data pd where rd: "rpumps r ! i = RReading" "ev = Some (ReadData data pd)" by blast
      have i: "i < length (rpumps r)" using p by (auto simp: receivePump_def split: if_splits)
      have "\<not> chan_closed (messageChan r)"
        using inv(1) i rd(1) by (auto simp: receiver_inv_def list_all_length)
      then obtain u where u: "handleRawMessage decode data pd r = Returns u"
        "rctx_done u = rctx_done r" "processor u = processor r"
        "\<not> rctx_done r \<longrightarrow> (\<exists>ms. decoded u = decoded r @ ms \<and>
           length (procs u) = length (procs r) + (if processor r then length ms else 0))"
        by (rule handle_open [of r decode data pd]) blast
      with p rd i have "t = u\<lparr>rpumps := (rpumps u)[i := RSelect]\<rparr>" by (simp add: receivePump_def)
      with u assms(1) show ?thesis by (auto simp: processing_inv_def)
    next
      case False
      with p assms(1) show ?thesis
        by (auto simp: receivePump_def processing_inv_def
            split: recv_pump.splits option.splits read_result.splits if_splits)
    qed
  next
    case (RvProcess i answer running)
    with st assms(1) show ?thesis
      by (auto simp: fresh_step_def processing_inv_def dest!: processMessage_frame)
  next
    case (RvStop j)
    with st assms(1) show ?thesis
      by (cases "rstops r ! j") (auto simp: fresh_step_def Receiver_Stop_def chan_close_def processing_inv_def split: if_splits)
  qed (use st e assms(1) in \<open>auto simp: fresh_step_def processing_inv_def Receiver_Start_def SetProcessor_def
        SetSender_def split: if_splits recv_result.splits\<close>)
  with inv(2) show ?thesis by (simp add: processing_inv_def)
qed

interpretation processing: event_invariant "on_step decode" processing_inv for decode
  by unfold_locales (rule processing_inv_step)

text \<open>
  C26. Every message is processed. As long as the receiver is not cancelled and its processor is not
  removed, the number of processing goroutines started is the number of messages decoded,
  whatever the consumers of the channel do: a message dropped because the channel is full is
  still processed.
\<close>

theorem receiver_processes_all:
  assumes "run_events (on_step decode) es (NewMessageReceiver True) = Some r" and "\<not> rctx_done r"
  shows "length (procs r) = length (decoded r)"
proof -
  have "processing_inv (NewMessageReceiver True)"
    by (simp add: processing_inv_def receiver_inv_def NewMessageReceiver_def make_chan_def chan_ok_def)
  then have "processing_inv r" by (rule processing.run_keeps [OF _ assms(1)])
  with assms(2) show ?thesis by (simp add: processing_inv_def)
qed

theorem receiver_processes_all_witness:
  "\<exists>r. run_events (on_step (\<lambda>d. Some \<lparr>Main = ''m'', Sub = ''s'', Payload = d\<rparr>))
         [RvStart, RvPump 0 None, RvPump 0 (Some (ReadData ''hi'' False))] (NewMessageReceiver True) = Some r
     \<and> length (procs r) = length (decoded r) \<and> length (decoded r) = 1"
proof -
  let ?d = "\<lambda>d. Some \<lparr>Main = ''m'', Sub = ''s'', Payload = d\<rparr>"
  let ?m = "\<lparr>Main = ''m'', Sub = ''s'', Payload = ''hi''\<rparr>"
  let ?es = "[RvStart, RvPump 0 None, RvPump 0 (Some (ReadData ''hi'' False))]"
  let ?r = "(NewMessageReceiver True)\<lparr>rpumps := [RSelect], decoded := [?m], procs := [RStart ?m],
     messageChan := (make_chan 100)\<lparr>chan_buf := [?m]\<rparr>\<rparr>"
  have r: "run_events (on_step ?d) ?es (NewMessageReceiver True) = Some ?r"
    by (simp add: on_step_def fresh_step_def NewMessageReceiver_def Receiver_Start_def receivePump_def
        handleRawMessage_def Let_def chan_send_def make_chan_def)
  have "\<not> rctx_done ?r" by (simp add: NewMessageReceiver_def)
  from receiver_processes_all [OF r this] r show ?thesis by (intro exI [of _ ?r]) simp
qed

end
