(* ===== verification/Endpoint.thy ===== *)
theory Endpoint
  imports Message_Queue "HOL-Library.Multiset"
begin

text \<open>
  A websocket endpoint: a \<^verbatim>\<open>MessageReceiver\<close> whose replies go through a \<^verbatim>\<open>MessageSender\<close>
  (\<^verbatim>\<open>SetSender\<close>), both machines of theory \<^verbatim>\<open>Message_Queue\<close> side by side. They meet in
  \<^verbatim>\<open>processMessage\<close>, which asks the sender whether it is running and then hands it the reply. The
  processor is a function from messages to answers (\<open>None\<close> for an error). A panic in any
  goroutine ends the process (\<open>ep_crashed\<close>).
\<close>

record endpoint =
  ep_recv :: MessageReceiver
  ep_send :: MessageSender
  ep_crashed :: bool

definition NewEndpoint :: endpoint where
  "NewEndpoint = \<lparr>ep_recv = SetSender True (NewMessageReceiver True), ep_send = NewMessageSender, ep_crashed = False\<rparr>"

datatype endpoint_event = EpRecv receiver_event | EpSend sender_event | EpReply nat send_case

text \<open>
  The steps of \<^verbatim>\<open>processMessage\<close> up to the reply: the answer is the processor's, and \<^verbatim>\<open>IsRunning\<close> is asked
  of the sender of this endpoint.
\<close>

definition recv_allowed :: "(Message \<Rightarrow> string option) \<Rightarrow> receiver_event \<Rightarrow> endpoint \<Rightarrow> bool" where
  "recv_allowed handler e s =
     (case e of
        RvProcess i answer running \<Rightarrow>
          i < length (procs (ep_recv s)) \<and>
          (case procs (ep_recv s) ! i of
             RHandling m \<Rightarrow> answer = handler m
           | RAsking a \<Rightarrow> running = IsRunning (ep_send s)
           | RSending a \<Rightarrow> False
           | _ \<Rightarrow> True)
      | _ \<Rightarrow> True)"

text \<open>
  The reply: \<^verbatim>\<open>SendRawBytes\<close> of the sender, called in the goroutine of \<^verbatim>\<open>processMessage\<close>; on a sender
  that was unset in the meantime the call panics.
\<close>

definition reply_step :: "nat \<Rightarrow> send_case \<Rightarrow> endpoint \<Rightarrow> endpoint option" where
  "reply_step i c s =
     (if length (procs (ep_recv s)) \<le> i then None
      else case procs (ep_recv s) ! i of
        RSending a \<Rightarrow>
          if \<not> rsender (ep_recv s) then Some (s\<lparr>ep_crashed := True\<rparr>)
          else (case SendRawBytes a c (ep_send s) of
             None \<Rightarrow> None
           | Some (ret, t) \<Rightarrow>
               if ret = SendPanicked then Some (s\<lparr>ep_crashed := True\<rparr>)
               else map_option (\<lambda>r. s\<lparr>ep_recv := r, ep_send := t\<rparr>) (processMessage i None True (ep_recv s)))
      | _ \<Rightarrow> None)"

text \<open>The panics of the receiver's goroutines.\<close>

definition recv_panicked :: "MessageReceiver \<Rightarrow> bool" where
  "recv_panicked r \<longleftrightarrow> RPanicked \<in> set (rpumps r) \<or> StPanicked \<in> set (rstops r) \<or> RProcPanicked \<in> set (procs r)"

definition send_panics :: "sender_event \<Rightarrow> MessageSender \<Rightarrow> bool" where
  "send_panics e s = (case e of EvSend data c \<Rightarrow> map_option fst (SendRawBytes data c s) = Some SendPanicked | _ \<Rightarrow> False)"

definition endpoint_step ::
  "(bytes \<Rightarrow> Message option) \<Rightarrow> (Message \<Rightarrow> string option) \<Rightarrow> endpoint_event \<Rightarrow> endpoint \<Rightarrow> endpoint option" where
  "endpoint_step decode handler e s =
     (if ep_crashed s then None
      else case e of
        EpRecv e' \<Rightarrow>
          if recv_allowed handler e' s
          then map_option (\<lambda>r. s\<lparr>ep_recv := r, ep_crashed := recv_panicked r\<rparr>)
                 (receiver_step decode e' (ep_recv s))
          else None
      | EpSend e' \<Rightarrow>
          map_option (\<lambda>t. s\<lparr>ep_send := t, ep_crashed := StPanicked \<in> set (stops t) \<or> send_panics e' (ep_send s)\<rparr>)
            (sender_step e' (ep_send s))
      | EpReply i c \<Rightarrow> reply_step i c s)"

section \<open>Replies\<close>

text \<open>What a goroutine of \<^verbatim>\<open>processMessage\<close> may still send.\<close>

fun owed :: "(Message \<Rightarrow> string option) \<Rightarrow> proc \<Rightarrow> string multiset" where
  "owed handler (RStart m) = mset_set (set_option (handler m))"
| "owed handler (RHandling m) = mset_set (set_option (handler m))"
| "owed handler (RReply a) = {#a#}"
| "owed handler (RChecked a) = {#a#}"
| "owed handler (RAsking a) = {#a#}"
| "owed handler (RSending a) = {#a#}"
| "owed handler RDone = {#}"
| "owed handler RProcPanicked = {#}"

definition owed_all :: "(Message \<Rightarrow> string option) \<Rightarrow> proc list \<Rightarrow> string multiset" where
  "owed_all handler ps = sum_list (map (owed handler) ps)"

definition answers :: "(Message \<Rightarrow> string option) \<Rightarrow> Message list \<Rightarrow> string multiset" where
  "answers handler ms = mset (List.map_filter handler ms)"

lemma sum_list_update_add:
  fixes f :: "'a \<Rightarrow> 'b :: comm_monoid_add"
  shows "i < length xs \<Longrightarrow> sum_list (map f (xs[i := x])) + f (xs ! i) = sum_list (map f xs) + f x"
  by (induction xs arbitrary: i) (auto split: nat.split simp: ac_simps)

lemma owed_update:
  "i < length ps \<Longrightarrow> owed handler p \<subseteq># owed handler (ps ! i) + N \<Longrightarrow> owed_all handler (ps[i := p]) \<subseteq># owed_all handler ps + N"
proof -
  assume "i < length ps" and le: "owed handler p \<subseteq># owed handler (ps ! i) + N"
  then have "owed_all handler (ps[i := p]) + owed handler (ps ! i) = owed_all handler ps + owed handler p"
    unfolding owed_all_def by (intro sum_list_update_add)
  also have "\<dots> \<subseteq># owed_all handler ps + (owed handler (ps ! i) + N)"
    using le by (simp add: subset_mset.add_left_mono)
  finally show ?thesis by (simp add: ac_simps)
qed

lemma answers_snoc: "answers handler (ms @ [m]) = answers handler ms + mset_set (set_option (handler m))"
  by (cases "handler m") (simp_all add: answers_def List.map_filter_def)

lemma owed_snoc: "owed_all handler (ps @ [p]) = owed_all handler ps + owed handler p"
  by (simp add: owed_all_def)

definition accounted :: "(Message \<Rightarrow> string option) \<Rightarrow> string multiset \<Rightarrow> endpoint \<Rightarrow> bool" where
  "accounted handler D s \<longleftrightarrow>
     mset (accepted (ep_send s)) + owed_all handler (procs (ep_recv s)) \<subseteq># answers handler (decoded (ep_recv s)) + D"

text \<open>A step of the receiver that adds \<open>N\<close> to the answers it may give adds no more than that to what is owed.\<close>

definition grows :: "(Message \<Rightarrow> string option) \<Rightarrow> MessageReceiver \<Rightarrow> MessageReceiver \<Rightarrow> bool" where
  "grows handler r t \<longleftrightarrow>
     (\<exists>N. answers handler (decoded t) = answers handler (decoded r) + N \<and>
       owed_all handler (procs t) \<subseteq># owed_all handler (procs r) + N)"

lemma grows_same: "decoded t = decoded r \<Longrightarrow> procs t = procs r \<Longrightarrow> grows handler r t"
  by (auto simp: grows_def intro!: exI [of _ "{#}"])

lemma grows_raw: "handleRawMessage decode data pd r = Returns u \<Longrightarrow> grows handler r u"
  by (auto simp: handleRawMessage_def Let_def grows_def answers_snoc owed_snoc
      split: if_splits option.splits send_result.splits
      intro!: exI [of _ "{#}"] exI [of _ "mset_set (set_option (handler _))"])

lemma grows_pump:
  assumes "receivePump decode i ev r = Some t" shows "grows handler r t"
proof (cases "\<exists>data pd. rpumps r ! i = RReading \<and> ev = Some (ReadData data pd)")
  case True
  then obtain data pd where *: "rpumps r ! i = RReading" "ev = Some (ReadData data pd)" by blast
  show ?thesis
  proof (cases "handleRawMessage decode data pd r")
    case (Returns u)
    with assms * have "t = u\<lparr>rpumps := (rpumps u)[i := RSelect]\<rparr>" by (auto simp: receivePump_def split: if_splits)
    with grows_raw [OF Returns, of handler] show ?thesis by (simp add: grows_def)
  next
    case (Panics x)
    with assms * show ?thesis by (auto simp: receivePump_def split: if_splits intro: grows_same)
  qed
next
  case False
  with assms show ?thesis
    by (auto simp: receivePump_def split: if_splits recv_pump.splits option.splits read_result.splits intro: grows_same)
qed

lemma grows_process:
  assumes "recv_allowed handler (RvProcess i answer running) s" and "processMessage i answer running (ep_recv s) = Some t"
  shows "grows handler (ep_recv s) t"
proof -
  have i: "i < length (procs (ep_recv s))" using assms(1) by (simp add: recv_allowed_def)
  have "decoded t = decoded (ep_recv s)"
    using assms(2) by (auto simp: processMessage_def Let_def split: if_splits proc.splits)
  moreover obtain p where p: "procs t = (procs (ep_recv s))[i := p]" "owed handler p \<subseteq># owed handler (procs (ep_recv s) ! i)"
  proof (cases "procs (ep_recv s) ! i")
    case (RHandling m)
    with assms i show ?thesis
      by (intro that [of "if processor (ep_recv s) then (case answer of None \<Rightarrow> RDone | Some a \<Rightarrow> RReply a) else RProcPanicked"])
        (auto simp: processMessage_def recv_allowed_def Let_def split: option.split)
  qed (use assms i in \<open>auto simp: processMessage_def recv_allowed_def Let_def split: if_splits intro: that\<close>)
  ultimately show ?thesis
    using owed_update [OF i, of handler p "{#}"] by (auto simp: grows_def intro!: exI [of _ "{#}"])
qed

lemma grows_step:
  assumes "recv_allowed handler e s" and "receiver_step decode e (ep_recv s) = Some t"
  shows "grows handler (ep_recv s) t"
proof (cases e)
  case (RvStop j)
  with assms(2) show ?thesis
    by (auto simp: Receiver_Stop_def split: if_splits stop_pc.splits option.splits intro: grows_same)
qed (use assms grows_pump grows_process in \<open>auto simp: Receiver_Start_def SetProcessor_def SetSender_def
      split: recv_result.splits intro: grows_same\<close>)

lemma accounted_grows:
  "grows handler (ep_recv s) r \<Longrightarrow> accounted handler D s \<Longrightarrow> accounted handler D (s\<lparr>ep_recv := r, ep_crashed := b\<rparr>)"
proof -
  assume "grows handler (ep_recv s) r" and *: "accounted handler D s"
  then obtain N where N: "answers handler (decoded r) = answers handler (decoded (ep_recv s)) + N"
    "owed_all handler (procs r) \<subseteq># owed_all handler (procs (ep_recv s)) + N" by (auto simp: grows_def)
  have "mset (accepted (ep_send s)) + owed_all handler (procs r) \<subseteq>#
      mset (accepted (ep_send s)) + owed_all handler (procs (ep_recv s)) + N"
    using N(2) by (simp add: ac_simps subset_mset.add_left_mono)
  also have "\<dots> \<subseteq># answers handler (decoded (ep_recv s)) + D + N"
    using * by (simp add: accounted_def subset_mset.add_right_mono)
  finally show ?thesis by (simp add: accounted_def N(1) ac_simps)
qed

section \<open>The sender's frames\<close>

fun in_flight :: "pump \<Rightarrow> bytes multiset" where
  "in_flight (PWrite m) = {#m#}"
| "in_flight _ = {#}"

definition carried :: "MessageSender \<Rightarrow> bool" where
  "carried s \<longleftrightarrow> mset (texts (wire s)) + mset (chan_buf (sendChan s)) + sum_list (map in_flight (pumps s)) \<subseteq># mset (accepted s)"

lemma in_flight_update:
  assumes "i < length ps"
  shows "sum_list (map in_flight (ps[i := p])) + in_flight (ps ! i) = sum_list (map in_flight ps) + in_flight p"
  using assms by (rule sum_list_update_add)

lemma carried_pump:
  assumes "sendPump i c s = Some t" and "carried s"
  shows "carried t \<and> accepted t = accepted s"
proof -
  have i: "i < length (pumps s)" using assms(1) by (auto simp: sendPump_def split: if_splits)
  note w = in_flight_update [OF i]
  show ?thesis
  proof (cases "pumps s ! i")
    case PSelect
    with assms i w [of "PWrite (hd (chan_buf (sendChan s)))"] w [of PPing] w [of PClose] w [of PDone] show ?thesis
      by (cases c) (auto simp: sendPump_def carried_def chan_recv_def split: if_splits list.splits)
  next
    case (PWrite m)
    define q where "q = (case c of WriteFrame True \<Rightarrow> PSelect | _ \<Rightarrow> PDone)"
    have "in_flight q = {#}" by (simp add: q_def split: pump_case.split bool.split)
    with w [of q] PWrite have "sum_list (map in_flight (pumps s)) = add_mset m (sum_list (map in_flight ((pumps s)[i := q])))"
      by simp
    with assms i PWrite show ?thesis
      by (cases c) (auto simp: sendPump_def carried_def q_def split: if_splits bool.splits dest: mset_subset_eq_insertD
          intro: subset_mset.order_trans [rotated])
  next
    case PPing
    with assms i w [of PSelect] w [of PDone] show ?thesis
      by (cases c) (auto simp: sendPump_def carried_def split: if_splits)
  next
    case PClose
    with assms i w [of PDone] show ?thesis
      by (cases c) (auto simp: sendPump_def carried_def split: if_splits)
  next
    case PDone
    with assms i show ?thesis by (cases c) (auto simp: sendPump_def)
  qed
qed

text \<open>What \<^verbatim>\<open>SendRawBytes\<close> adds to the accepted messages.\<close>

lemma carried_send:
  assumes "SendRawBytes data c s = Some (ret, t)" and "carried s"
  shows "carried t \<and> mset (accepted t) \<subseteq># mset (accepted s) + {#data#}"
  using assms
  by (cases c) (auto simp: SendRawBytes_def chan_send_def carried_def add.assoc split: if_splits send_result.splits)

definition sent_by :: "sender_event \<Rightarrow> bytes list" where
  "sent_by e = (case e of EvSend data c \<Rightarrow> [data] | _ \<Rightarrow> [])"

lemma carried_step:
  assumes "sender_step e s = Some t" and "carried s"
  shows "carried t \<and> mset (accepted t) \<subseteq># mset (accepted s) + mset (sent_by e)"
proof (cases e)
  case (EvSend data c)
  with assms carried_send [of data c s] show ?thesis by (auto simp: sent_by_def)
next
  case (EvPump i c)
  with assms carried_pump [of i c s t] show ?thesis by (simp add: sent_by_def)
next
  case (EvStop j)
  with assms have "same_traffic s t" by (simp add: stop_same_traffic)
  with assms(2) EvStop show ?thesis by (simp add: same_traffic_def carried_def sent_by_def)
qed (use assms in \<open>auto simp: Start_def carried_def sent_by_def split: if_splits\<close>)

section \<open>Every frame is an answer\<close>

definition direct :: "endpoint_event list \<Rightarrow> bytes list" where
  "direct es = concat (map (\<lambda>e. case e of EpSend e' \<Rightarrow> sent_by e' | _ \<Rightarrow> []) es)"

lemma accounted_reply:
  assumes "reply_step i c s = Some t" and "accounted handler D s" and "carried (ep_send s)"
  shows "accounted handler D t \<and> carried (ep_send t)"
proof (cases "rsender (ep_recv s)")
  case False
  with assms show ?thesis by (auto simp: reply_step_def accounted_def split: if_splits proc.splits)
next
  case set: True
  with assms(1) obtain a ret u where a: "i < length (procs (ep_recv s))" "procs (ep_recv s) ! i = RSending a"
    "SendRawBytes a c (ep_send s) = Some (ret, u)"
    by (auto simp: reply_step_def split: if_splits proc.splits option.splits)
  show ?thesis
  proof (cases "ret = SendPanicked")
    case True
    with assms a set show ?thesis by (auto simp: reply_step_def accounted_def)
  next
    case False
    with assms(1) a set have t: "t = s\<lparr>ep_recv := (ep_recv s)\<lparr>replies := replies (ep_recv s) @ [a], procs := (procs (ep_recv s))[i := RDone]\<rparr>,
        ep_send := u\<rparr>"
      by (auto simp: reply_step_def processMessage_def Let_def)
    let ?rest = "owed_all handler ((procs (ep_recv s))[i := RDone])"
    have o: "owed_all handler (procs (ep_recv s)) = {#a#} + ?rest"
      using sum_list_update_add [OF a(1), of "owed handler" RDone] a(2) by (simp add: owed_all_def)
    from carried_send [OF a(3) assms(3)]
    have c: "carried u" "mset (accepted u) \<subseteq># mset (accepted (ep_send s)) + {#a#}" by simp_all
    have "mset (accepted u) + ?rest \<subseteq># mset (accepted (ep_send s)) + {#a#} + ?rest"
      using c(2) by (rule subset_mset.add_right_mono)
    also have "\<dots> = mset (accepted (ep_send s)) + owed_all handler (procs (ep_recv s))"
      unfolding o by (simp only: add.assoc)
    finally have "mset (accepted u) + ?rest \<subseteq># mset (accepted (ep_send s)) + owed_all handler (procs (ep_recv s))" .
    with assms(2) c(1) show ?thesis by (auto simp: t accounted_def intro: subset_mset.order_trans)
  qed
qed

lemma endpoint_step_accounted:
  assumes "endpoint_step decode handler e s = Some t" and "accounted handler D s" and "carried (ep_send s)"
  shows "accounted handler (D + mset (direct [e])) t \<and> carried (ep_send t)"
proof (cases e)
  case (EpRecv e')
  with assms obtain r where "recv_allowed handler e' s" "receiver_step decode e' (ep_recv s) = Some r"
    and t: "t = s\<lparr>ep_recv := r, ep_crashed := ep_crashed t\<rparr>"
    by (auto simp: endpoint_step_def split: if_splits)
  then have "accounted handler D t" using accounted_grows [OF grows_step assms(2)] by metis
  moreover have "ep_send t = ep_send s" by (subst t) simp
  ultimately show ?thesis using EpRecv assms(3) by (simp add: direct_def)
next
  case (EpSend e')
  with assms obtain u where u: "sender_step e' (ep_send s) = Some u" and t: "ep_recv t = ep_recv s" "ep_send t = u"
    by (auto simp: endpoint_step_def split: if_splits)
  from carried_step [OF u assms(3)] have c: "carried u" "mset (accepted u) \<subseteq># mset (accepted (ep_send s)) + mset (sent_by e')"
    by simp_all
  have "mset (accepted u) + owed_all handler (procs (ep_recv s)) \<subseteq>#
      mset (accepted (ep_send s)) + owed_all handler (procs (ep_recv s)) + mset (sent_by e')"
    using subset_mset.add_right_mono [OF c(2)] by (simp add: ac_simps)
  also have "\<dots> \<subseteq># answers handler (decoded (ep_recv s)) + D + mset (sent_by e')"
    using assms(2) by (simp add: accounted_def subset_mset.add_right_mono)
  finally show ?thesis using EpSend t c(1) by (simp add: accounted_def direct_def ac_simps)
next
  case (EpReply i c)
  with assms accounted_reply [of i c s t handler D] show ?thesis
    by (simp add: endpoint_step_def direct_def split: if_splits)
qed

lemma endpoint_run_accounted:
  "run_events (endpoint_step decode handler) es s = Some t \<Longrightarrow> accounted handler D s \<Longrightarrow> carried (ep_send s) \<Longrightarrow>
     accounted handler (D + mset (direct es)) t \<and> carried (ep_send t)"
proof (induction es arbitrary: s D)
  case Nil
  then show ?case by (simp add: direct_def)
next
  case (Cons e es)
  then obtain u where u: "endpoint_step decode handler e s = Some u" "run_events (endpoint_step decode handler) es u = Some t"
    by (auto split: option.splits)
  have "direct (e # es) = direct [e] @ direct es" by (simp add: direct_def)
  with endpoint_step_accounted [OF u(1) Cons.prems(2,3)] Cons.IH [OF u(2), of "D + mset (direct [e])"] show ?case
    by (simp add: add.assoc)
qed

text \<open>
  C8. Every frame is an answer. In every run of an endpoint, with any interleaving of readers,
  processing goroutines, direct senders, write failures and stops: the texts written to the
  connection are, counted with multiplicity, answers of the processor to messages that were
  received and decoded, and messages sent directly. So no message is answered twice and no
  answer is made up or mixed with another.
\<close>

theorem frames_are_answers:
  assumes "run_events (endpoint_step decode handler) es NewEndpoint = Some s"
  shows "mset (texts (wire (ep_send s))) \<subseteq># mset (List.map_filter handler (decoded (ep_recv s))) + mset (direct es)"
proof -
  have "accounted handler {#} NewEndpoint \<and> carried (ep_send NewEndpoint)"
    by (simp add: accounted_def carried_def NewEndpoint_def NewMessageSender_def NewMessageReceiver_def SetSender_def
        make_chan_def owed_all_def answers_def)
  then have a: "accounted handler (mset (direct es)) s" and c: "carried (ep_send s)"
    using endpoint_run_accounted [OF assms, of "{#}"] by auto
  from c have "mset (texts (wire (ep_send s))) \<subseteq># mset (accepted (ep_send s))"
    unfolding carried_def by (metis add.assoc mset_subset_eq_add_left subset_mset.order_trans)
  also have "\<dots> \<subseteq># answers handler (decoded (ep_recv s)) + mset (direct es)"
    using a unfolding accounted_def by (metis mset_subset_eq_add_left subset_mset.order_trans)
  finally show ?thesis by (simp add: answers_def)
qed

section \<open>Stopping an endpoint\<close>

text \<open>
  As long as no \<^verbatim>\<open>Stop\<close> was called and the processor and the sender stay set, no channel is closed and
  nothing panics.
\<close>

definition quiet :: "MessageReceiver \<Rightarrow> bool" where
  "quiet r \<longleftrightarrow> rstops r = [] \<and> \<not> chan_closed (messageChan r) \<and> processor r \<and> rsender r \<and> \<not> recv_panicked r"

definition calm :: "endpoint \<Rightarrow> bool" where
  "calm s \<longleftrightarrow> \<not> ep_crashed s \<and> stops (ep_send s) = [] \<and> \<not> chan_closed (sendChan (ep_send s)) \<and> quiet (ep_recv s)"

lemma quiet_raw:
  assumes "quiet r" shows "\<exists>u. handleRawMessage decode data pd r = Returns u \<and> quiet u \<and> rpumps u = rpumps r"
  using assms by (auto simp: handleRawMessage_def Let_def chan_send_def quiet_def recv_panicked_def split: option.split)

lemma quiet_pumps: "quiet r \<Longrightarrow> x \<noteq> RPanicked \<Longrightarrow> quiet (r\<lparr>rpumps := (rpumps r)[i := x]\<rparr>)"
  using set_update_subset_insert [of "rpumps r" i x] by (auto simp: quiet_def recv_panicked_def)

lemma quiet_procs: "quiet r \<Longrightarrow> x \<noteq> RProcPanicked \<Longrightarrow> quiet (r\<lparr>procs := (procs r)[i := x]\<rparr>)"
  using set_update_subset_insert [of "procs r" i x] by (auto simp: quiet_def recv_panicked_def)

lemma quiet_pump:
  assumes "receivePump decode i ev r = Some t" and "quiet r"
  shows "quiet t"
proof (cases "\<exists>data pd. rpumps r ! i = RReading \<and> ev = Some (ReadData data pd)")
  case True
  then obtain data pd where rd: "rpumps r ! i = RReading" "ev = Some (ReadData data pd)" by blast
  obtain u where "handleRawMessage decode data pd r = Returns u" "quiet u" using quiet_raw [OF assms(2)] by blast
  with assms(1) rd quiet_pumps [of u RSelect i] show ?thesis by (auto simp: receivePump_def split: if_splits)
next
  case False
  with assms show ?thesis
    by (auto simp: receivePump_def intro!: quiet_pumps split: recv_pump.splits option.splits read_result.splits if_splits)
qed

lemma quiet_process:
  assumes "processMessage i answer running r = Some t" and "quiet r"
  shows "quiet t"
proof -
  have set: "processor r" "rsender r" using assms(2) by (simp_all add: quiet_def)
  have "quiet (r\<lparr>replies := xs\<rparr>)" for xs using assms(2) by (simp add: quiet_def recv_panicked_def)
  with assms set show ?thesis
    using quiet_procs [of "r\<lparr>replies := replies r @ [_]\<rparr>" RDone i]
    by (auto simp: processMessage_def Let_def intro!: quiet_procs split: if_splits proc.splits option.splits)
qed

lemma quiet_receiver:
  assumes "receiver_step decode e r = Some t" and "quiet r"
    and "e \<noteq> RvStopCall" and "e \<noteq> RvSetProcessor False" and "e \<noteq> RvSetSender False"
  shows "quiet t"
proof (cases e)
  case (RvPump i ev)
  with assms quiet_pump show ?thesis by simp
next
  case (RvProcess i answer running)
  with assms quiet_process show ?thesis by simp
next
  case (RvStop j)
  with assms show ?thesis by (auto simp: Receiver_Stop_def quiet_def)
qed (use assms in \<open>auto simp: Receiver_Start_def SetProcessor_def SetSender_def quiet_def recv_panicked_def chan_recv_def
      split: list.splits\<close>)

lemma calm_send:
  assumes "SendRawBytes data c s = Some (ret, t)" and "\<not> chan_closed (sendChan s)"
  shows "ret \<noteq> SendPanicked \<and> stops t = stops s \<and> \<not> chan_closed (sendChan t)"
  using assms by (cases c) (auto simp: SendRawBytes_def chan_send_def split: if_splits send_result.splits)

lemma calm_sender:
  assumes "sender_step e s = Some t" and "e \<noteq> EvStopCall" and "stops s = []" and "\<not> chan_closed (sendChan s)"
  shows "stops t = [] \<and> \<not> chan_closed (sendChan t) \<and> \<not> send_panics e s"
proof (cases e)
  case (EvSend data c)
  with assms calm_send [of data c s] show ?thesis by (auto simp: send_panics_def)
next
  case (EvPump i c)
  with assms show ?thesis
    by (auto simp: sendPump_def send_panics_def chan_recv_def split: if_splits pump.splits pump_case.splits list.splits)
next
  case (EvStop j)
  with assms show ?thesis by (auto simp: Stop_def)
qed (use assms in \<open>auto simp: Start_def send_panics_def split: if_splits\<close>)

definition disturbing :: "endpoint_event set" where
  "disturbing = {EpSend EvStopCall, EpRecv RvStopCall, EpRecv (RvSetProcessor False), EpRecv (RvSetSender False)}"

lemma calm_reply:
  assumes "reply_step i c s = Some t" and "calm s" shows "calm t"
proof -
  have q: "quiet (ep_recv s)" "rsender (ep_recv s)" using assms(2) by (simp_all add: calm_def quiet_def)
  with assms(1) obtain a ret u where a: "SendRawBytes a c (ep_send s) = Some (ret, u)" "i < length (procs (ep_recv s))"
    and t: "t = (if ret = SendPanicked then s\<lparr>ep_crashed := True\<rparr> else t)"
      "ret \<noteq> SendPanicked \<longrightarrow> (\<exists>r. processMessage i None True (ep_recv s) = Some r \<and> t = s\<lparr>ep_recv := r, ep_send := u\<rparr>)"
    by (auto simp: reply_step_def split: if_splits proc.splits option.splits)
  have "ret \<noteq> SendPanicked \<and> stops u = stops (ep_send s) \<and> \<not> chan_closed (sendChan u)"
    using calm_send [OF a(1)] assms(2) by (simp add: calm_def)
  with t assms(2) quiet_process [OF _ q(1)] show ?thesis by (auto simp: calm_def)
qed

lemma calm_step:
  assumes "endpoint_step decode handler e s = Some t" and "calm s" and "e \<notin> disturbing"
  shows "calm t"
proof (cases e)
  case (EpRecv e')
  with assms obtain r where r: "receiver_step decode e' (ep_recv s) = Some r" and t: "t = s\<lparr>ep_recv := r, ep_crashed := recv_panicked r\<rparr>"
    by (auto simp: endpoint_step_def split: if_splits)
  have "quiet r" using assms(2,3) EpRecv by (intro quiet_receiver [OF r]) (auto simp: calm_def disturbing_def)
  then show ?thesis using assms(2) by (simp add: t calm_def quiet_def)
next
  case (EpSend e')
  with assms calm_sender [of e' "ep_send s"] show ?thesis
    by (auto simp: endpoint_step_def calm_def disturbing_def split: if_splits)
next
  case (EpReply i c)
  with assms calm_reply show ?thesis by (simp add: endpoint_step_def split: if_splits)
qed

definition undisturbed :: "(endpoint_event \<Rightarrow> endpoint \<Rightarrow> endpoint option) \<Rightarrow> endpoint_event \<Rightarrow> endpoint \<Rightarrow> endpoint option" where
  "undisturbed step e s = (if e \<in> disturbing then None else step e s)"

interpretation calm_endpoint: event_invariant "undisturbed (endpoint_step decode handler)" calm for decode handler
  by unfold_locales (auto simp: undisturbed_def dest: calm_step split: if_splits)

text \<open>
  The run of an orderly shutdown: one message is read and answered, the goroutine has asked whether the
  sender is running; then the receiver is stopped and its \<^verbatim>\<open>Stop\<close> returns, then the sender is
  stopped; then the goroutine, for which neither of them waits, sends its answer.
\<close>

definition orderly :: "bytes \<Rightarrow> string \<Rightarrow> endpoint_event list" where
  "orderly data a =
     [EpSend EvStart, EpRecv RvStart, EpRecv (RvPump 0 None), EpRecv (RvPump 0 (Some (ReadData data False))),
      EpRecv (RvProcess 0 None False), EpRecv (RvProcess 0 (Some a) False), EpRecv (RvProcess 0 None False), EpRecv (RvProcess 0 None False),
      EpRecv (RvProcess 0 None True), EpRecv RvStopCall, EpRecv (RvStop 0), EpRecv (RvPump 0 None), EpRecv (RvStop 0), EpRecv (RvStop 0), EpRecv (RvStop 0),
      EpSend EvStopCall, EpSend (EvStop 0), EpSend (EvStop 0), EpSend (EvStop 0)]"

lemmas endpoint_eval = endpoint_step_def recv_allowed_def NewEndpoint_def NewMessageSender_def NewMessageReceiver_def
  SetSender_def make_chan_def Start_def Receiver_Start_def receivePump_def handleRawMessage_def chan_send_def
  processMessage_def Receiver_Stop_def chan_close_def Stop_def IsRunning_def send_panics_def recv_panicked_def Let_def

lemma orderly_run:
  assumes "decode data = Some m" and "data \<noteq> []" and "handler m = Some a" and "a \<noteq> []"
  shows "\<exists>s. run_events (endpoint_step decode handler) (orderly data a) NewEndpoint = Some s \<and>
     \<not> ep_crashed s \<and> rstops (ep_recv s) = [StReturned] \<and> stops (ep_send s) = [StWait] \<and> procs (ep_recv s) = [RSending a] \<and>
     rsender (ep_recv s) \<and> chan_closed (sendChan (ep_send s))"
  using assms by (simp add: orderly_def endpoint_eval)

lemma run_undisturbed:
  "set es \<inter> disturbing = {} \<Longrightarrow> run_events (undisturbed step) es s = run_events step es s"
  by (induction es arbitrary: s) (auto simp: undisturbed_def split: option.split)


text \<open>
  Taking the processor away while a message is being processed crashes the process too: the
  goroutine that was started because a processor was set calls it when it is nil.
\<close>

lemma unset_processor_crashes:
  assumes "decode data = Some m" and "data \<noteq> []"
  shows "\<exists>s. run_events (endpoint_step decode handler)
      [EpRecv RvStart, EpRecv (RvPump 0 None), EpRecv (RvPump 0 (Some (ReadData data False))), EpRecv (RvProcess 0 None False),
       EpRecv (RvSetProcessor False), EpRecv (RvProcess 0 (handler m) False)] NewEndpoint = Some s \<and> ep_crashed s"
  using assms by (simp add: endpoint_eval SetProcessor_def)

text \<open>An echo processor on messages that stand for themselves.\<close>

definition echo_decode :: "bytes \<Rightarrow> Message option" where
  "echo_decode b = Some \<lparr>Main = ''chat'', Sub = ''say'', Payload = b\<rparr>"

definition echo :: "Message \<Rightarrow> string option" where
  "echo m = Some (GetPayload m)"


theorem frames_are_answers_witness:
  "\<exists>s. run_events (endpoint_step echo_decode echo)
        [EpSend EvStart, EpRecv RvStart, EpRecv (RvPump 0 None), EpRecv (RvPump 0 (Some (ReadData ''hi'' False))),
         EpRecv (RvProcess 0 None False), EpRecv (RvProcess 0 (Some ''hi'') False), EpRecv (RvProcess 0 None False),
         EpRecv (RvProcess 0 None False), EpRecv (RvProcess 0 None True),
         EpReply 0 CaseSend, EpSend (EvPump 0 TakeMessage), EpSend (EvPump 0 (WriteFrame True))] NewEndpoint = Some s \<and>
     texts (wire (ep_send s)) = [''hi''] \<and>
     mset (texts (wire (ep_send s))) \<subseteq># mset (List.map_filter echo (decoded (ep_recv s)))"
proof -
  let ?es = "[EpSend EvStart, EpRecv RvStart, EpRecv (RvPump 0 None), EpRecv (RvPump 0 (Some (ReadData ''hi'' False))),
     EpRecv (RvProcess 0 None False), EpRecv (RvProcess 0 (Some ''hi'') False), EpRecv (RvProcess 0 None False),
     EpRecv (RvProcess 0 None False), EpRecv (RvProcess 0 None True),
     EpReply 0 CaseSend, EpSend (EvPump 0 TakeMessage), EpSend (EvPump 0 (WriteFrame True))]"
  obtain s where s: "run_events (endpoint_step echo_decode echo) ?es NewEndpoint = Some s" "texts (wire (ep_send s)) = [''hi'']"
    by (simp add: endpoint_eval reply_step_def SendRawBytes_def sendPump_def chan_recv_def echo_decode_def echo_def GetPayload_def)
  moreover have "direct ?es = []" by (simp add: direct_def sent_by_def)
  ultimately show ?thesis using frames_are_answers [OF s(1)] by auto
qed

end
