(* ===== verification/Client_Manager.thy ===== *)
theory Client_Manager
  imports Prelude
begin

text \<open>
  \<^verbatim>\<open>libs/server/ws_client.go\<close> and \<^verbatim>\<open>libs/server/ws_client_manager.go\<close>: websocket clients, each with
  a reading and a writing goroutine, and the manager that registers, broadcasts to and closes them.

  Clients are objects shared between the manager's maps and their goroutines, so they live in a
  heap and are referred to by address. The manager's loop, the two goroutines of each client and
  the callers of the manager's methods are the actors of an event machine; a message passed over
  one of the manager's unbuffered channels is one event that needs the loop at its \<^verbatim>\<open>select\<close>.

  The cases of the loop and the methods that touch the maps without a channel (\<^verbatim>\<open>KickClient...\<close>,
  \<^verbatim>\<open>ClientKeepLive\<close>, \<^verbatim>\<open>Stop\<close>) are programs of single operations on the maps and the clients (\<open>prog\<close>), and
  one event is one such operation of the loop or of one call in progress, so they interleave as the
  goroutines do. The maps have no lock: when two of these programs are in progress at the same time
  the state is marked (\<open>overlapped\<close>), and the fatal error of the runtime for concurrent map accesses
  may come (also when both programs only read, where Go would let them pass). Go's map iteration order
  is an argument. The decoder and the message handler are
  parameters that return; a panic of theirs ends the process like any other.
\<close>

section \<open>Clients\<close>

datatype client_frame = CText bytes | CPing | CCloseFrame

datatype writer_pc = WrIdle | WrSelect | WrWaitClosed | WrReturned
datatype reader_pc = RdIdle | RdRead | RdSend bytes | RdUnregister | RdReturned | RdPanicked

record Client =
  sessionId :: string
  userId :: string
  send :: "bytes chan"
  cclosed :: "unit chan"
  conn_open :: bool
  writer :: writer_pc
  reader :: reader_pc
  cwire :: "client_frame list"

definition NewClient :: "string \<Rightarrow> string \<Rightarrow> Client" where
  "NewClient uid sid = \<lparr>sessionId = sid, userId = uid, send = make_chan 1024, cclosed = make_chan 0,
     conn_open = True, writer = WrIdle, reader = RdIdle, cwire = []\<rparr>"

definition GetSessionID :: "Client \<Rightarrow> string" where "GetSessionID c = sessionId c"
definition GetUserID :: "Client \<Rightarrow> string" where "GetUserID c = userId c"

text \<open>A call ends, waits, or panics; the value is the state at that moment.\<close>

datatype 'a call = Done 'a | Waits 'a | Panicked 'a

definition Send :: "bytes \<Rightarrow> Client \<Rightarrow> Client call" where
  "Send message' c =
     (case chan_send message' (send c) of
        Sent ch \<Rightarrow> Done (c\<lparr>send := ch\<rparr>) | SendBlocks \<Rightarrow> Waits c | SendPanics \<Rightarrow> Panicked c)"

definition Close :: "Client \<Rightarrow> Client call" where
  "Close c =
     (case chan_close (send c) of
        None \<Rightarrow> Panicked c
      | Some ch \<Rightarrow>
          (let c1 = c\<lparr>send := ch\<rparr>
           in case chan_close (cclosed c1) of
                None \<Rightarrow> Panicked c1
              | Some ch' \<Rightarrow> Done (c1\<lparr>cclosed := ch', conn_open := False\<rparr>)))"

definition Listen :: "Client \<Rightarrow> Client" where
  "Listen c = c\<lparr>reader := RdRead, writer := WrSelect\<rparr>"

text \<open>
  \<^verbatim>\<open>SendMessage\<close>, the writing goroutine, by \<^verbatim>\<open>select\<close> case; the flags say whether the connection
  accepted the frame. The errors of \<^verbatim>\<open>w.Write\<close> and \<^verbatim>\<open>w.Close\<close> are ignored by the code. The
  deferred function closes the connection on every return.
\<close>

datatype writer_case = WrMessage bool bool | WrTick bool | WrClosed

definition writer_return :: "Client \<Rightarrow> Client" where
  "writer_return c = c\<lparr>writer := WrReturned, conn_open := False\<rparr>"

definition SendMessage :: "writer_case \<Rightarrow> Client \<Rightarrow> Client option" where
  "SendMessage w c =
     (case writer c of
        WrSelect \<Rightarrow>
          (case w of
             WrMessage next_ok write_ok \<Rightarrow>
               (case chan_recv (send c) of
                  Received message' ch \<Rightarrow>
                    (let c1 = c\<lparr>send := ch\<rparr>
                     in if \<not> next_ok then Some (writer_return c1)
                        else Some (if write_ok then c1\<lparr>cwire := cwire c1 @ [CText message']\<rparr> else c1))
                | RecvClosed \<Rightarrow>
                    if next_ok then Some (writer_return (c\<lparr>cwire := cwire c @ [CCloseFrame]\<rparr>))
                    else Some (c\<lparr>writer := WrWaitClosed\<rparr>)
                | RecvBlocks \<Rightarrow> None)
           | WrTick ok \<Rightarrow> Some (if ok then c\<lparr>cwire := cwire c @ [CPing]\<rparr> else writer_return c)
           | WrClosed \<Rightarrow> if chan_closed (cclosed c) then Some (writer_return c) else None)
      | WrWaitClosed \<Rightarrow> if chan_closed (cclosed c) then Some (writer_return c) else None
      | _ \<Rightarrow> None)"

text \<open>
  \<^verbatim>\<open>ReceivedMessage\<close>, the reading goroutine: a read that ends with data or an error; decoding and
  handling; the send of the result on the client's own channel. After a read error the deferred
  function unregisters the client at the manager (an event of the manager below) and closes the
  connection.
\<close>

datatype reader_case = RdData bytes | RdError | RdDeliver

definition ReceivedMessage ::
  "(bytes \<Rightarrow> 'm option) \<Rightarrow> ('m \<Rightarrow> bytes option) \<Rightarrow> reader_case \<Rightarrow> Client \<Rightarrow> Client option" where
  "ReceivedMessage decode handle rc c =
     (case (reader c, rc) of
        (RdRead, RdError) \<Rightarrow> Some (c\<lparr>reader := RdUnregister\<rparr>)
      | (RdRead, RdData msg) \<Rightarrow>
          if \<not> conn_open c then None
          else if msg = [] then Some c
          else (case decode msg of
                  None \<Rightarrow> Some c
                | Some message' \<Rightarrow>
                    (case handle message' of
                       None \<Rightarrow> Some c
                     | Some resultMsg \<Rightarrow> Some (c\<lparr>reader := RdSend resultMsg\<rparr>)))
      | (RdSend result, RdDeliver) \<Rightarrow>
          (case Send result c of
             Done c1 \<Rightarrow> Some (c1\<lparr>reader := RdRead\<rparr>)
           | Waits _ \<Rightarrow> None
           | Panicked c1 \<Rightarrow> Some (c1\<lparr>reader := RdPanicked\<rparr>))
      | _ \<Rightarrow> None)"

section \<open>The manager\<close>

text \<open>
  The operations of the manager's code: reading and writing the two maps, the identifiers of a client
  (which never change), \<^verbatim>\<open>Close\<close> and \<^verbatim>\<open>Send\<close> of a client, and the send on \<^verbatim>\<open>stopChan\<close>. What is read is
  given to the rest of the program.
\<close>

datatype prog =
    Return
  | StopSend
  | ReadUser string "string option \<Rightarrow> prog"
  | ReadClient string "nat option \<Rightarrow> prog"
  | IdsOf nat "string \<Rightarrow> string \<Rightarrow> prog"
  | SetClient string nat prog
  | SetUser string string prog
  | DelClient string prog
  | DelUser string prog
  | CloseC nat prog
  | SendTo nat bytes prog

text \<open>
  Where the goroutine of \<^verbatim>\<open>Start\<close> is: not started, at its \<^verbatim>\<open>select\<close>, in a case of it, in the \<^verbatim>\<open>m.Stop()\<close>
  that it calls itself, returned. \<open>calls\<close> holds what is left of each call of a method.
\<close>

datatype loop_pc = LNotStarted | LSelect | LRun prog | LStopping prog | LReturned

record ClientManager =
  clients :: "string \<rightharpoonup> nat"
  userIdMap :: "string \<rightharpoonup> string"
  heap :: "Client list"
  loop :: loop_pc
  calls :: "prog list"
  registered :: "nat set"
  overlapped :: bool
  crashed :: bool

definition NewClientManager :: ClientManager where
  "NewClientManager = \<lparr>clients = Map.empty, userIdMap = Map.empty, heap = [], loop = LNotStarted,
     calls = [], registered = {}, overlapped = False, crashed = False\<rparr>"

definition put :: "nat \<Rightarrow> Client \<Rightarrow> ClientManager \<Rightarrow> ClientManager" where
  "put a c m = m\<lparr>heap := (heap m)[a := c]\<rparr>"

text \<open>\<^verbatim>\<open>Start\<close> up to its loop: a second start closes \<^verbatim>\<open>startChan\<close> again and panics.\<close>

definition Start :: "ClientManager \<Rightarrow> ClientManager call" where
  "Start m = (if loop m = LNotStarted then Done (m\<lparr>loop := LSelect\<rparr>) else Panicked m)"

text \<open>
  An iteration over the registry: \<open>order\<close> is the order in which the runtime yields the keys; a session
  that is no longer registered when its turn comes is not yielded.
\<close>

fun iterate :: "string list \<Rightarrow> (nat \<Rightarrow> prog \<Rightarrow> prog) \<Rightarrow> prog \<Rightarrow> prog" where
  "iterate [] body rest = rest"
| "iterate (sid # order) body rest =
     ReadClient sid (\<lambda>r. case r of None \<Rightarrow> iterate order body rest | Some a \<Rightarrow> body a (iterate order body rest))"

text \<open>The cases of the loop's \<^verbatim>\<open>select\<close>, for the client at address \<open>a\<close>.\<close>

definition on_register :: "nat \<Rightarrow> Client \<Rightarrow> prog" where
  "on_register a client =
     SetClient (GetSessionID client) a (SetUser (GetUserID client) (GetSessionID client) Return)"

definition on_unregister :: "nat \<Rightarrow> Client \<Rightarrow> prog" where
  "on_unregister a client =
     ReadClient (GetSessionID client) (\<lambda>r. case r of
         Some _ \<Rightarrow> CloseC a (DelClient (GetSessionID client) Return)
       | None \<Rightarrow> Return)"

definition on_broadcast :: "string list \<Rightarrow> bytes \<Rightarrow> prog" where
  "on_broadcast order message' = iterate order (\<lambda>client rest. SendTo client message' rest) Return"

text \<open>The methods.\<close>

definition ClientKeepLive :: "string list \<Rightarrow> prog" where
  "ClientKeepLive order = iterate order (\<lambda>client rest. SendTo client ''keepalive'' rest) Return"

definition ClientCount :: "ClientManager \<Rightarrow> nat" where
  "ClientCount m = card (dom (clients m))"

definition KickClientByUserId :: "string \<Rightarrow> prog" where
  "KickClientByUserId uid =
     ReadUser uid (\<lambda>r. case r of
         Some sid \<Rightarrow> ReadClient sid (\<lambda>c. case c of
             Some client \<Rightarrow> CloseC client (DelClient sid (DelUser uid Return))
           | None \<Rightarrow> Return)
       | None \<Rightarrow> Return)"

definition KickClientBySessionId :: "string \<Rightarrow> prog" where
  "KickClientBySessionId sid =
     ReadClient sid (\<lambda>c. case c of
         Some client \<Rightarrow> CloseC client (DelClient sid (IdsOf client (\<lambda>s u. DelUser u Return)))
       | None \<Rightarrow> Return)"

definition Manager_Stop :: "string list \<Rightarrow> prog" where
  "Manager_Stop order =
     iterate order (\<lambda>client rest. CloseC client (IdsOf client (\<lambda>s u. DelClient s (DelUser u rest)))) StopSend"

section \<open>The machine\<close>

text \<open>One operation of a program. The send on \<^verbatim>\<open>stopChan\<close> needs a receiver and is an event of its own.\<close>

fun prog_step :: "prog \<Rightarrow> ClientManager \<Rightarrow> (prog \<times> ClientManager) call" where
  "prog_step Return m = Waits (Return, m)"
| "prog_step StopSend m = Waits (StopSend, m)"
| "prog_step (ReadUser uid k) m = Done (k (userIdMap m uid), m)"
| "prog_step (ReadClient sid k) m = Done (k (clients m sid), m)"
| "prog_step (IdsOf a k) m = Done (k (GetSessionID (heap m ! a)) (GetUserID (heap m ! a)), m)"
| "prog_step (SetClient sid a p) m = Done (p, m\<lparr>clients := (clients m)(sid \<mapsto> a)\<rparr>)"
| "prog_step (SetUser uid sid p) m = Done (p, m\<lparr>userIdMap := (userIdMap m)(uid \<mapsto> sid)\<rparr>)"
| "prog_step (DelClient sid p) m = Done (p, m\<lparr>clients := (clients m)(sid := None)\<rparr>)"
| "prog_step (DelUser uid p) m = Done (p, m\<lparr>userIdMap := (userIdMap m)(uid := None)\<rparr>)"
| "prog_step (CloseC a p) m =
     (case Close (heap m ! a) of
        Done c \<Rightarrow> Done (p, put a c m) | Waits c \<Rightarrow> Waits (CloseC a p, m) | Panicked c \<Rightarrow> Panicked (p, put a c m))"
| "prog_step (SendTo a message' p) m =
     (case Send message' (heap m ! a) of
        Done c \<Rightarrow> Done (p, put a c m) | Waits c \<Rightarrow> Waits (SendTo a message' p, m) | Panicked c \<Rightarrow> Panicked (p, m))"

text \<open>A program that runs alone, to its end.\<close>

primrec exec :: "prog \<Rightarrow> ClientManager \<Rightarrow> ClientManager call" where
  "exec Return = Done"
| "exec StopSend = Waits"
| "exec (ReadUser uid k) = (\<lambda>m. exec (k (userIdMap m uid)) m)"
| "exec (ReadClient sid k) = (\<lambda>m. exec (k (clients m sid)) m)"
| "exec (IdsOf a k) = (\<lambda>m. exec (k (GetSessionID (heap m ! a)) (GetUserID (heap m ! a))) m)"
| "exec (SetClient sid a p) = (\<lambda>m. exec p (m\<lparr>clients := (clients m)(sid \<mapsto> a)\<rparr>))"
| "exec (SetUser uid sid p) = (\<lambda>m. exec p (m\<lparr>userIdMap := (userIdMap m)(uid \<mapsto> sid)\<rparr>))"
| "exec (DelClient sid p) = (\<lambda>m. exec p (m\<lparr>clients := (clients m)(sid := None)\<rparr>))"
| "exec (DelUser uid p) = (\<lambda>m. exec p (m\<lparr>userIdMap := (userIdMap m)(uid := None)\<rparr>))"
| "exec (CloseC a p) = (\<lambda>m. case Close (heap m ! a) of
     Done c \<Rightarrow> exec p (put a c m) | Waits c \<Rightarrow> Waits m | Panicked c \<Rightarrow> Panicked (put a c m))"
| "exec (SendTo a message' p) = (\<lambda>m. case Send message' (heap m ! a) of
     Done c \<Rightarrow> exec p (put a c m) | Waits c \<Rightarrow> Waits m | Panicked c \<Rightarrow> Panicked m)"

text \<open>The programs in progress that have still to do with the maps.\<close>

definition touching :: "prog \<Rightarrow> bool" where
  "touching p \<longleftrightarrow> p \<noteq> Return \<and> p \<noteq> StopSend"

definition loop_prog :: "loop_pc \<Rightarrow> prog list" where
  "loop_prog l = (case l of LRun p \<Rightarrow> [p] | LStopping p \<Rightarrow> [p] | _ \<Rightarrow> [])"

definition active :: "ClientManager \<Rightarrow> prog list" where
  "active m = filter touching (calls m @ loop_prog (loop m))"

definition mark_overlap :: "ClientManager \<Rightarrow> ClientManager" where
  "mark_overlap m = m\<lparr>overlapped := overlapped m \<or> 1 < length (active m)\<rparr>"

datatype event =
    MNew string string
  | MListen nat
  | MStart
  | MRegister nat
  | MUnregister nat
  | MBroadcast "string list" bytes
  | MLoop
  | MKeepLive "string list"
  | MKickUser string
  | MKickSession string
  | MStopCall "string list"
  | MCall nat
  | MStopReceived nat "string list"
  | MLoopStopSent
  | MWrite nat writer_case
  | MRead nat reader_case
  | MFatal

text \<open>Somebody receives from \<^verbatim>\<open>stopChan\<close>: only the loop at its \<^verbatim>\<open>select\<close> does.\<close>

definition stopChan_received :: "ClientManager \<Rightarrow> bool" where
  "stopChan_received m \<longleftrightarrow> loop m = LSelect"

definition iteration :: "string list \<Rightarrow> ClientManager \<Rightarrow> bool" where
  "iteration order m \<longleftrightarrow> distinct order \<and> dom (clients m) \<subseteq> set order"

text \<open>
  The result of an operation, put back where the program was (\<open>back\<close>); a panic of one goroutine ends
  the process, an operation that waits is tried again by a later event.
\<close>

fun resume :: "(prog \<Rightarrow> ClientManager \<Rightarrow> ClientManager) \<Rightarrow> (prog \<times> ClientManager) call \<Rightarrow> ClientManager option" where
  "resume back (Done (p, m)) = Some (back p m)"
| "resume back (Waits _) = None"
| "resume back (Panicked (p, m)) = Some ((back p m)\<lparr>crashed := True\<rparr>)"

definition call_step :: "nat \<Rightarrow> ClientManager \<Rightarrow> ClientManager option" where
  "call_step i m =
     (if i < length (calls m) then resume (\<lambda>p t. t\<lparr>calls := (calls t)[i := p]\<rparr>) (prog_step (calls m ! i) m) else None)"

definition loop_step :: "ClientManager \<Rightarrow> ClientManager option" where
  "loop_step m =
     (case loop m of
        LRun Return \<Rightarrow> Some (m\<lparr>loop := LSelect\<rparr>)
      | LStopping Return \<Rightarrow> Some (m\<lparr>loop := LReturned\<rparr>)
      | LRun p \<Rightarrow> resume (\<lambda>q t. t\<lparr>loop := LRun q\<rparr>) (prog_step p m)
      | LStopping p \<Rightarrow> resume (\<lambda>q t. t\<lparr>loop := LStopping q\<rparr>) (prog_step p m)
      | _ \<Rightarrow> None)"

definition begin_call :: "prog \<Rightarrow> ClientManager \<Rightarrow> ClientManager" where
  "begin_call p m = m\<lparr>calls := calls m @ [p]\<rparr>"

definition manager_do :: "(bytes \<Rightarrow> 'm option) \<Rightarrow> ('m \<Rightarrow> bytes option) \<Rightarrow> event \<Rightarrow> ClientManager \<Rightarrow> ClientManager option" where
  "manager_do d h e m =
     (case e of
        MNew uid sid \<Rightarrow> Some (m\<lparr>heap := heap m @ [NewClient uid sid]\<rparr>)
      | MListen a \<Rightarrow>
          if a < length (heap m) \<and> reader (heap m ! a) = RdIdle then Some (put a (Listen (heap m ! a)) m) else None
      | MStart \<Rightarrow> (case Start m of Done t \<Rightarrow> Some t | Waits t \<Rightarrow> None | Panicked t \<Rightarrow> Some (t\<lparr>crashed := True\<rparr>))
      | MRegister a \<Rightarrow>
          if loop m = LSelect \<and> a < length (heap m)
          then Some (m\<lparr>registered := insert a (registered m), loop := LRun (on_register a (heap m ! a))\<rparr>) else None
      | MUnregister a \<Rightarrow>
          if loop m = LSelect \<and> a < length (heap m) \<and> reader (heap m ! a) = RdUnregister
          then Some ((put a ((heap m ! a)\<lparr>reader := RdReturned, conn_open := False\<rparr>) m)
                 \<lparr>loop := LRun (on_unregister a (heap m ! a))\<rparr>)
          else None
      | MBroadcast order message' \<Rightarrow>
          if loop m = LSelect \<and> iteration order m then Some (m\<lparr>loop := LRun (on_broadcast order message')\<rparr>) else None
      | MLoop \<Rightarrow> loop_step m
      | MKeepLive order \<Rightarrow> if iteration order m then Some (begin_call (ClientKeepLive order) m) else None
      | MKickUser uid \<Rightarrow> Some (begin_call (KickClientByUserId uid) m)
      | MKickSession sid \<Rightarrow> Some (begin_call (KickClientBySessionId sid) m)
      | MStopCall order \<Rightarrow> if iteration order m then Some (begin_call (Manager_Stop order) m) else None
      | MCall i \<Rightarrow> call_step i m
      | MStopReceived i order \<Rightarrow>
          if i < length (calls m) \<and> calls m ! i = StopSend \<and> stopChan_received m \<and> iteration order m
          then Some (m\<lparr>calls := (calls m)[i := Return], loop := LStopping (Manager_Stop order)\<rparr>) else None
      | MLoopStopSent \<Rightarrow>
          if loop m = LStopping StopSend \<and> stopChan_received m then Some (m\<lparr>loop := LStopping Return\<rparr>) else None
      | MWrite a w \<Rightarrow>
          if a < length (heap m) then map_option (\<lambda>c. put a c m) (SendMessage w (heap m ! a)) else None
      | MRead a r \<Rightarrow>
          if a < length (heap m) then map_option (\<lambda>c. put a c m) (ReceivedMessage d h r (heap m ! a)) else None
      | MFatal \<Rightarrow> if 1 < length (active m) then Some (m\<lparr>crashed := True\<rparr>) else None)"

definition manager_step :: "(bytes \<Rightarrow> 'm option) \<Rightarrow> ('m \<Rightarrow> bytes option) \<Rightarrow> event \<Rightarrow> ClientManager \<Rightarrow> ClientManager option" where
  "manager_step d h e m = map_option mark_overlap (manager_do d h e m)"

lemma manager_stepE:
  assumes "manager_step d h e m = Some t"
  obtains u where "manager_do d h e m = Some u" and "t = mark_overlap u"
  using assms by (auto simp: manager_step_def)

section \<open>The registry invariant\<close>

definition opened :: "Client \<Rightarrow> bool" where
  "opened c \<longleftrightarrow> \<not> chan_closed (send c) \<and> \<not> chan_closed (cclosed c)"

text \<open>
  Sessions are distinct; an entry of the registry leads to a client of that session; and a client
  is open exactly as long as it has not been registered or is still in the registry.
\<close>

definition good :: "Client list \<Rightarrow> (string \<rightharpoonup> nat) \<Rightarrow> nat set \<Rightarrow> bool" where
  "good hp cl reg \<longleftrightarrow>
     distinct (map sessionId hp) \<and>
     (\<forall>sid a. cl sid = Some a \<longrightarrow> a < length hp \<and> sessionId (hp ! a) = sid \<and> a \<in> reg) \<and>
     (\<forall>a < length hp. opened (hp ! a) \<longleftrightarrow> a \<notin> reg \<or> cl (sessionId (hp ! a)) = Some a) \<and>
     (\<forall>a \<in> reg. a < length hp)"

lemma good_entry: "good hp cl reg \<Longrightarrow> cl sid = Some a \<Longrightarrow> a < length hp \<and> sessionId (hp ! a) = sid \<and> a \<in> reg"
  unfolding good_def by blast

lemma good_sessions: "good hp cl reg \<Longrightarrow> distinct (map sessionId hp)"
  unfolding good_def by blast

lemma good_reg: "good hp cl reg \<Longrightarrow> a \<in> reg \<Longrightarrow> a < length hp"
  unfolding good_def by blast

lemma good_opened:
  "good hp cl reg \<Longrightarrow> a < length hp \<Longrightarrow> opened (hp ! a) \<longleftrightarrow> a \<notin> reg \<or> cl (sessionId (hp ! a)) = Some a"
  unfolding good_def by blast

lemma goodI:
  assumes "distinct (map sessionId hp)"
    and "\<And>sid a. cl sid = Some a \<Longrightarrow> a < length hp \<and> sessionId (hp ! a) = sid \<and> a \<in> reg"
    and "\<And>a. a < length hp \<Longrightarrow> opened (hp ! a) \<longleftrightarrow> a \<notin> reg \<or> cl (sessionId (hp ! a)) = Some a"
    and "\<And>a. a \<in> reg \<Longrightarrow> a < length hp"
  shows "good hp cl reg"
  using assms unfolding good_def by blast

lemma good_inj:
  "good hp cl reg \<Longrightarrow> a < length hp \<Longrightarrow> b < length hp \<Longrightarrow> sessionId (hp ! a) = sessionId (hp ! b) \<longleftrightarrow> a = b"
  using nth_eq_iff_index_eq [of "map sessionId hp" a b] good_sessions [of hp cl reg] by simp

lemma good_owner:
  "good hp cl reg \<Longrightarrow> a < length hp \<Longrightarrow> cl (sessionId (hp ! a)) = Some b \<Longrightarrow> b = a"
  using good_entry [of hp cl reg "sessionId (hp ! a)" b] good_inj [of hp cl reg b a] by simp

lemma good_put:
  assumes "good hp cl reg" and "sessionId c = sessionId (hp ! a)" and "opened c = opened (hp ! a)"
  shows "good (hp[a := c]) cl reg"
proof (cases "a < length hp")
  case True
  have same: "sessionId (hp[a := c] ! b) = sessionId (hp ! b)" "opened (hp[a := c] ! b) = opened (hp ! b)" for b
    using assms(2,3) True by (cases "b = a"; simp)+
  have "map sessionId (hp[a := c]) = map sessionId hp"
    by (rule nth_equalityI) (simp_all add: same)
  then show ?thesis using assms(1) by (simp add: good_def same)
qed (use assms(1) in \<open>simp add: list_update_beyond\<close>)

lemma good_close:
  assumes "good hp cl reg" and "cl sid = Some a" and "sessionId c = sid" and "\<not> opened c"
  shows "good (hp[a := c]) (cl(sid := None)) reg"
proof -
  have a: "a < length hp" "sessionId (hp ! a) = sid" "a \<in> reg"
    using good_entry [OF assms(1,2)] by auto
  have same: "sessionId (hp[a := c] ! b) = sessionId (hp ! b)" for b
    using assms(3) a by (cases "b = a") simp_all
  have sess: "map sessionId (hp[a := c]) = map sessionId hp"
    by (rule nth_equalityI) (simp_all add: same)
  have opn: "opened (hp[a := c] ! b) \<longleftrightarrow> b \<notin> reg \<or> (cl(sid := None)) (sessionId (hp ! b)) = Some b"
    if b: "b < length hp" for b
  proof (cases "b = a")
    case True
    with assms(4) a show ?thesis by simp
  next
    case False
    have "sessionId (hp ! b) \<noteq> sid"
      using False good_inj [OF assms(1) a(1) b] a(2) by simp
    with False good_opened [OF assms(1) b] show ?thesis by simp
  qed
  show ?thesis
  proof (rule goodI)
    fix s b assume "(cl(sid := None)) s = Some b"
    then show "b < length (hp[a := c]) \<and> sessionId (hp[a := c] ! b) = s \<and> b \<in> reg"
      using good_entry [OF assms(1)] by (auto simp: same split: if_splits)
  qed (use good_sessions [OF assms(1)] opn good_reg [OF assms(1)] in \<open>simp_all add: sess same\<close>)
qed

lemma good_new:
  assumes "good hp cl reg" and "sid \<notin> set (map sessionId hp)"
  shows "good (hp @ [NewClient uid sid]) cl reg"
proof -
  have new: "opened (NewClient uid sid)" "sessionId (NewClient uid sid) = sid"
    by (simp_all add: opened_def NewClient_def make_chan_def)
  have fresh: "length hp \<notin> reg" using good_reg [OF assms(1)] by blast
  show ?thesis
  proof (rule goodI)
    fix b assume "b < length (hp @ [NewClient uid sid])"
    then consider "b < length hp" | "b = length hp" by fastforce
    then show "opened ((hp @ [NewClient uid sid]) ! b) \<longleftrightarrow>
        b \<notin> reg \<or> cl (sessionId ((hp @ [NewClient uid sid]) ! b)) = Some b"
      using good_opened [OF assms(1)] new fresh by cases (simp_all add: nth_append)
  next
    fix s b assume "cl s = Some b"
    then show "b < length (hp @ [NewClient uid sid]) \<and> sessionId ((hp @ [NewClient uid sid]) ! b) = s \<and> b \<in> reg"
      using good_entry [OF assms(1)] by (fastforce simp: nth_append)
  next
    fix b assume "b \<in> reg"
    then show "b < length (hp @ [NewClient uid sid])" using good_reg [OF assms(1)] by fastforce
  qed (use good_sessions [OF assms(1)] assms(2) new in simp)
qed

lemma good_register:
  assumes "good hp cl reg" and "a < length hp" and "a \<notin> reg"
  shows "good hp (cl(sessionId (hp ! a) \<mapsto> a)) (insert a reg)"
proof (rule goodI)
    fix b assume b: "b < length hp"
    show "opened (hp ! b) \<longleftrightarrow> b \<notin> insert a reg \<or> (cl(sessionId (hp ! a) \<mapsto> a)) (sessionId (hp ! b)) = Some b"
    proof (cases "b = a")
      case True
      with good_opened [OF assms(1,2)] assms(3) show ?thesis by simp
    next
      case False
      with good_inj [OF assms(1,2) b] good_opened [OF assms(1) b] show ?thesis by simp
    qed
  next
    fix s b assume "(cl(sessionId (hp ! a) \<mapsto> a)) s = Some b"
    then show "b < length hp \<and> sessionId (hp ! b) = s \<and> b \<in> insert a reg"
      using good_entry [OF assms(1)] assms(2) by (auto split: if_splits)
qed (use good_sessions [OF assms(1)] good_reg [OF assms(1)] assms(2) in auto)

lemma Send_cases:
  assumes "opened c"
  obtains (sent) c' where "Send x c = Done c'" "sessionId c' = sessionId c" "userId c' = userId c" "opened c'" | (waits) "Send x c = Waits c"
proof (cases "length (chan_buf (send c)) < chan_cap (send c)")
  case True
  with assms show ?thesis
    by (intro sent [of "c\<lparr>send := send c\<lparr>chan_buf := chan_buf (send c) @ [x]\<rparr>\<rparr>"])
      (simp_all add: Send_def chan_send_def opened_def)
next
  case False
  with assms show ?thesis by (intro waits) (simp add: Send_def chan_send_def opened_def)
qed

lemma Close_open:
  assumes "opened c"
  obtains c' where "Close c = Done c'" "sessionId c' = sessionId c" "userId c' = userId c" "\<not> opened c'"
  using assms by (auto simp: Close_def chan_close_def opened_def Let_def)

lemma SendMessage_same: "SendMessage w c = Some c' \<Longrightarrow> sessionId c' = sessionId c \<and> userId c' = userId c \<and> opened c' = opened c"
  by (cases "writer c"; cases w)
    (auto simp: SendMessage_def chan_recv_def opened_def writer_return_def Let_def split: if_splits list.splits)

lemma ReceivedMessage_same: "ReceivedMessage d h r c = Some c' \<Longrightarrow> sessionId c' = sessionId c \<and> userId c' = userId c \<and> opened c' = opened c"
  by (cases "reader c"; cases r)
    (auto simp: ReceivedMessage_def Send_def chan_send_def opened_def split: if_splits option.splits)

lemma good_entry_open: "good hp cl reg \<Longrightarrow> cl sid = Some a \<Longrightarrow> opened (hp ! a)"
  using good_entry [of hp cl reg sid a] good_opened [of hp cl reg a] by auto

definition live :: "ClientManager \<Rightarrow> bool" where
  "live m \<longleftrightarrow> good (heap m) (clients m) (registered m)"

lemma liveI: "good (heap m) (clients m) (registered m) \<Longrightarrow> live m"
  by (simp add: live_def)

text \<open>
  A program may go on from a state: run alone, every client it closes or sends to is open, and it
  leaves a sound registry.
\<close>

primrec may_run :: "prog \<Rightarrow> ClientManager \<Rightarrow> bool" where
  "may_run Return = live"
| "may_run StopSend = live"
| "may_run (ReadUser uid k) = (\<lambda>m. may_run (k (userIdMap m uid)) m)"
| "may_run (ReadClient sid k) = (\<lambda>m. may_run (k (clients m sid)) m)"
| "may_run (IdsOf a k) = (\<lambda>m. a < length (heap m) \<and> may_run (k (GetSessionID (heap m ! a)) (GetUserID (heap m ! a))) m)"
| "may_run (SetClient sid a p) = (\<lambda>m. may_run p (m\<lparr>clients := (clients m)(sid \<mapsto> a)\<rparr>))"
| "may_run (SetUser uid sid p) = (\<lambda>m. may_run p (m\<lparr>userIdMap := (userIdMap m)(uid \<mapsto> sid)\<rparr>))"
| "may_run (DelClient sid p) = (\<lambda>m. may_run p (m\<lparr>clients := (clients m)(sid := None)\<rparr>))"
| "may_run (DelUser uid p) = (\<lambda>m. may_run p (m\<lparr>userIdMap := (userIdMap m)(uid := None)\<rparr>))"
| "may_run (CloseC a p) = (\<lambda>m. a < length (heap m) \<and> opened (heap m ! a) \<and>
     (\<forall>c. Close (heap m ! a) = Done c \<longrightarrow> may_run p (put a c m)))"
| "may_run (SendTo a message' p) = (\<lambda>m. a < length (heap m) \<and> opened (heap m ! a) \<and> may_run p m)"

text \<open>
  What the other actors may do meanwhile: the clients keep their identifiers and stay as open as
  they are, and there may be new ones.
\<close>

definition ext :: "ClientManager \<Rightarrow> ClientManager \<Rightarrow> bool" where
  "ext m t \<longleftrightarrow> clients t = clients m \<and> userIdMap t = userIdMap m \<and> registered t = registered m \<and>
     length (heap m) \<le> length (heap t) \<and> distinct (map sessionId (heap t)) \<and>
     (\<forall>a < length (heap m). sessionId (heap t ! a) = sessionId (heap m ! a) \<and>
        userId (heap t ! a) = userId (heap m ! a) \<and> opened (heap t ! a) = opened (heap m ! a)) \<and>
     (\<forall>a. length (heap m) \<le> a \<and> a < length (heap t) \<longrightarrow> opened (heap t ! a))"

lemma ext_live:
  assumes "ext m t" and "live m" shows "live t"
proof -
  have g: "good (heap m) (clients m) (registered m)" using assms(2) by (simp add: live_def)
  show ?thesis
  proof (rule liveI, rule goodI)
    fix a assume a: "a < length (heap t)"
    show "opened (heap t ! a) \<longleftrightarrow> a \<notin> registered t \<or> clients t (sessionId (heap t ! a)) = Some a"
    proof (cases "a < length (heap m)")
      case True
      with assms(1) good_opened [OF g True] show ?thesis by (simp add: ext_def)
    next
      case False
      with assms(1) a good_reg [OF g, of a] show ?thesis by (auto simp: ext_def)
    qed
  next
    fix sid a assume "clients t sid = Some a"
    with assms(1) have "clients m sid = Some a" by (simp add: ext_def)
    from good_entry [OF g this] assms(1) show "a < length (heap t) \<and> sessionId (heap t ! a) = sid \<and> a \<in> registered t"
      by (auto simp: ext_def)
  next
    fix a assume "a \<in> registered t"
    with assms(1) good_reg [OF g, of a] show "a < length (heap t)" by (auto simp: ext_def)
  qed (use assms(1) in \<open>simp add: ext_def\<close>)
qed

lemma nth_put: "heap (put a c m) ! b = (if b = a \<and> a < length (heap m) then c else heap m ! b)"
  by (cases "a < length (heap m)") (auto simp: put_def list_update_beyond)

lemma put_fields [simp]:
  "length (heap (put a c m)) = length (heap m)" "clients (put a c m) = clients m" "userIdMap (put a c m) = userIdMap m"
  "registered (put a c m) = registered m" "loop (put a c m) = loop m" "calls (put a c m) = calls m"
  "crashed (put a c m) = crashed m" "overlapped (put a c m) = overlapped m"
  by (simp_all add: put_def)

lemma sessions_put: "sessionId c = sessionId (heap m ! a) \<Longrightarrow> map sessionId (heap (put a c m)) = map sessionId (heap m)"
  by (rule nth_equalityI) (auto simp: nth_put)

lemma ext_close:
  assumes e: "ext m t" and a: "a < length (heap m)"
    and c: "sessionId c = sessionId (heap m ! a)" "userId c = userId (heap m ! a)" "\<not> opened c"
    and c': "sessionId c' = sessionId (heap t ! a)" "userId c' = userId (heap t ! a)" "\<not> opened c'"
  shows "ext (put a c m) (put a c' t)"
proof -
  have at: "a < length (heap t)" using e a by (simp add: ext_def)
  show ?thesis using e a at c c' sessions_put [OF c'(1)] by (auto simp: ext_def nth_put)
qed

lemma ext_may_run: "may_run p m \<Longrightarrow> ext m t \<Longrightarrow> may_run p t"
proof (induction p arbitrary: m t)
  case Return
  then show ?case using ext_live by simp
next
  case StopSend
  then show ?case using ext_live by simp
next
  case (ReadUser uid k)
  then show ?case by (fastforce simp: ext_def)
next
  case (ReadClient sid k)
  then show ?case by (fastforce simp: ext_def)
next
  case (IdsOf a k)
  from IdsOf.prems have same: "a < length (heap t)" "GetSessionID (heap t ! a) = GetSessionID (heap m ! a)"
    "GetUserID (heap t ! a) = GetUserID (heap m ! a)" by (auto simp: ext_def GetSessionID_def GetUserID_def)
  with IdsOf.IH [OF rangeI rangeI _ IdsOf.prems(2)] IdsOf.prems(1) show ?case by simp
next
  case (SetClient sid a p)
  then show ?case by (fastforce simp: ext_def)
next
  case (SetUser uid sid p)
  then show ?case by (fastforce simp: ext_def)
next
  case (DelClient sid p)
  then show ?case by (fastforce simp: ext_def)
next
  case (DelUser uid p)
  then show ?case by (fastforce simp: ext_def)
next
  case (CloseC a p)
  from CloseC.prems have a: "a < length (heap m)" "opened (heap m ! a)" "a < length (heap t)" "opened (heap t ! a)"
    by (auto simp: ext_def)
  obtain c where c: "Close (heap m ! a) = Done c" "sessionId c = sessionId (heap m ! a)" "userId c = userId (heap m ! a)" "\<not> opened c"
    using Close_open [OF a(2)] by metis
  have "may_run p (put a c' t)" if "Close (heap t ! a) = Done c'" for c'
  proof (rule CloseC.IH)
    show "may_run p (put a c m)" using CloseC.prems(1) c(1) by simp
    have "sessionId c' = sessionId (heap t ! a)" "userId c' = userId (heap t ! a)" "\<not> opened c'"
      using Close_open [OF a(4)] that by (metis call.inject(1))+
    then show "ext (put a c m) (put a c' t)" by (rule ext_close [OF CloseC.prems(2) a(1) c(2-4)])
  qed
  with a show ?case by simp
next
  case (SendTo a x p)
  then show ?case by (auto simp: ext_def)
qed

lemma ext_put:
  assumes "distinct (map sessionId (heap m))" and "a < length (heap m)" and "sessionId c = sessionId (heap m ! a)"
    and "userId c = userId (heap m ! a)" and "opened c = opened (heap m ! a)"
  shows "ext m (put a c m)"
  using assms sessions_put [OF assms(3)] by (auto simp: ext_def nth_put)

text \<open>The programs of the manager may run from a sound registry.\<close>

lemma live_entry: "live m \<Longrightarrow> clients m sid = Some a \<Longrightarrow> a < length (heap m) \<and> sessionId (heap m ! a) = sid \<and> opened (heap m ! a)"
  using good_entry good_entry_open unfolding live_def by blast

lemma live_users [simp]: "live (m\<lparr>userIdMap := um\<rparr>) = live m"
  by (simp add: live_def)

lemma close_entry:
  assumes "live m" and "clients m sid = Some a" and "Close (heap m ! a) = Done c"
  shows "live ((put a c m)\<lparr>clients := (clients m)(sid := None)\<rparr>)"
proof -
  have e: "a < length (heap m)" "sessionId (heap m ! a) = sid" "opened (heap m ! a)" using live_entry [OF assms(1,2)] by simp_all
  then have "sessionId c = sid" "\<not> opened c" using Close_open [OF e(3)] assms(3) by (metis call.inject(1))+
  with good_close [of "heap m" "clients m" "registered m" sid a c] assms(1,2) show ?thesis
    by (simp add: live_def put_def)
qed

lemma may_kick_user: "live m \<Longrightarrow> may_run (KickClientByUserId uid) m"
  using live_entry close_entry by (fastforce simp: KickClientByUserId_def split: option.split)

lemma may_kick_session: "live m \<Longrightarrow> may_run (KickClientBySessionId sid) m"
  using live_entry close_entry by (fastforce simp: KickClientBySessionId_def split: option.split)

lemma may_send_all: "live m \<Longrightarrow> may_run (iterate order (\<lambda>client rest. SendTo client x rest) Return) m"
  using live_entry by (induction order) (auto split: option.split)

lemma may_stop: "live m \<Longrightarrow> may_run (Manager_Stop order) m"
proof (induction order arbitrary: m)
  case (Cons sid order)
  show ?case
  proof (cases "clients m sid")
    case (Some a)
    have e: "a < length (heap m)" "sessionId (heap m ! a) = sid" "opened (heap m ! a)" using live_entry [OF Cons.prems Some] by simp_all
    have "may_run (Manager_Stop order) ((put a c m)\<lparr>clients := (clients m)(sid := None), userIdMap := um\<rparr>) \<and> sessionId c = sid"
      if "Close (heap m ! a) = Done c" for c um
      using Cons.IH [of "(put a c m)\<lparr>clients := (clients m)(sid := None), userIdMap := um\<rparr>"] close_entry [OF Cons.prems Some that]
        Close_open [OF e(3)] e(2) that by (metis call.inject(1) live_users)
    with e Some show ?thesis by (simp add: Manager_Stop_def GetSessionID_def nth_put)
  qed (use Cons in \<open>simp add: Manager_Stop_def\<close>)
qed (simp add: Manager_Stop_def)

lemma may_register:
  assumes "live m" and "a < length (heap m)" and "a \<notin> registered m"
  shows "may_run (on_register a (heap m ! a)) (m\<lparr>registered := insert a (registered m)\<rparr>)"
  using assms good_register [of "heap m" "clients m" "registered m" a]
  by (simp add: on_register_def live_def GetSessionID_def)

lemma may_unregister:
  assumes "live m" and "a < length (heap m)" shows "may_run (on_unregister a (heap m ! a)) m"
proof (cases "clients m (sessionId (heap m ! a))")
  case (Some b)
  have "b = a" using good_owner [of "heap m" "clients m" "registered m" a b] assms Some by (simp add: live_def)
  with Some assms live_entry [OF assms(1) Some] close_entry [OF assms(1) Some] show ?thesis
    by (simp add: on_unregister_def GetSessionID_def)
qed (use assms in \<open>simp add: on_unregister_def GetSessionID_def\<close>)

text \<open>A step of a program that may run does not panic, and the rest may run.\<close>

lemma may_step:
  assumes "may_run p m" and "distinct (map sessionId (heap m))"
  shows "(\<exists>q t. prog_step p m = Done (q, t) \<and> may_run q t \<and> loop t = loop m \<and> calls t = calls m \<and>
      crashed t = crashed m \<and> overlapped t = overlapped m \<and> map sessionId (heap t) = map sessionId (heap m))
    \<or> prog_step p m = Waits (p, m)"
proof (cases p)
  case (CloseC a q)
  with assms have o: "opened (heap m ! a)" by simp
  obtain c where c: "Close (heap m ! a) = Done c" "sessionId c = sessionId (heap m ! a)"
    using Close_open [OF o] by metis
  with assms(1) CloseC show ?thesis by (simp add: sessions_put)
next
  case (SendTo a x q)
  with assms have a: "a < length (heap m)" "opened (heap m ! a)" "may_run q m" by simp_all
  show ?thesis
  proof (rule Send_cases [OF a(2), of x])
    fix c assume c: "Send x (heap m ! a) = Done c" "sessionId c = sessionId (heap m ! a)"
      "userId c = userId (heap m ! a)" "opened c"
    have "may_run q (put a c m)"
      using ext_may_run [OF a(3) ext_put [OF assms(2) a(1) c(2,3)]] a(2) c(4) by simp
    with SendTo c show ?thesis by (simp add: sessions_put)
  qed (use SendTo in simp)
qed (use assms in simp_all)

section \<open>Soundness of the registry\<close>

text \<open>The state of the manager when no two programs have overlapped.\<close>

definition sound :: "ClientManager \<Rightarrow> bool" where
  "sound m \<longleftrightarrow> (case active m of [] \<Rightarrow> live m | [p] \<Rightarrow> may_run p m | _ \<Rightarrow> False)"

definition manager_inv :: "ClientManager \<Rightarrow> bool" where
  "manager_inv m \<longleftrightarrow> distinct (map sessionId (heap m)) \<and> (\<not> overlapped m \<longrightarrow> \<not> crashed m \<and> sound m)"

lemma filter_update:
  assumes "filter P xs = [x]" and "i < length xs" and "P (xs ! i)"
  shows "filter P (xs[i := y]) = (if P y then [y] else [])"
proof -
  have s: "xs = take i xs @ xs ! i # drop (Suc i) xs" using assms(2) by (rule id_take_nth_drop)
  have "filter P (take i xs) @ xs ! i # filter P (drop (Suc i) xs) = [x]"
    using arg_cong [OF s, of "filter P"] assms(1,3) by simp
  then have "filter P (take i xs) = []" "filter P (drop (Suc i) xs) = []"
    by (simp_all add: append_eq_Cons_conv)
  with assms(2) show ?thesis by (simp add: upd_conv_take_nth_drop)
qed

lemma idle_runs: "\<not> touching p \<Longrightarrow> may_run p m \<Longrightarrow> live m"
  by (cases p) (auto simp: touching_def)

lemma sound_ext: "sound m \<Longrightarrow> ext m t \<Longrightarrow> active t = active m \<Longrightarrow> sound t"
  by (auto simp: sound_def intro: ext_live ext_may_run split: list.splits)

lemma sound_start:
  assumes "sound m" and "active m = xs @ ys" and "active t = xs @ filter touching [p] @ ys" and "length (active t) \<le> 1"
    and "live m \<Longrightarrow> may_run p t" and "\<not> touching p \<Longrightarrow> ext m t"
  shows "sound t"
proof (cases "touching p")
  case True
  with assms(2-4) have "active m = []" "active t = [p]" by auto
  with assms(1,5) show ?thesis by (simp add: sound_def)
qed (use assms sound_ext in simp)

lemma sound_go_on:
  assumes "sound m" and "active m = filter touching xs" and "i < length xs" and "xs ! i = p" and "touching p"
    and "active t = filter touching (xs[i := q])" and "may_run p m \<Longrightarrow> may_run q t"
  shows "sound t"
proof -
  have "p \<in> set (active m)" using assms(2-5) nth_mem [of i xs] by simp
  with assms(1) have one: "active m = [p]" by (auto simp: sound_def split: list.splits)
  with assms(1,7) have "may_run q t" by (simp add: sound_def)
  with filter_update [of touching xs p i q] one assms show ?thesis
    by (auto simp: sound_def intro: idle_runs)
qed

text \<open>
  The runs considered: one process (nothing happens after a panic), sessions that are not reused, a
  client registered once, the manager started once.
\<close>

definition proper :: "event \<Rightarrow> ClientManager \<Rightarrow> bool" where
  "proper e m \<longleftrightarrow> \<not> crashed m \<and> (\<forall>c \<in> set (heap m). reader c \<noteq> RdPanicked) \<and>
     (case e of
        MNew uid sid \<Rightarrow> sid \<notin> set (map sessionId (heap m))
      | MRegister a \<Rightarrow> a \<notin> registered m
      | MStart \<Rightarrow> loop m = LNotStarted
      | _ \<Rightarrow> True)"

definition proper_step :: "(bytes \<Rightarrow> 'm option) \<Rightarrow> ('m \<Rightarrow> bytes option) \<Rightarrow> event \<Rightarrow> ClientManager \<Rightarrow> ClientManager option" where
  "proper_step d h e m = (if proper e m then manager_step d h e m else None)"

lemma active_cong: "calls t = calls m \<Longrightarrow> loop t = loop m \<Longrightarrow> active t = active m"
  by (simp add: active_def)

lemma Listen_same: "sessionId (Listen c) = sessionId c" "userId (Listen c) = userId c" "opened (Listen c) = opened c"
  by (simp_all add: Listen_def opened_def)

lemma prog_step_sessions:
  assumes "resume back (prog_step p m) = Some u" and "\<And>q t. heap (back q t) = heap t"
  shows "map sessionId (heap u) = map sessionId (heap m)"
proof (cases p)
  case (CloseC a q)
  with assms show ?thesis
    by (cases "Close (heap m ! a)")
      (auto simp: Close_def Let_def split: option.splits intro!: sessions_put)
next
  case (SendTo a x q)
  with assms show ?thesis
    by (cases "Send x (heap m ! a)") (auto simp: Send_def split: send_result.splits intro!: sessions_put)
qed (use assms in auto)

lemma ext_same:
  "heap t = heap m \<Longrightarrow> clients t = clients m \<Longrightarrow> userIdMap t = userIdMap m \<Longrightarrow> registered t = registered m \<Longrightarrow>
   distinct (map sessionId (heap m)) \<Longrightarrow> ext m t"
  by (auto simp: ext_def)

definition same_maps :: "ClientManager \<Rightarrow> ClientManager \<Rightarrow> bool" where
  "same_maps m t \<longleftrightarrow> heap t = heap m \<and> clients t = clients m \<and> userIdMap t = userIdMap m \<and>
     registered t = registered m \<and> crashed t = crashed m"

lemma resume_sound:
  assumes step: "resume back (prog_step p m) = Some u"
    and put_back: "\<And>q t. calls t = calls m \<Longrightarrow> loop t = loop m \<Longrightarrow>
      active (back q t) = filter touching (xs[i := q]) \<and> same_maps t (back q t)"
    and m: "sound m" "active m = filter touching xs" "i < length xs" "xs ! i = p"
      "distinct (map sessionId (heap m))" "\<not> crashed m"
  shows "sound u \<and> \<not> crashed u"
proof -
  have t: "touching p" using step by (cases p) (auto simp: touching_def)
  have "p \<in> set (active m)" using m(2-4) t nth_mem [of i xs] by simp
  with m(1) have "may_run p m" by (auto simp: sound_def split: list.splits)
  from may_step [OF this m(5)] step obtain q t where
    q: "prog_step p m = Done (q, t)" "may_run q t" "loop t = loop m" "calls t = calls m" "crashed t = crashed m"
       "map sessionId (heap t) = map sessionId (heap m)" by auto
  have u: "u = back q t" using step q(1) by simp
  have b: "active (back q t) = filter touching (xs[i := q])" "same_maps t (back q t)" using put_back [OF q(4,3)] by simp_all
  have "may_run q u"
    using ext_may_run [OF q(2) ext_same [of u t]] b(2) u q(6) m(5) by (simp add: same_maps_def)
  then show ?thesis
    using sound_go_on [OF m(1-4) t, of u q] b u q(5) m(6) by (simp add: same_maps_def)
qed

lemma call_step_sound:
  assumes "call_step i m = Some u" and "sound m" and "distinct (map sessionId (heap m))" and "\<not> crashed m"
  shows "sound u \<and> \<not> crashed u"
proof -
  have i: "i < length (calls m)" and r: "resume (\<lambda>p t. t\<lparr>calls := (calls t)[i := p]\<rparr>) (prog_step (calls m ! i) m) = Some u"
    using assms(1) by (auto simp: call_step_def split: if_splits)
  show ?thesis
  proof (rule resume_sound [OF r, where xs = "calls m @ loop_prog (loop m)" and i = i])
    fix q and t :: ClientManager assume "calls t = calls m" "loop t = loop m"
    with i show "active (t\<lparr>calls := (calls t)[i := q]\<rparr>) = filter touching ((calls m @ loop_prog (loop m))[i := q])
        \<and> same_maps t (t\<lparr>calls := (calls t)[i := q]\<rparr>)"
      by (simp add: active_def same_maps_def list_update_append1)
  qed (use i assms in \<open>simp_all add: active_def nth_append\<close>)
qed

lemma loop_step_cases:
  assumes "loop_step m = Some u"
  obtains (select) "loop m = LRun Return" "u = m\<lparr>loop := LSelect\<rparr>"
    | (returned) "loop m = LStopping Return" "u = m\<lparr>loop := LReturned\<rparr>"
    | (run) p where "loop m = LRun p" "resume (\<lambda>q t. t\<lparr>loop := LRun q\<rparr>) (prog_step p m) = Some u"
    | (stopping) p where "loop m = LStopping p" "resume (\<lambda>q t. t\<lparr>loop := LStopping q\<rparr>) (prog_step p m) = Some u"
proof (cases "loop m")
  case (LRun p)
  show ?thesis
  proof (cases "p = Return")
    case True
    with LRun assms select show ?thesis by (simp add: loop_step_def)
  next
    case False
    then have "loop_step m = resume (\<lambda>q t. t\<lparr>loop := LRun q\<rparr>) (prog_step p m)"
      using LRun by (cases p) (simp_all add: loop_step_def del: prog_step.simps resume.simps)
    with LRun assms run show ?thesis by simp
  qed
next
  case (LStopping p)
  show ?thesis
  proof (cases "p = Return")
    case True
    with LStopping assms returned show ?thesis by (simp add: loop_step_def)
  next
    case False
    then have "loop_step m = resume (\<lambda>q t. t\<lparr>loop := LStopping q\<rparr>) (prog_step p m)"
      using LStopping by (cases p) (simp_all add: loop_step_def del: prog_step.simps resume.simps)
    with LStopping assms stopping show ?thesis by simp
  qed
qed (use assms in \<open>simp_all add: loop_step_def\<close>)

lemma loop_resume_sound:
  assumes "resume (\<lambda>q t. t\<lparr>loop := f q\<rparr>) (prog_step p m) = Some u" and "loop m = f p" and "\<And>q. loop_prog (f q) = [q]"
    and "sound m" and "distinct (map sessionId (heap m))" and "\<not> crashed m"
  shows "sound u \<and> \<not> crashed u"
proof (rule resume_sound [OF assms(1), where xs = "calls m @ [p]" and i = "length (calls m)"])
  fix q and t :: ClientManager assume "calls t = calls m" "loop t = loop m"
  then show "active (t\<lparr>loop := f q\<rparr>) = filter touching ((calls m @ [p])[length (calls m) := q]) \<and> same_maps t (t\<lparr>loop := f q\<rparr>)"
    by (simp add: active_def same_maps_def assms(3))
qed (use assms in \<open>simp_all add: active_def\<close>)

lemma loop_step_sound:
  assumes "loop_step m = Some u" and "sound m" and "distinct (map sessionId (heap m))" and "\<not> crashed m"
  shows "sound u \<and> \<not> crashed u"
  using assms(1)
proof (cases rule: loop_step_cases)
  case select
  with assms show ?thesis
    using sound_ext [OF assms(2) ext_same [of u m]] by (simp add: active_def loop_prog_def touching_def)
next
  case returned
  with assms show ?thesis
    using sound_ext [OF assms(2) ext_same [of u m]] by (simp add: active_def loop_prog_def touching_def)
next
  case (run p)
  with assms show ?thesis by (intro loop_resume_sound [of LRun p m u]) (simp_all add: loop_prog_def)
next
  case (stopping p)
  with assms show ?thesis by (intro loop_resume_sound [of LStopping p m u]) (simp_all add: loop_prog_def)
qed

lemma prog_step_overlapped:
  "resume back (prog_step p m) = Some u \<Longrightarrow> (\<And>q t. overlapped (back q t) = overlapped t) \<Longrightarrow> overlapped u = overlapped m"
  by (cases p) (auto split: call.splits)

lemma loop_step_frame:
  assumes "loop_step m = Some u"
  shows "map sessionId (heap u) = map sessionId (heap m) \<and> overlapped u = overlapped m"
  using assms
proof (cases rule: loop_step_cases)
  case (run p)
  from prog_step_sessions [OF run(2)] prog_step_overlapped [OF run(2)] show ?thesis by simp
next
  case (stopping p)
  from prog_step_sessions [OF stopping(2)] prog_step_overlapped [OF stopping(2)] show ?thesis by simp
qed simp_all

lemma call_step_frame:
  assumes "call_step i m = Some u"
  shows "map sessionId (heap u) = map sessionId (heap m) \<and> overlapped u = overlapped m"
proof -
  from assms have r: "resume (\<lambda>p t. t\<lparr>calls := (calls t)[i := p]\<rparr>) (prog_step (calls m ! i) m) = Some u"
    by (auto simp: call_step_def split: if_splits)
  from prog_step_sessions [OF r] prog_step_overlapped [OF r] show ?thesis by simp
qed

lemma begin_call_fields [simp]:
  "heap (begin_call p m) = heap m" "overlapped (begin_call p m) = overlapped m" "loop (begin_call p m) = loop m"
  "crashed (begin_call p m) = crashed m" "clients (begin_call p m) = clients m"
  "userIdMap (begin_call p m) = userIdMap m" "registered (begin_call p m) = registered m"
  by (simp_all add: begin_call_def)

lemma do_frame:
  assumes "manager_do d h e m = Some u"
  shows "overlapped u = overlapped m \<and>
    (case e of MNew uid sid \<Rightarrow> map sessionId (heap u) = map sessionId (heap m) @ [sid] | _ \<Rightarrow> map sessionId (heap u) = map sessionId (heap m))"
proof (cases e)
  case MLoop
  with assms loop_step_frame show ?thesis by (simp add: manager_do_def)
next
  case (MCall i)
  with assms call_step_frame show ?thesis by (simp add: manager_do_def)
next
  case (MWrite a w)
  with assms obtain c where c: "SendMessage w (heap m ! a) = Some c" "u = put a c m"
    by (auto simp: manager_do_def split: if_splits)
  with MWrite SendMessage_same [OF c(1)] show ?thesis by (simp add: sessions_put)
next
  case (MRead a r)
  with assms obtain c where c: "ReceivedMessage d h r (heap m ! a) = Some c" "u = put a c m"
    by (auto simp: manager_do_def split: if_splits)
  with MRead ReceivedMessage_same [OF c(1)] show ?thesis by (simp add: sessions_put)
next
  case (MNew uid sid)
  with assms show ?thesis by (auto simp: manager_do_def NewClient_def)
next
  case (MUnregister a)
  with assms show ?thesis by (auto simp: manager_do_def sessions_put split: if_splits)
next
  case (MListen a)
  with assms show ?thesis by (auto simp: manager_do_def sessions_put Listen_def split: if_splits)
qed (use assms in \<open>auto simp: manager_do_def Start_def split: if_splits\<close>)

lemma begin_call_sound:
  assumes "sound m" and "length (active (begin_call p m)) \<le> 1" and "live m \<Longrightarrow> may_run p m" and "distinct (map sessionId (heap m))"
  shows "sound (begin_call p m)"
proof (rule sound_start [OF assms(1), where xs = "filter touching (calls m)" and ys = "filter touching (loop_prog (loop m))" and p = p])
  have e: "ext m (begin_call p m)" using assms(4) by (intro ext_same) simp_all
  show "live m \<Longrightarrow> may_run p (begin_call p m)" by (rule ext_may_run [OF assms(3) e])
  show "ext m (begin_call p m)" by (rule e)
qed (use assms(2) in \<open>simp_all add: active_def begin_call_def\<close>)

lemma run_sound:
  assumes "sound m" and "loop m = LSelect" and "calls u = calls m" and "loop u = LRun p"
    and "length (active u) \<le> 1" and "live m \<Longrightarrow> may_run p u" and "\<not> touching p \<Longrightarrow> ext m u"
  shows "sound u"
  by (rule sound_start [OF assms(1), where xs = "filter touching (calls m)" and ys = "[]" and p = p])
    (use assms(2-7) in \<open>simp_all add: active_def loop_prog_def\<close>)

lemma filter_update_none:
  assumes "i < length xs" and "\<not> P (xs ! i)" and "\<not> P y" shows "filter P (xs[i := y]) = filter P xs"
proof -
  have s: "xs = take i xs @ xs ! i # drop (Suc i) xs" using assms(1) by (rule id_take_nth_drop)
  show ?thesis using arg_cong [OF s, of "filter P"] assms by (simp add: upd_conv_take_nth_drop)
qed

lemma do_sound:
  assumes u: "manager_do d h e m = Some u" and e: "proper e m" and m: "sound m" "distinct (map sessionId (heap m))"
    and one: "length (active u) \<le> 1"
  shows "sound u \<and> \<not> crashed u"
proof (cases e)
  case (MNew uid sid)
  with u have u': "u = m\<lparr>heap := heap m @ [NewClient uid sid]\<rparr>" by (simp add: manager_do_def)
  have "ext m u" using MNew e m(2)
    by (auto simp: u' ext_def proper_def nth_append opened_def NewClient_def make_chan_def)
  with sound_ext [OF m(1)] u' e show ?thesis by (simp add: active_def proper_def)
next
  case (MListen a)
  with u have u': "a < length (heap m)" "u = put a (Listen (heap m ! a)) m" by (auto simp: manager_do_def split: if_splits)
  from sound_ext [OF m(1) ext_put [OF m(2) u'(1) Listen_same]] e show ?thesis
    by (simp add: u'(2) active_def proper_def)
next
  case (MWrite a w)
  with u obtain c where u': "a < length (heap m)" "SendMessage w (heap m ! a) = Some c" "u = put a c m"
    by (auto simp: manager_do_def split: if_splits)
  from sound_ext [OF m(1) ext_put [OF m(2) u'(1)]] SendMessage_same [OF u'(2)] e show ?thesis
    by (simp add: u'(3) active_def proper_def)
next
  case (MRead a r)
  with u obtain c where u': "a < length (heap m)" "ReceivedMessage d h r (heap m ! a) = Some c" "u = put a c m"
    by (auto simp: manager_do_def split: if_splits)
  from sound_ext [OF m(1) ext_put [OF m(2) u'(1)]] ReceivedMessage_same [OF u'(2)] e show ?thesis
    by (simp add: u'(3) active_def proper_def)
next
  case MStart
  with u e have u': "u = m\<lparr>loop := LSelect\<rparr>" "loop m = LNotStarted" by (auto simp: manager_do_def Start_def proper_def)
  from sound_ext [OF m(1) ext_same [of u m]] m(2) u' e show ?thesis by (simp add: active_def loop_prog_def proper_def)
next
  case (MRegister a)
  with u e have a: "a < length (heap m)" "a \<notin> registered m" "loop m = LSelect"
    and u': "u = m\<lparr>registered := insert a (registered m), loop := LRun (on_register a (heap m ! a))\<rparr>"
    by (auto simp: manager_do_def proper_def split: if_splits)
  have "may_run (on_register a (heap m ! a)) u" if "live m"
    by (rule ext_may_run [OF may_register [OF that a(1,2)]]) (use m(2) u' in \<open>simp add: ext_same\<close>)
  moreover have "touching (on_register a (heap m ! a))" by (simp add: on_register_def touching_def)
  ultimately have "sound u" using run_sound [OF m(1) a(3), of u "on_register a (heap m ! a)"] one u' by simp
  with u' e show ?thesis by (simp add: proper_def)
next
  case (MUnregister a)
  let ?c = "(heap m ! a)\<lparr>reader := RdReturned, conn_open := False\<rparr>"
  from MUnregister u have a: "a < length (heap m)" "loop m = LSelect"
    and u': "u = (put a ?c m)\<lparr>loop := LRun (on_unregister a (heap m ! a))\<rparr>"
    by (auto simp: manager_do_def split: if_splits)
  have "ext m (put a ?c m)" by (rule ext_put [OF m(2) a(1)]) (simp_all add: opened_def)
  then have x: "ext m u" by (auto simp: u' ext_def)
  have "sound u"
    by (rule run_sound [OF m(1) a(2) _ _ one ext_may_run [OF may_unregister [OF _ a(1)] x] x]) (simp_all add: u')
  with u' e show ?thesis by (simp add: proper_def)
next
  case (MBroadcast order x)
  with u have a: "loop m = LSelect" and u': "u = m\<lparr>loop := LRun (on_broadcast order x)\<rparr>"
    by (auto simp: manager_do_def split: if_splits)
  have x: "ext m u" using m(2) u' by (simp add: ext_same)
  have "may_run (on_broadcast order x) u" if "live m"
    using ext_may_run [OF may_send_all [OF that] x] by (simp add: on_broadcast_def)
  then have "sound u" using run_sound [OF m(1) a, of u "on_broadcast order x"] x one u' by simp
  with u' e show ?thesis by (simp add: proper_def)
next
  case MLoop
  with u e m loop_step_sound show ?thesis by (simp add: manager_do_def proper_def)
next
  case (MCall i)
  with u e m call_step_sound show ?thesis by (simp add: manager_do_def proper_def)
next
  case (MKeepLive order)
  then have u': "u = begin_call (ClientKeepLive order) m" using u by (auto simp: manager_do_def split: if_splits)
  with begin_call_sound [OF m(1) _ _ m(2)] may_send_all one e show ?thesis by (simp add: ClientKeepLive_def proper_def)
next
  case (MKickUser uid)
  then have u': "u = begin_call (KickClientByUserId uid) m" using u by (simp add: manager_do_def)
  with begin_call_sound [OF m(1) _ may_kick_user m(2)] one e show ?thesis by (simp add: proper_def)
next
  case (MKickSession sid)
  then have u': "u = begin_call (KickClientBySessionId sid) m" using u by (simp add: manager_do_def)
  with begin_call_sound [OF m(1) _ may_kick_session m(2)] one e show ?thesis by (simp add: proper_def)
next
  case (MStopCall order)
  then have u': "u = begin_call (Manager_Stop order) m" using u by (auto simp: manager_do_def split: if_splits)
  with begin_call_sound [OF m(1) _ may_stop m(2)] one e show ?thesis by (simp add: proper_def)
next
  case (MStopReceived i order)
  then have i: "i < length (calls m)" "calls m ! i = StopSend" "loop m = LSelect"
    and u': "u = m\<lparr>calls := (calls m)[i := Return], loop := LStopping (Manager_Stop order)\<rparr>"
    using u by (auto simp: manager_do_def stopChan_received_def split: if_splits)
  have x: "ext m u" using m(2) u' by (simp add: ext_same)
  have f: "filter touching ((calls m)[i := Return]) = filter touching (calls m)"
    by (rule filter_update_none) (use i in \<open>simp_all add: touching_def\<close>)
  have "sound u"
  proof (rule sound_start [OF m(1), where xs = "filter touching (calls m)" and ys = "[]" and p = "Manager_Stop order"])
    show "live m \<Longrightarrow> may_run (Manager_Stop order) u" by (rule ext_may_run [OF may_stop x])
  qed (use one i(3) x f in \<open>simp_all add: u' active_def loop_prog_def\<close>)
  with u' e show ?thesis by (simp add: proper_def)
next
  case MLoopStopSent
  with u show ?thesis by (auto simp: manager_do_def stopChan_received_def split: if_splits)
next
  case MFatal
  with u one show ?thesis by (auto simp: manager_do_def active_def split: if_splits)
qed

lemma sound_mark: "sound u \<Longrightarrow> distinct (map sessionId (heap u)) \<Longrightarrow> sound (mark_overlap u)"
  by (rule sound_ext, assumption) (simp_all add: mark_overlap_def ext_same active_def)

lemma proper_step_inv:
  assumes "proper_step d h e m = Some t" and "manager_inv m" shows "manager_inv t"
proof -
  from assms(1) obtain u where u: "proper e m" "manager_do d h e m = Some u" "t = mark_overlap u"
    by (auto simp: proper_step_def manager_step_def split: if_splits)
  have d: "distinct (map sessionId (heap u))"
    using do_frame [OF u(2)] assms(2) u(1) by (cases e) (auto simp: manager_inv_def proper_def)
  have "sound u \<and> \<not> crashed u" if "\<not> overlapped t"
    using do_sound [OF u(2,1)] do_frame [OF u(2)] assms(2) that u(3) by (simp add: manager_inv_def mark_overlap_def)
  with d u(3) sound_mark [of u] show ?thesis by (auto simp: manager_inv_def mark_overlap_def)
qed

interpretation registry: event_invariant "proper_step d h" manager_inv for d h
  by unfold_locales (rule proper_step_inv)

text \<open>
  C11. The registry is sound as long as the manager's methods are kept apart. In every run in which
  sessions are not reused, a client is registered once, and no two of the calls (kicks, keep-alives,
  stops) and cases of the loop that work on the maps are in progress at the same time: the manager's
  code does not panic (no client is closed twice, nothing is sent to a closed one), and whenever none
  of them is in progress every entry of the registry leads to an open client of that session, and
  every registered client that is still open is in the registry.
\<close>

theorem registry_sound:
  assumes "run_events (proper_step d h) es NewClientManager = Some m" and "\<not> overlapped m"
  shows "\<not> crashed m \<and> (active m = [] \<longrightarrow>
    (\<forall>sid a. clients m sid = Some a \<longrightarrow> a < length (heap m) \<and> sessionId (heap m ! a) = sid \<and>
       \<not> chan_closed (send (heap m ! a)) \<and> \<not> chan_closed (cclosed (heap m ! a))) \<and>
    (\<forall>a \<in> registered m. a < length (heap m) \<and>
       (\<not> chan_closed (send (heap m ! a)) \<and> \<not> chan_closed (cclosed (heap m ! a)) \<longrightarrow>
        clients m (sessionId (heap m ! a)) = Some a)))"
proof -
  have "manager_inv NewClientManager"
    by (simp add: manager_inv_def good_def NewClientManager_def sound_def active_def loop_prog_def live_def)
  then have "manager_inv m" by (rule registry.run_keeps [OF _ assms(1)])
  then have i: "\<not> crashed m" "sound m" using assms(2) by (simp_all add: manager_inv_def)
  have "good (heap m) (clients m) (registered m)" if "active m = []"
    using i(2) that by (simp add: sound_def live_def)
  with good_entry good_entry_open good_reg good_opened i(1) show ?thesis
    unfolding opened_def by blast
qed

theorem registry_sound_witness:
  "\<exists>m. run_events (proper_step Some (\<lambda>x. Some x)) [MStart, MNew ''u'' ''s1'', MNew ''v'' ''s2'', MRegister 0, MLoop, MLoop, MLoop,
      MRegister 1, MLoop, MLoop, MLoop, MKickUser ''u'', MCall 0, MCall 0, MCall 0, MCall 0, MCall 0] NewClientManager = Some m
     \<and> \<not> crashed m \<and> clients m ''s1'' = None \<and> clients m ''s2'' = Some 1 \<and> \<not> chan_closed (send (heap m ! 1))"
proof -
  let ?es = "[MStart, MNew ''u'' ''s1'', MNew ''v'' ''s2'', MRegister 0, MLoop, MLoop, MLoop,
      MRegister 1, MLoop, MLoop, MLoop, MKickUser ''u'', MCall 0, MCall 0, MCall 0, MCall 0, MCall 0]"
  let ?c = "NewClient ''u'' ''s1''"
  let ?m = "NewClientManager\<lparr>clients := [''s2'' \<mapsto> 1], userIdMap := [''v'' \<mapsto> ''s2''],
     heap := [?c\<lparr>send := (send ?c)\<lparr>chan_closed := True\<rparr>, cclosed := (cclosed ?c)\<lparr>chan_closed := True\<rparr>, conn_open := False\<rparr>,
       NewClient ''v'' ''s2''],
     loop := LSelect, calls := [Return], registered := {1, 0}\<rparr>"
  have r: "run_events (proper_step Some (\<lambda>x. Some x)) ?es NewClientManager = Some ?m"
    by (simp add: proper_step_def proper_def manager_step_def manager_do_def mark_overlap_def active_def loop_prog_def touching_def
        NewClientManager_def Start_def on_register_def loop_step_def call_step_def begin_call_def KickClientByUserId_def
        GetSessionID_def GetUserID_def Close_def chan_close_def put_def NewClient_def make_chan_def)
  show ?thesis
    using registry_sound [OF r] r by (simp add: NewClientManager_def active_def loop_prog_def touching_def NewClient_def make_chan_def)
qed

text \<open>
  C40. The methods need to be kept apart by their callers. Two calls that kick the same session at the
  same time can both find its client before one of them takes it out of the map; the second then
  closes a closed channel and the process panics.
\<close>

theorem kicks_race:
  assumes "clients m sid = Some a" and "a < length (heap m)" and "opened (heap m ! a)"
  shows "\<exists>t. run_events (manager_step d h)
      [MKickSession sid, MKickSession sid, MCall (length (calls m)), MCall (Suc (length (calls m))),
       MCall (length (calls m)), MCall (Suc (length (calls m)))] m = Some t \<and> crashed t"
proof -
  obtain c where c: "Close (heap m ! a) = Done c" "\<not> opened c" using Close_open [OF assms(3)] by metis
  then have p: "Close c = Panicked c" by (auto simp: Close_def chan_close_def Let_def split: option.splits if_splits)
  show ?thesis
    using assms c p
    by (simp add: manager_step_def manager_do_def mark_overlap_def call_step_def begin_call_def KickClientBySessionId_def
        nth_append put_def)
qed

theorem kicks_race_witness:
  "\<exists>m t. run_events (manager_step Some (\<lambda>x. Some x)) [MStart, MNew ''u'' ''s'', MRegister 0, MLoop, MLoop, MLoop] NewClientManager = Some m
     \<and> run_events (manager_step Some (\<lambda>x. Some x))
         [MKickSession ''s'', MKickSession ''s'', MCall 0, MCall 1, MCall 0, MCall 1] m = Some t \<and> crashed t"
proof -
  let ?m = "NewClientManager\<lparr>clients := [''s'' \<mapsto> 0], userIdMap := [''u'' \<mapsto> ''s''], heap := [NewClient ''u'' ''s''],
     loop := LSelect, registered := {0}\<rparr>"
  have r: "run_events (manager_step Some (\<lambda>x. Some x)) [MStart, MNew ''u'' ''s'', MRegister 0, MLoop, MLoop, MLoop] NewClientManager = Some ?m"
    by (simp add: manager_step_def manager_do_def mark_overlap_def active_def loop_prog_def touching_def NewClientManager_def
        Start_def on_register_def loop_step_def GetSessionID_def GetUserID_def NewClient_def)
  have m: "clients ?m ''s'' = Some 0" "0 < length (heap ?m)" "opened (heap ?m ! 0)" "length (calls ?m) = 0"
    by (simp_all add: opened_def NewClient_def make_chan_def NewClientManager_def)
  with r kicks_race [OF m(1-3), of Some "\<lambda>x. Some x"] show ?thesis unfolding One_nat_def by metis
qed

section \<open>What the manager does not do\<close>

text \<open>The \<^verbatim>\<open>Stop\<close> that the loop calls never gets past its send on \<^verbatim>\<open>stopChan\<close>.\<close>

primrec ends_in_send :: "prog \<Rightarrow> bool" where
  "ends_in_send Return = False"
| "ends_in_send StopSend = True"
| "ends_in_send (ReadUser uid k) = (\<forall>r. ends_in_send (k r))"
| "ends_in_send (ReadClient sid k) = (\<forall>r. ends_in_send (k r))"
| "ends_in_send (IdsOf a k) = (\<forall>s u. ends_in_send (k s u))"
| "ends_in_send (SetClient sid a p) = ends_in_send p"
| "ends_in_send (SetUser uid sid p) = ends_in_send p"
| "ends_in_send (DelClient sid p) = ends_in_send p"
| "ends_in_send (DelUser uid p) = ends_in_send p"
| "ends_in_send (CloseC a p) = ends_in_send p"
| "ends_in_send (SendTo a x p) = ends_in_send p"

lemma Stop_ends_in_send: "ends_in_send (Manager_Stop order)"
  by (induction order) (auto simp: Manager_Stop_def split: option.splits)

lemma prog_step_rest:
  "resume back (prog_step p m) = Some u \<Longrightarrow>
   \<exists>q t. (u = back q t \<or> u = (back q t)\<lparr>crashed := True\<rparr>) \<and> loop t = loop m \<and> (ends_in_send p \<longrightarrow> ends_in_send q)"
  by (cases p) (fastforce split: call.splits)+

definition never_back :: "ClientManager \<Rightarrow> bool" where
  "never_back m \<longleftrightarrow> loop m \<noteq> LReturned \<and> (\<forall>p. loop m = LStopping p \<longrightarrow> ends_in_send p)"

lemma call_step_loop: "call_step i m = Some u \<Longrightarrow> loop u = loop m"
  by (auto simp: call_step_def split: if_splits dest!: prog_step_rest)

lemma loop_step_never_back:
  assumes "loop_step m = Some u" and "never_back m" shows "never_back u \<and> loop m \<noteq> LStopping StopSend"
  using assms(1)
proof (cases rule: loop_step_cases)
  case (run p)
  then show ?thesis using assms(2) by (auto simp: never_back_def dest!: prog_step_rest)
next
  case (stopping p)
  from stopping(2) obtain q t where "u = t\<lparr>loop := LStopping q\<rparr> \<or> u = t\<lparr>loop := LStopping q, crashed := True\<rparr>"
    "ends_in_send p \<longrightarrow> ends_in_send q" using prog_step_rest [OF stopping(2)] by auto
  moreover have "p \<noteq> StopSend" using stopping(2) by auto
  ultimately show ?thesis using assms(2) stopping(1) by (auto simp: never_back_def)
qed (use assms(2) in \<open>auto simp: never_back_def\<close>)

lemma manager_step_loop:
  assumes "manager_step d h e m = Some t" and "never_back m"
  shows "never_back t \<and> (loop m = LStopping StopSend \<longrightarrow> loop t = LStopping StopSend)"
proof -
  from assms(1) obtain u where u: "manager_do d h e m = Some u" "t = mark_overlap u" by (rule manager_stepE)
  have same: "loop t = loop u" by (simp add: u(2) mark_overlap_def)
  have "never_back u \<and> (loop m = LStopping StopSend \<longrightarrow> loop u = LStopping StopSend)"
  proof (cases e)
    case MLoop
    with u(1) loop_step_never_back [OF _ assms(2)] show ?thesis by (simp add: manager_do_def)
  next
    case (MCall i)
    with u(1) assms(2) call_step_loop show ?thesis by (simp add: manager_do_def never_back_def)
  next
    case (MStopReceived i order)
    with u(1) show ?thesis
      by (auto simp: manager_do_def never_back_def stopChan_received_def Stop_ends_in_send split: if_splits)
  qed (use u(1) assms(2) in \<open>auto simp: manager_do_def never_back_def Start_def stopChan_received_def split: if_splits\<close>)
  with same show ?thesis by (simp add: never_back_def)
qed

interpretation loop_alive: event_invariant "manager_step d h" never_back for d h
  by unfold_locales (use manager_step_loop in blast)

interpretation loop_at_send: event_invariant "manager_step d h" "\<lambda>m. loop m = LStopping StopSend" for d h
proof unfold_locales
  fix s e t
  assume at: "loop s = LStopping StopSend" and st: "manager_step d h e s = Some t"
  from at have "never_back s" by (simp add: never_back_def)
  with manager_step_loop [OF st] at show "loop t = LStopping StopSend" by blast
qed

text \<open>
  \<^verbatim>\<open>Start\<close> never returns. The stop message that the loop receives makes it call \<^verbatim>\<open>Stop\<close> itself,
  which ends with a send on the unbuffered \<^verbatim>\<open>stopChan\<close> that only the loop receives from: in no run
  does the loop return, and once it is at that send it stays there, so that no client can be
  registered or unregistered any more.
\<close>

theorem start_never_returns:
  "(run_events (manager_step d h) es NewClientManager = Some m \<longrightarrow> loop m \<noteq> LReturned) \<and>
   (loop m = LStopping StopSend \<longrightarrow> run_events (manager_step d h) fs m = Some t \<longrightarrow>
      loop t = LStopping StopSend \<and> manager_step d h (MRegister a) t = None \<and> manager_step d h (MUnregister a) t = None)"
proof -
  have "never_back NewClientManager" by (simp add: NewClientManager_def never_back_def)
  from loop_alive.run_keeps [OF this, of d h es m] loop_at_send.run_keeps [of m d h fs t]
  show ?thesis by (auto simp: manager_step_def manager_do_def never_back_def)
qed

theorem start_never_returns_witness:
  "\<exists>m. run_events (manager_step Some (\<lambda>x. Some x)) [MStart, MStopCall [], MStopReceived 0 []] NewClientManager = Some m
     \<and> loop m = LStopping StopSend \<and> manager_step Some (\<lambda>x. Some x) (MUnregister 0) m = None"
proof -
  let ?m = "NewClientManager\<lparr>loop := LStopping StopSend, calls := [Return]\<rparr>"
  have r: "run_events (manager_step Some (\<lambda>x. Some x)) [MStart, MStopCall [], MStopReceived 0 []] NewClientManager = Some ?m"
    by (simp add: manager_step_def manager_do_def mark_overlap_def active_def loop_prog_def touching_def begin_call_def
        iteration_def NewClientManager_def Start_def stopChan_received_def Manager_Stop_def)
  have "manager_step Some (\<lambda>x. Some x) (MUnregister 0) ?m = None"
    using start_never_returns [of Some "\<lambda>x. Some x" "[]" ?m "[]" ?m 0] by simp
  with r show ?thesis by (intro exI [of _ ?m]) simp
qed

text \<open>
  A reused session orphans the newer connection. When a client reconnects under its session
  before the old connection has ended, the end of the old one takes the session out of the
  registry: the new client stays open but is no longer reached by broadcasts, kicks or stops.
\<close>

theorem reused_session_orphan:
  assumes "a < length (heap m)" and "b < length (heap m)" and "a \<noteq> b"
    and "sessionId (heap m ! b) = sessionId (heap m ! a)"
    and "opened (heap m ! a)" and "opened (heap m ! b)"
  shows "\<exists>m1 m2 t. exec (on_register a (heap m ! a)) m = Done m1 \<and> exec (on_register b (heap m1 ! b)) m1 = Done m2
    \<and> exec (on_unregister a (heap m2 ! a)) m2 = Done t
    \<and> clients t (sessionId (heap m ! a)) = None \<and> opened (heap t ! b)
    \<and> exec (KickClientBySessionId (sessionId (heap m ! a))) t = Done t"
proof -
  obtain c' where "Close (heap m ! a) = Done c'" using Close_open [OF assms(5)] by metis
  with assms show ?thesis
    by (simp add: on_unregister_def on_register_def GetSessionID_def put_def KickClientBySessionId_def)
qed

theorem reused_session_orphan_witness:
  "let m = NewClientManager\<lparr>heap := [NewClient ''u'' ''s'', NewClient ''u'' ''s'']\<rparr>
   in \<exists>m1 m2 t. exec (on_register 0 (heap m ! 0)) m = Done m1 \<and> exec (on_register 1 (heap m1 ! 1)) m1 = Done m2
     \<and> exec (on_unregister 0 (heap m2 ! 0)) m2 = Done t \<and> clients t ''s'' = None \<and> opened (heap t ! 1)"
proof -
  let ?m = "NewClientManager\<lparr>heap := [NewClient ''u'' ''s'', NewClient ''u'' ''s'']\<rparr>"
  have "sessionId (heap ?m ! 0) = ''s''" "sessionId (heap ?m ! 1) = ''s''" "opened (heap ?m ! 0)" "opened (heap ?m ! 1)"
    "0 < length (heap ?m)" "1 < length (heap ?m)"
    by (simp_all add: NewClient_def opened_def make_chan_def)
  with reused_session_orphan [of 0 ?m 1] show ?thesis unfolding Let_def by (metis zero_neq_one)
qed

text \<open>
  A user with two sessions: kicking the older session also deletes the user's mapping, which
  belongs to the newer one; a kick by user then does nothing.
\<close>

lemma kick_loses_user:
  assumes "clients m sid1 = Some a" and "clients m sid2 = Some b" and "sid1 \<noteq> sid2"
    and "userIdMap m uid = Some sid2" and "userId (heap m ! a) = uid" and "opened (heap m ! a)"
  shows "\<exists>t. exec (KickClientBySessionId sid1) m = Done t \<and> clients t sid2 = Some b \<and> exec (KickClientByUserId uid) t = Done t"
proof -
  obtain c' where c: "Close (heap m ! a) = Done c'" "userId c' = uid" using Close_open [OF assms(6)] assms(5) by metis
  have "GetUserID (heap (put a c' m) ! a) = uid" using c(2) assms(5) by (simp add: nth_put GetUserID_def)
  with assms c show ?thesis
    by (simp add: KickClientBySessionId_def KickClientByUserId_def put_def)
qed

text \<open>
  A disconnect leaves the user's entry: after \<^verbatim>\<open>UnregisterClient\<close> the user map is what it was.
\<close>

lemma unregister_keeps_user: "exec (on_unregister a client) m = Done t \<Longrightarrow> userIdMap t = userIdMap m"
  by (auto simp: on_unregister_def split: option.splits call.splits)

text \<open>
  A client kicked while its reader is delivering a handler's result makes the reader send on the
  closed channel: the process panics.
\<close>

lemma kicked_reader_panics:
  assumes "opened c" and "reader c = RdSend result"
  shows "\<exists>c'. Close c = Done c' \<and> (\<exists>c2. ReceivedMessage d h RdDeliver c' = Some c2 \<and> reader c2 = RdPanicked)"
  using assms
  by (auto simp: Close_def chan_close_def opened_def Let_def ReceivedMessage_def Send_def chan_send_def)

section \<open>A blocked broadcast\<close>

text \<open>The loop is broadcasting to a client whose writing goroutine has returned and whose buffer is full.\<close>

definition blocked_client :: "Client \<Rightarrow> bool" where
  "blocked_client c \<longleftrightarrow> opened c \<and> writer c = WrReturned \<and> reader c \<noteq> RdIdle \<and> chan_cap (send c) \<le> length (chan_buf (send c))"

definition sending_to :: "nat \<Rightarrow> loop_pc \<Rightarrow> bool" where
  "sending_to a l = (case l of LRun p \<Rightarrow> (case p of SendTo b x q \<Rightarrow> b = a | _ \<Rightarrow> False) | _ \<Rightarrow> False)"

definition stuck_on :: "nat \<Rightarrow> ClientManager \<Rightarrow> bool" where
  "stuck_on a m \<longleftrightarrow> sending_to a (loop m) \<and> a < length (heap m) \<and> blocked_client (heap m ! a)"

text \<open>Every step but the one with which a kick or stop in progress closes the client at \<open>a\<close>.\<close>

definition spares :: "nat \<Rightarrow> event \<Rightarrow> ClientManager \<Rightarrow> bool" where
  "spares a e m =
     (case e of MCall i \<Rightarrow> (case calls m ! i of CloseC b p \<Rightarrow> b \<noteq> a | _ \<Rightarrow> True) | _ \<Rightarrow> True)"

definition sparing_step ::
  "nat \<Rightarrow> (bytes \<Rightarrow> 'm option) \<Rightarrow> ('m \<Rightarrow> bytes option) \<Rightarrow> event \<Rightarrow> ClientManager \<Rightarrow> ClientManager option" where
  "sparing_step a d h e m = (if spares a e m then manager_step d h e m else None)"

lemma blocked_send: "blocked_client c \<Longrightarrow> Send x c = Waits c"
  by (simp add: blocked_client_def Send_def chan_send_def opened_def)

lemma blocked_write: "blocked_client c \<Longrightarrow> SendMessage w c = None"
  by (simp add: blocked_client_def SendMessage_def)

lemma blocked_read: "blocked_client c \<Longrightarrow> ReceivedMessage d h r c = Some c' \<Longrightarrow> blocked_client c'"
  by (cases "reader c"; cases r)
    (auto simp: blocked_client_def ReceivedMessage_def Send_def chan_send_def opened_def split: if_splits option.splits)

lemma stuck_put:
  "stuck_on a m \<Longrightarrow> b \<noteq> a \<or> blocked_client c \<Longrightarrow> stuck_on a (put b c m)"
  by (auto simp: stuck_on_def nth_put)

lemma stuck_fields:
  "stuck_on a m \<Longrightarrow> loop t = loop m \<Longrightarrow> heap t = heap m \<Longrightarrow> stuck_on a t"
  by (simp add: stuck_on_def)

lemma stuck_loop: "stuck_on a m \<Longrightarrow> \<exists>x p. loop m = LRun (SendTo a x p)"
  by (auto simp: stuck_on_def sending_to_def split: loop_pc.splits prog.splits)

lemma stuck_loop_step: "stuck_on a m \<Longrightarrow> loop_step m = None"
  using stuck_loop [of a m] blocked_send [of "heap m ! a"] by (auto simp: loop_step_def stuck_on_def)

lemma stuck_prog_step:
  assumes "stuck_on a m" and "case p of CloseC b q \<Rightarrow> b \<noteq> a | _ \<Rightarrow> True"
    and "resume back (prog_step p m) = Some u" and "\<And>q t. loop (back q t) = loop t" "\<And>q t. heap (back q t) = heap t"
  shows "stuck_on a u"
proof (cases p)
  case (CloseC b q)
  with assms(2) have "stuck_on a (put b c m)" for c using stuck_put [OF assms(1)] by simp
  with CloseC assms(3-5) show ?thesis
    by (cases "Close (heap m ! b)") (auto simp: stuck_on_def)
next
  case (SendTo b x q)
  show ?thesis
  proof (cases "b = a")
    case True
    with SendTo assms(1,3) blocked_send show ?thesis by (simp add: stuck_on_def)
  next
    case False
    then have "stuck_on a (put b c m)" for c using stuck_put [OF assms(1)] by simp
    with SendTo assms(1,3-5) show ?thesis
      by (cases "Send x (heap m ! b)") (auto simp: stuck_on_def)
  qed
qed (use assms in \<open>auto simp: stuck_on_def\<close>)

lemma sparing_step_stuck:
  assumes "stuck_on a m" and "sparing_step a d h e m = Some t" shows "stuck_on a t"
proof -
  from assms(2) obtain u where s: "spares a e m" and u: "manager_do d h e m = Some u" and t: "t = mark_overlap u"
    by (auto simp: sparing_step_def manager_step_def split: if_splits)
  note l = stuck_loop [OF assms(1)]
  have "stuck_on a u"
  proof (cases e)
    case (MNew uid sid)
    with u assms(1) show ?thesis by (auto simp: manager_do_def stuck_on_def nth_append)
  next
    case (MListen b)
    with u have b: "u = put b (Listen (heap m ! b)) m" "reader (heap m ! b) = RdIdle" by (auto simp: manager_do_def split: if_splits)
    then have "b \<noteq> a" using assms(1) by (auto simp: stuck_on_def blocked_client_def)
    with b(1) assms(1) stuck_put show ?thesis by blast
  next
    case (MWrite b w)
    with u obtain c where c: "SendMessage w (heap m ! b) = Some c" "u = put b c m" by (auto simp: manager_do_def split: if_splits)
    have "b \<noteq> a" using c(1) assms(1) blocked_write [of "heap m ! a" w] by (auto simp: stuck_on_def)
    with c(2) assms(1) stuck_put show ?thesis by blast
  next
    case (MRead b r)
    with u obtain c where c: "ReceivedMessage d h r (heap m ! b) = Some c" "u = put b c m" by (auto simp: manager_do_def split: if_splits)
    have "b \<noteq> a \<or> blocked_client c" using c(1) assms(1) blocked_read by (auto simp: stuck_on_def)
    with c(2) assms(1) stuck_put show ?thesis by blast
  next
    case MLoop
    with u stuck_loop_step [OF assms(1)] show ?thesis by (simp add: manager_do_def)
  next
    case (MCall i)
    then have r: "resume (\<lambda>p t. t\<lparr>calls := (calls t)[i := p]\<rparr>) (prog_step (calls m ! i) m) = Some u"
      using u by (auto simp: manager_do_def call_step_def split: if_splits)
    show ?thesis by (rule stuck_prog_step [OF assms(1) _ r]) (use s MCall in \<open>simp_all add: spares_def\<close>)
  qed (use u l stuck_fields [OF assms(1)] in \<open>auto simp: manager_do_def Start_def stopChan_received_def split: if_splits\<close>)
  then show ?thesis by (rule stuck_fields) (simp_all add: t mark_overlap_def)
qed

interpretation blocked_loop: event_invariant "sparing_step a d h" "stuck_on a" for a d h
  by unfold_locales (rule sparing_step_stuck)

text \<open>
  C39. A dead client stops the manager. When the loop broadcasts to a client whose writing goroutine
  has returned and whose buffer is full, it stays there through every run in which no kick or stop
  closes that client, whatever the clients and the callers of the methods do: no client can be
  registered and no disconnect handled any more, not even that of the dead client itself, because the
  loop that would handle it is waiting for the client.
\<close>

theorem broadcast_stuck:
  assumes "stuck_on a m" and "run_events (sparing_step a d h) es m = Some t"
  shows "stuck_on a t \<and> manager_step d h MLoop t = None \<and> manager_step d h (MRegister b) t = None \<and>
    manager_step d h (MUnregister b) t = None \<and> manager_step d h (MBroadcast order x) t = None"
proof -
  have t: "stuck_on a t" by (rule blocked_loop.run_keeps [OF assms])
  with stuck_loop [OF t] stuck_loop_step [OF t] show ?thesis by (auto simp: manager_step_def manager_do_def)
qed

theorem broadcast_stuck_witness:
  "let c = (NewClient ''u'' ''s'')\<lparr>writer := WrReturned, reader := RdRead, send := \<lparr>chan_buf = [''x''], chan_cap = 1, chan_closed = False\<rparr>\<rparr>;
       m = NewClientManager\<lparr>heap := [c], clients := [''s'' \<mapsto> 0], loop := LRun (on_broadcast [''s''] ''hi'')\<rparr>
   in \<exists>m1 t. manager_step Some (\<lambda>x. Some x) MLoop m = Some m1 \<and>
        run_events (sparing_step 0 Some (\<lambda>x. Some x)) [MNew ''v'' ''s2'', MRead 0 RdError, MKickSession ''s2'', MCall 0] m1 = Some t \<and>
        reader (heap t ! 0) = RdUnregister \<and> stuck_on 0 t \<and> manager_step Some (\<lambda>x. Some x) (MUnregister 0) t = None"
proof -
  let ?c = "(NewClient ''u'' ''s'')\<lparr>writer := WrReturned, reader := RdRead, send := \<lparr>chan_buf = [''x''], chan_cap = 1, chan_closed = False\<rparr>\<rparr>"
  let ?m = "NewClientManager\<lparr>heap := [?c], clients := [''s'' \<mapsto> 0], loop := LRun (on_broadcast [''s''] ''hi'')\<rparr>"
  let ?m1 = "?m\<lparr>loop := LRun (SendTo 0 ''hi'' Return)\<rparr>"
  let ?es = "[MNew ''v'' ''s2'', MRead 0 RdError, MKickSession ''s2'', MCall 0]"
  let ?t = "?m1\<lparr>heap := [?c\<lparr>reader := RdUnregister\<rparr>, NewClient ''v'' ''s2''], calls := [Return], overlapped := True\<rparr>"
  note defs = manager_step_def manager_do_def mark_overlap_def active_def loop_prog_def touching_def NewClientManager_def
  have a: "manager_step Some (\<lambda>x. Some x) MLoop ?m = Some ?m1"
    by (simp add: defs loop_step_def on_broadcast_def)
  have s: "stuck_on 0 ?m1"
    by (simp add: stuck_on_def sending_to_def blocked_client_def opened_def NewClient_def make_chan_def)
  have r: "run_events (sparing_step 0 Some (\<lambda>x. Some x)) ?es ?m1 = Some ?t"
    by (simp add: sparing_step_def spares_def defs begin_call_def call_step_def KickClientBySessionId_def ReceivedMessage_def put_def)
  have "reader (heap ?t ! 0) = RdUnregister" by simp
  with a r broadcast_stuck [OF s r] show ?thesis unfolding Let_def by blast
qed

end
