(* ===== verification/Databases.thy ===== *)
theory Databases
  imports Prelude
begin

text \<open>
  \<^verbatim>\<open>libs/databases\<close> without the transaction helpers: the data-access object \<^verbatim>\<open>OrmBaseDao\<close>, the
  active-record \<^verbatim>\<open>entity\<close>, paging, and the connection set-up.

  The object-relational mapper \<^verbatim>\<open>xorm\<close> is a parameter: the record \<open>orm\<close> of its operations on a
  world \<open>'w\<close>. Each operation is called on a handle, a session or an engine. A bean is passed by
  pointer in the source; \<^verbatim>\<open>Get\<close> returns the bean it leaves there. On a table with columns that xorm
  fills in (\<^verbatim>\<open>autoincr\<close>, \<^verbatim>\<open>created\<close>, \<^verbatim>\<open>updated\<close>, \<^verbatim>\<open>version\<close>) the inserts and updates write through
  the pointer too; this is not modelled, the beans are those of tables without such columns. A pair
  of a result and an optional error is what the source returns.
\<close>

datatype dberr =
    ErrDriver string
  | ErrGetEmpty
  | ErrUpdatedEmpty
  | ErrDeletedEmpty
  | ErrInsertedEmpty
  | ErrMigrateTableIDEmpty
  | ErrMigrateTableNameEmpty
  | ErrLengthMismatch
  | ErrText string

datatype handle = OnSession nat | OnEngine nat

text \<open>A connection is an engine or an engine group; both answer as \<^verbatim>\<open>DBInterface\<close>.\<close>

datatype dbconn = Engine nat | EngineGroup nat

fun conn_handle :: "dbconn \<Rightarrow> handle" where
  "conn_handle (Engine n) = OnEngine n"
| "conn_handle (EngineGroup n) = OnEngine n"

section \<open>Paging\<close>

record pageable =
  skip :: int
  limit :: int
  sort' :: string

definition NewPageable :: "int \<Rightarrow> int \<Rightarrow> string \<Rightarrow> pageable" where
  "NewPageable sk li so = \<lparr>skip = sk, limit = li, sort' = so\<rparr>"
definition Skip :: "pageable \<Rightarrow> int" where "Skip p = skip p"
definition Limit :: "pageable \<Rightarrow> int" where "Limit p = limit p"
definition Sort :: "pageable \<Rightarrow> string" where "Sort p = sort' p"

section \<open>The mapper\<close>

text \<open>What a query builder has accumulated when \<^verbatim>\<open>Find\<close> or \<^verbatim>\<open>FindAndCount\<close> runs it.\<close>

record 'v query =
  q_sql :: "(string \<times> 'v list) option"
  q_order :: "string option"
  q_limit :: "(int \<times> int) option"

record col =
  col_name :: string
  col_sqltype :: string
  col_length :: int
  col_nullable :: bool

record 'v rowset =
  rs_columns :: "dberr + string list"
  rs_rows :: "(dberr + 'v list) list"
  rs_end_error :: "dberr option"

record ('w, 'b, 'v) orm =
  o_insertOne :: "handle \<Rightarrow> 'b \<Rightarrow> 'w \<Rightarrow> (int64 \<times> dberr option) \<times> 'w"
  o_insert :: "handle \<Rightarrow> 'b list \<Rightarrow> 'w \<Rightarrow> (int64 \<times> dberr option) \<times> 'w"
  o_update :: "handle \<Rightarrow> 'v option \<Rightarrow> 'b \<Rightarrow> 'b list \<Rightarrow> 'w \<Rightarrow> (int64 \<times> dberr option) \<times> 'w"
  o_delete :: "handle \<Rightarrow> 'v option \<Rightarrow> 'b \<Rightarrow> 'w \<Rightarrow> (int64 \<times> dberr option) \<times> 'w"
  o_get :: "handle \<Rightarrow> 'v option \<Rightarrow> 'b \<Rightarrow> 'w \<Rightarrow> (bool \<times> dberr option) \<times> 'b \<times> 'w"
  o_exist :: "handle \<Rightarrow> 'b \<Rightarrow> 'w \<Rightarrow> (bool \<times> dberr option) \<times> 'w"
  o_count :: "handle \<Rightarrow> 'b \<Rightarrow> 'w \<Rightarrow> (int64 \<times> dberr option) \<times> 'w"
  o_find :: "handle \<Rightarrow> 'v query \<Rightarrow> 'b list \<Rightarrow> 'w \<Rightarrow> ('b list \<times> dberr option) \<times> 'w"
  o_findAndCount :: "handle \<Rightarrow> 'v query \<Rightarrow> 'b list \<Rightarrow> 'w \<Rightarrow> ('b list \<times> int64 \<times> dberr option) \<times> 'w"
  o_dbmetas :: "nat \<Rightarrow> 'w \<Rightarrow> (dberr + (string \<times> col list) list) \<times> 'w"
  o_rawquery :: "nat \<Rightarrow> string \<Rightarrow> 'v list \<Rightarrow> 'w \<Rightarrow> (dberr + 'v rowset list) \<times> 'w"
  o_newSession :: "handle \<Rightarrow> 'w \<Rightarrow> nat \<times> 'w"
  o_begin :: "nat \<Rightarrow> 'w \<Rightarrow> dberr option \<times> 'w"
  o_commit :: "nat \<Rightarrow> 'w \<Rightarrow> dberr option \<times> 'w"
  o_rollback :: "nat \<Rightarrow> 'w \<Rightarrow> dberr option \<times> 'w"
  o_close :: "nat \<Rightarrow> 'w \<Rightarrow> 'w"

section \<open>The data-access object\<close>

record OrmBaseDao =
  conn :: dbconn
  session :: "nat option"

definition NewBaseDao :: "('w, 'b, 'v) orm \<Rightarrow> dbconn \<Rightarrow> 'w \<Rightarrow> OrmBaseDao \<times> 'w" where
  "NewBaseDao X c w = (case o_newSession X (conn_handle c) w of (s, w') \<Rightarrow> (\<lparr>conn = c, session = Some s\<rparr>, w'))"

definition Session :: "OrmBaseDao \<Rightarrow> nat option" where
  "Session m = session m"

definition NewSession :: "('w, 'b, 'v) orm \<Rightarrow> OrmBaseDao \<Rightarrow> 'w \<Rightarrow> OrmBaseDao \<times> 'w" where
  "NewSession X m w = (case o_newSession X (conn_handle (conn m)) w of (s, w') \<Rightarrow> (\<lparr>conn = conn m, session = Some s\<rparr>, w'))"

text \<open>A call of a method on a nil session is a nil dereference.\<close>

definition on_session :: "(nat \<Rightarrow> 'w \<Rightarrow> 'a \<times> 'w) \<Rightarrow> OrmBaseDao \<Rightarrow> 'w \<Rightarrow> (unit, 'a) outcome \<times> 'w" where
  "on_session f m w = (case session m of None \<Rightarrow> (Panics (), w) | Some s \<Rightarrow> (case f s w of (a, w') \<Rightarrow> (Returns a, w')))"

definition Begin :: "('w, 'b, 'v) orm \<Rightarrow> OrmBaseDao \<Rightarrow> 'w \<Rightarrow> (unit, dberr option) outcome \<times> 'w" where
  "Begin X m w = on_session (o_begin X) m w"
definition Close :: "('w, 'b, 'v) orm \<Rightarrow> OrmBaseDao \<Rightarrow> 'w \<Rightarrow> (unit, unit) outcome \<times> 'w" where
  "Close X m w = on_session (\<lambda>s w. ((), o_close X s w)) m w"
definition Commit :: "('w, 'b, 'v) orm \<Rightarrow> OrmBaseDao \<Rightarrow> 'w \<Rightarrow> (unit, dberr option) outcome \<times> 'w" where
  "Commit X m w = on_session (o_commit X) m w"
definition Rollback :: "('w, 'b, 'v) orm \<Rightarrow> OrmBaseDao \<Rightarrow> 'w \<Rightarrow> (unit, dberr option) outcome \<times> 'w" where
  "Rollback X m w = on_session (o_rollback X) m w"

text \<open>The bean of an insert or update is left as it is: no column is filled in by the mapper.\<close>

definition InsertOne :: "('w, 'b, 'v) orm \<Rightarrow> OrmBaseDao \<Rightarrow> 'b \<Rightarrow> 'w \<Rightarrow> (int64 \<times> dberr option) \<times> 'w" where
  "InsertOne X m entry w =
     (case session m of
        Some s \<Rightarrow> o_insertOne X (OnSession s) entry w
      | None \<Rightarrow> o_insertOne X (conn_handle (conn m)) entry w)"

definition InsertMany :: "('w, 'b, 'v) orm \<Rightarrow> OrmBaseDao \<Rightarrow> 'b list \<Rightarrow> 'w \<Rightarrow> (int64 \<times> dberr option) \<times> 'w" where
  "InsertMany X m entries w =
     (case session m of
        Some s \<Rightarrow> o_insert X (OnSession s) entries w
      | None \<Rightarrow> o_insert X (conn_handle (conn m)) entries w)"

definition Update :: "('w, 'b, 'v) orm \<Rightarrow> OrmBaseDao \<Rightarrow> 'b \<Rightarrow> 'b list \<Rightarrow> 'w \<Rightarrow> (int64 \<times> dberr option) \<times> 'w" where
  "Update X m bean conds w =
     (case session m of
        Some s \<Rightarrow> o_update X (OnSession s) None bean conds w
      | None \<Rightarrow> o_update X (conn_handle (conn m)) None bean conds w)"

definition UpdateById :: "('w, 'b, 'v) orm \<Rightarrow> OrmBaseDao \<Rightarrow> 'v \<Rightarrow> 'b \<Rightarrow> 'w \<Rightarrow> (int64 \<times> dberr option) \<times> 'w" where
  "UpdateById X m id' bean w =
     (case session m of
        Some s \<Rightarrow> o_update X (OnSession s) (Some id') bean [] w
      | None \<Rightarrow> o_update X (conn_handle (conn m)) (Some id') bean [] w)"

definition Delete :: "('w, 'b, 'v) orm \<Rightarrow> OrmBaseDao \<Rightarrow> 'b \<Rightarrow> 'w \<Rightarrow> (int64 \<times> dberr option) \<times> 'w" where
  "Delete X m bean w =
     (case session m of
        Some s \<Rightarrow> o_delete X (OnSession s) None bean w
      | None \<Rightarrow> o_delete X (conn_handle (conn m)) None bean w)"

definition DeleteById :: "('w, 'b, 'v) orm \<Rightarrow> OrmBaseDao \<Rightarrow> 'v \<Rightarrow> 'b \<Rightarrow> 'w \<Rightarrow> (int64 \<times> dberr option) \<times> 'w" where
  "DeleteById X m id' bean w =
     (case session m of
        Some s \<Rightarrow> o_delete X (OnSession s) (Some id') bean w
      | None \<Rightarrow> o_delete X (conn_handle (conn m)) (Some id') bean w)"

definition Query :: "('w, 'b, 'v) orm \<Rightarrow> OrmBaseDao \<Rightarrow> string \<Rightarrow> 'v list \<Rightarrow> 'w \<Rightarrow> ('b list \<times> dberr option) \<times> 'w" where
  "Query X m sql args w =
     (case session m of
        Some s \<Rightarrow> o_find X (OnSession s) \<lparr>q_sql = Some (sql, args), q_order = None, q_limit = None\<rparr> [] w
      | None \<Rightarrow> o_find X (conn_handle (conn m)) \<lparr>q_sql = Some (sql, args), q_order = None, q_limit = None\<rparr> [] w)"

definition FindById :: "('w, 'b, 'v) orm \<Rightarrow> OrmBaseDao \<Rightarrow> 'v \<Rightarrow> 'b \<Rightarrow> 'w \<Rightarrow> (bool \<times> dberr option) \<times> 'b \<times> 'w" where
  "FindById X m id' bean w =
     (case session m of
        Some s \<Rightarrow> o_get X (OnSession s) (Some id') bean w
      | None \<Rightarrow> o_get X (conn_handle (conn m)) (Some id') bean w)"

definition FindOne :: "('w, 'b, 'v) orm \<Rightarrow> OrmBaseDao \<Rightarrow> 'b \<Rightarrow> 'w \<Rightarrow> (bool \<times> dberr option) \<times> 'b \<times> 'w" where
  "FindOne X m bean w =
     (case session m of
        Some s \<Rightarrow> o_get X (OnSession s) None bean w
      | None \<Rightarrow> o_get X (conn_handle (conn m)) None bean w)"

definition Count :: "('w, 'b, 'v) orm \<Rightarrow> OrmBaseDao \<Rightarrow> 'b \<Rightarrow> 'w \<Rightarrow> (int64 \<times> dberr option) \<times> 'w" where
  "Count X m bean w =
     (case session m of
        Some s \<Rightarrow> o_count X (OnSession s) bean w
      | None \<Rightarrow> o_count X (conn_handle (conn m)) bean w)"

definition Exists :: "('w, 'b, 'v) orm \<Rightarrow> OrmBaseDao \<Rightarrow> 'b \<Rightarrow> 'w \<Rightarrow> (bool \<times> dberr option) \<times> 'w" where
  "Exists X m bean w =
     (case session m of
        Some s \<Rightarrow> o_exist X (OnSession s) bean w
      | None \<Rightarrow> o_exist X (conn_handle (conn m)) bean w)"

definition FindMany :: "('w, 'b, 'v) orm \<Rightarrow> OrmBaseDao \<Rightarrow> string \<Rightarrow> 'b list \<Rightarrow> 'w \<Rightarrow> ('b list \<times> dberr option) \<times> 'w" where
  "FindMany X m so condiBean w =
     (case session m of
        Some s \<Rightarrow> o_find X (OnSession s) \<lparr>q_sql = None, q_order = Some so, q_limit = None\<rparr> condiBean w
      | None \<Rightarrow> o_find X (conn_handle (conn m)) \<lparr>q_sql = None, q_order = Some so, q_limit = None\<rparr> condiBean w)"

definition FindAndCount :: "('w, 'b, 'v) orm \<Rightarrow> OrmBaseDao \<Rightarrow> pageable \<Rightarrow> 'b list \<Rightarrow> 'w \<Rightarrow> ('b list \<times> int64 \<times> dberr option) \<times> 'w" where
  "FindAndCount X m pg condiBean w =
     (case session m of
        Some s \<Rightarrow> 
          o_findAndCount X (OnSession s) \<lparr>q_sql = None, q_order = Some (Sort pg), q_limit = Some (Limit pg, Skip pg)\<rparr> condiBean w
      | None \<Rightarrow> 
          o_findAndCount X (conn_handle (conn m)) \<lparr>q_sql = None, q_order = Some (Sort pg), q_limit = Some (Limit pg, Skip pg)\<rparr> condiBean w)"

definition Native :: "OrmBaseDao \<Rightarrow> dbconn" where
  "Native m = conn m"

definition Upsert :: "('w, 'b, 'v) orm \<Rightarrow> OrmBaseDao \<Rightarrow> 'b \<Rightarrow> 'b \<Rightarrow> 'w \<Rightarrow> (int64 \<times> dberr option) \<times> 'w" where
  "Upsert X m cond bean w =
     (case Exists X m cond w of
        ((_, Some err), w1) \<Rightarrow> ((0, Some err), w1)
      | ((exists, None), w1) \<Rightarrow>
          if exists then Update X m bean [cond] w1 else InsertOne X m bean w1)"

text \<open>\<^verbatim>\<open>FindById\<close> is given the caller's bean to fill, and the same bean is then written.\<close>

definition UpsertById :: "('w, 'b, 'v) orm \<Rightarrow> OrmBaseDao \<Rightarrow> 'v \<Rightarrow> 'b \<Rightarrow> 'w \<Rightarrow> (int64 \<times> dberr option) \<times> 'w" where
  "UpsertById X m id' bean w =
     (case FindById X m id' bean w of
        ((_, Some err), bean1, w1) \<Rightarrow> ((0, Some err), w1)
      | ((found, None), bean1, w1) \<Rightarrow>
          if found then UpdateById X m id' bean1 w1 else InsertOne X m bean1 w1)"

fun upsert_loop ::
  "('w, 'b, 'v) orm \<Rightarrow> OrmBaseDao \<Rightarrow> ('b \<times> 'b) list \<Rightarrow> int64 \<Rightarrow> 'w \<Rightarrow> (int64 \<times> dberr option) \<times> 'w" where
  "upsert_loop X m [] tot w = ((tot, None), w)"
| "upsert_loop X m ((cond, bean) # rest) tot w =
     (case Upsert X m cond bean w of
        ((_, Some err), w1) \<Rightarrow> ((tot, Some err), w1)
      | ((affected, None), w1) \<Rightarrow> upsert_loop X m rest (tot + affected) w1)"

definition UpsertMany :: "('w, 'b, 'v) orm \<Rightarrow> OrmBaseDao \<Rightarrow> 'b list \<Rightarrow> 'b list \<Rightarrow> 'w \<Rightarrow> (int64 \<times> dberr option) \<times> 'w" where
  "UpsertMany X m wheres beans w =
     (if length wheres \<noteq> length beans then ((0, Some (ErrLengthMismatch)), w)
      else upsert_loop X m (zip wheres beans) 0 w)"

section \<open>Schema and metadata\<close>

text \<open>
  \<^verbatim>\<open>Migrations\<close> builds the list of migrations, hands it to \<^verbatim>\<open>migrate.New\<close> and registers an initial
  schema function with \<^verbatim>\<open>InitSchema\<close>; neither call touches the database, and \<^verbatim>\<open>Migrate\<close> is not
  called. A table is its entries \<^verbatim>\<open>id\<close> and \<^verbatim>\<open>name\<close>, if present; the id may not be a string. The
  result carries the migrations and the tables of the initial schema for reference.
\<close>

datatype field = FStr string | FOther

record table_spec =
  t_id :: "field option"
  t_name :: "field option"

fun migration_ids :: "table_spec list \<Rightarrow> (unit, dberr + string list) outcome" where
  "migration_ids [] = Returns (Inr [])"
| "migration_ids (t # ts) =
     (case t_id t of
        None \<Rightarrow> Returns (Inl ErrMigrateTableIDEmpty)
      | Some i \<Rightarrow>
          (case t_name t of
             None \<Rightarrow> Returns (Inl ErrMigrateTableNameEmpty)
           | Some _ \<Rightarrow>
               (case i of
                  FOther \<Rightarrow> Panics ()
                | FStr s \<Rightarrow>
                    (case migration_ids ts of
                       Returns (Inr ids) \<Rightarrow> Returns (Inr (s # ids))
                     | r \<Rightarrow> r))))"

definition Migrations :: "OrmBaseDao \<Rightarrow> table_spec list \<Rightarrow> 'w \<Rightarrow> (unit, dberr option) outcome \<times> 'w" where
  "Migrations m tables w =
     (case migration_ids tables of
        Panics p \<Rightarrow> (Panics p, w)
      | Returns (Inl e) \<Rightarrow> (Returns (Some e), w)
      | Returns (Inr ids) \<Rightarrow> (case conn m of EngineGroup _ \<Rightarrow> (Panics (), w) | Engine _ \<Rightarrow> (Returns None, w)))"

text \<open>The last table of a name wins; the type assertion to an engine panics for a group.\<close>

definition GetDBMetas :: "('w, 'b, 'v) orm \<Rightarrow> OrmBaseDao \<Rightarrow> 'w \<Rightarrow> (unit, dberr + (string \<rightharpoonup> col list)) outcome \<times> 'w" where
  "GetDBMetas X m w =
     (case conn m of
        EngineGroup _ \<Rightarrow> (Panics (), w)
      | Engine n \<Rightarrow>
          (case o_dbmetas X n w of
             (Inl err, w1) \<Rightarrow> (Returns (Inl err), w1)
           | (Inr tables, w1) \<Rightarrow>
               (Returns (Inr (foldl (\<lambda>res (n, cols). res(n \<mapsto> cols)) Map.empty tables)), w1)))"

definition GetTableMetas :: "('w, 'b, 'v) orm \<Rightarrow> OrmBaseDao \<Rightarrow> string \<Rightarrow> 'w \<Rightarrow> (unit, dberr + col list) outcome \<times> 'w" where
  "GetTableMetas X m tableName w =
     (case GetDBMetas X m w of
        (Panics p, w1) \<Rightarrow> (Panics p, w1)
      | (Returns (Inl err), w1) \<Rightarrow> (Returns (Inl err), w1)
      | (Returns (Inr metas), w1) \<Rightarrow>
          (Returns (case metas tableName of None \<Rightarrow> Inl (ErrText ''table not found'') | Some cols \<Rightarrow> Inr cols), w1))"

section \<open>Stored procedures\<close>

fun placeholders_loop :: "nat \<Rightarrow> 'v list \<Rightarrow> string \<Rightarrow> string" where
  "placeholders_loop i [] acc = acc"
| "placeholders_loop i (_ # args) acc =
     placeholders_loop (Suc i) args ((if i > 0 then acc @ '', '' else acc) @ ''?'')"

definition call_sql :: "string \<Rightarrow> 'v list \<Rightarrow> string" where
  "call_sql procName args = ''CALL '' @ procName @ ''('' @ placeholders_loop 0 args [] @ '')''"

text \<open>
  The rows of one result set: each is scanned into one value per column, a byte slice becomes a
  string (\<open>text\<close>). The loop ends when \<^verbatim>\<open>rows.Next\<close> is false; \<^verbatim>\<open>rows.Err\<close> is not asked.
\<close>

fun scan_rows :: "('v \<Rightarrow> 'v) \<Rightarrow> string list \<Rightarrow> (dberr + 'v list) list \<Rightarrow> dberr + (string \<rightharpoonup> 'v) list" where
  "scan_rows text columns [] = Inr []"
| "scan_rows text columns (Inl err # rows) = Inl err"
| "scan_rows text columns (Inr vals # rows) =
     (case scan_rows text columns rows of
        Inl err \<Rightarrow> Inl err
      | Inr rest \<Rightarrow> Inr (foldl (\<lambda>rowMap (c, v). rowMap(c \<mapsto> text v)) Map.empty (zip columns vals) # rest))"

fun result_sets :: "('v \<Rightarrow> 'v) \<Rightarrow> 'v rowset list \<Rightarrow> dberr + (string \<rightharpoonup> 'v) list list" where
  "result_sets text [] = Inr []"
| "result_sets text (rs # others) =
     (case rs_columns rs of
        Inl err \<Rightarrow> Inl err
      | Inr columns \<Rightarrow>
          (case scan_rows text columns (rs_rows rs) of
             Inl err \<Rightarrow> Inl err
           | Inr rows \<Rightarrow> (case result_sets text others of Inl err \<Rightarrow> Inl err | Inr rest \<Rightarrow> Inr (rows # rest))))"

definition CallProcedure ::
  "('w, 'b, 'v) orm \<Rightarrow> ('v \<Rightarrow> 'v) \<Rightarrow> OrmBaseDao \<Rightarrow> string \<Rightarrow> 'v list \<Rightarrow> 'w \<Rightarrow>
   (unit, dberr + (string \<rightharpoonup> 'v) list list) outcome \<times> 'w" where
  "CallProcedure X text m procName args w =
     (case session m of
        None \<Rightarrow> (Panics (), w)
      | Some s \<Rightarrow>
          (case o_rawquery X s (call_sql procName args) args w of
             (Inl err, w1) \<Rightarrow> (Returns (Inl err), w1)
           | (Inr sets, w1) \<Rightarrow> (Returns (result_sets text sets), w1)))"

section \<open>Entities\<close>

text \<open>An entity holds a bean and its data-access object; \<open>pk\<close> is the bean's \<^verbatim>\<open>PrimaryKey\<close>.\<close>

record 'b entity =
  dao :: OrmBaseDao
  sessionDao :: "OrmBaseDao option"
  objectPtr :: 'b

definition NewEntity :: "OrmBaseDao \<Rightarrow> 'b \<Rightarrow> 'b entity" where
  "NewEntity d b = \<lparr>dao = d, sessionDao = None, objectPtr = b\<rparr>"

definition entity_NewSession :: "('w, 'b, 'v) orm \<Rightarrow> 'b entity \<Rightarrow> 'w \<Rightarrow> 'b entity \<times> 'w" where
  "entity_NewSession X e w = (case NewSession X (dao e) w of (d, w') \<Rightarrow> (e\<lparr>sessionDao := Some d\<rparr>, w'))"

definition entity_dao :: "'b entity \<Rightarrow> OrmBaseDao" where
  "entity_dao e = (case sessionDao e of Some d \<Rightarrow> d | None \<Rightarrow> dao e)"

definition Entity :: "'b entity \<Rightarrow> 'b" where "Entity e = objectPtr e"
definition Id :: "('b \<Rightarrow> 'v) \<Rightarrow> 'b entity \<Rightarrow> 'v" where "Id pk e = pk (objectPtr e)"


definition entity_Exists :: "('w, 'b, 'v) orm \<Rightarrow> 'b entity \<Rightarrow> 'w \<Rightarrow> (bool \<times> dberr option) \<times> 'w" where
  "entity_Exists X e w = Exists X (entity_dao e) (objectPtr e) w"

definition entity_Count :: "('w, 'b, 'v) orm \<Rightarrow> 'b entity \<Rightarrow> 'w \<Rightarrow> (int64 \<times> dberr option) \<times> 'w" where
  "entity_Count X e w = Count X (entity_dao e) (objectPtr e) w"

definition entity_Create :: "('w, 'b, 'v) orm \<Rightarrow> 'b entity \<Rightarrow> 'w \<Rightarrow> (int64 \<times> dberr option) \<times> 'w" where
  "entity_Create X e w = InsertOne X (entity_dao e) (objectPtr e) w"

definition entity_Update :: "('w, 'b, 'v) orm \<Rightarrow> 'b entity \<Rightarrow> 'b list \<Rightarrow> 'w \<Rightarrow> (int64 \<times> dberr option) \<times> 'w" where
  "entity_Update X e conds w = Update X (entity_dao e) (objectPtr e) conds w"

definition entity_UpdateByPk :: "('w, 'b, 'v) orm \<Rightarrow> ('b \<Rightarrow> 'v) \<Rightarrow> 'b entity \<Rightarrow> 'w \<Rightarrow> (int64 \<times> dberr option) \<times> 'w" where
  "entity_UpdateByPk X pk e w = UpdateById X (entity_dao e) (pk (objectPtr e)) (objectPtr e) w"

definition entity_Delete :: "('w, 'b, 'v) orm \<Rightarrow> 'b entity \<Rightarrow> 'w \<Rightarrow> (int64 \<times> dberr option) \<times> 'w" where
  "entity_Delete X e w = Delete X (entity_dao e) (objectPtr e) w"

definition entity_DeleteByPk :: "('w, 'b, 'v) orm \<Rightarrow> ('b \<Rightarrow> 'v) \<Rightarrow> 'b entity \<Rightarrow> 'w \<Rightarrow> (int64 \<times> dberr option) \<times> 'w" where
  "entity_DeleteByPk X pk e w = DeleteById X (entity_dao e) (pk (objectPtr e)) (objectPtr e) w"

definition entity_Get :: "('w, 'b, 'v) orm \<Rightarrow> 'b entity \<Rightarrow> 'w \<Rightarrow> (bool \<times> dberr option) \<times> 'b entity \<times> 'w" where
  "entity_Get X e w =
     (case FindOne X (entity_dao e) (objectPtr e) w of (r, b, w') \<Rightarrow> (r, e\<lparr>objectPtr := b\<rparr>, w'))"

text \<open>The transaction methods of an entity without a session dereference nil.\<close>

definition entity_tx :: "(OrmBaseDao \<Rightarrow> 'w \<Rightarrow> (unit, 'a) outcome \<times> 'w) \<Rightarrow> 'b entity \<Rightarrow> 'w \<Rightarrow> (unit, 'a) outcome \<times> 'w" where
  "entity_tx f e w = (case sessionDao e of None \<Rightarrow> (Panics (), w) | Some d \<Rightarrow> f d w)"

definition entity_Session :: "'b entity \<Rightarrow> (unit, nat option) outcome" where
  "entity_Session e = (case sessionDao e of None \<Rightarrow> Panics () | Some d \<Rightarrow> Returns (Session d))"
definition entity_Begin :: "('w, 'b, 'v) orm \<Rightarrow> 'b entity \<Rightarrow> 'w \<Rightarrow> (unit, dberr option) outcome \<times> 'w" where
  "entity_Begin X e w = entity_tx (Begin X) e w"
definition entity_Commit :: "('w, 'b, 'v) orm \<Rightarrow> 'b entity \<Rightarrow> 'w \<Rightarrow> (unit, dberr option) outcome \<times> 'w" where
  "entity_Commit X e w = entity_tx (Commit X) e w"
definition entity_Rollback :: "('w, 'b, 'v) orm \<Rightarrow> 'b entity \<Rightarrow> 'w \<Rightarrow> (unit, dberr option) outcome \<times> 'w" where
  "entity_Rollback X e w = entity_tx (Rollback X) e w"
definition entity_Close :: "('w, 'b, 'v) orm \<Rightarrow> 'b entity \<Rightarrow> 'w \<Rightarrow> (unit, unit) outcome \<times> 'w" where
  "entity_Close X e w = entity_tx (Close X) e w"

section \<open>Connections\<close>

record DbConfig =
  ShowSql :: bool
  MaxIdle :: int
  MaxConn :: int
  Master :: string
  Slaves :: "string list"
  UseMasterSlave :: bool
  DbType :: string

text \<open>
  \<open>newEngine\<close> and \<open>newGroup\<close> are \<^verbatim>\<open>xorm.NewEngine\<close> and \<^verbatim>\<open>xorm.NewEngineGroup\<close>: driver name and data
  source to an error or a connection. The settings applied to a new connection are its result.
\<close>

record settings =
  s_show :: bool
  s_idle :: int
  s_open :: int

definition driver_of :: "DbConfig \<Rightarrow> string" where
  "driver_of c = (if DbType c = ''mysql'' then ''mysql'' else if DbType c = ''postgres'' then ''postgres'' else ''mysql'')"

definition apply_settings :: "DbConfig \<Rightarrow> settings" where
  "apply_settings c = \<lparr>s_show = ShowSql c, s_idle = MaxIdle c, s_open = MaxConn c\<rparr>"

definition NewSingleConn ::
  "(string \<Rightarrow> string \<Rightarrow> dberr + nat) \<Rightarrow> DbConfig option \<Rightarrow> dberr + (dbconn \<times> settings)" where
  "NewSingleConn newEngine cfg =
     (case cfg of
        None \<Rightarrow> Inl (ErrText ''config or config.Url can not be null'')
      | Some c \<Rightarrow>
          if Master c = [] then Inl (ErrText ''config or config.Url can not be null'')
          else case newEngine (driver_of c) (Master c) of
                 Inl err \<Rightarrow> Inl err
               | Inr n \<Rightarrow> Inr (Engine n, apply_settings c))"

definition NewMSConn ::
  "(string \<Rightarrow> string \<Rightarrow> dberr + nat) \<Rightarrow> DbConfig option \<Rightarrow> dberr + (dbconn \<times> settings)" where
  "NewMSConn newGroup cfg =
     (case cfg of
        None \<Rightarrow> Inl (ErrText ''config or config.Url can not be null'')
      | Some c \<Rightarrow>
          if Master c = [] then Inl (ErrText ''config or config.Url can not be null'')
          else if list_ex (\<lambda>v. v = []) (Slaves c) then Inl (ErrText ''config or config.Url can not be null'')
          else case newGroup (driver_of c) (Master c) of
                 Inl err \<Rightarrow> Inl err
               | Inr n \<Rightarrow> Inr (EngineGroup n, apply_settings c))"

text \<open>\<^verbatim>\<open>Init\<close>: the second component is the package variable \<^verbatim>\<open>dbConn\<close> afterwards.\<close>

definition Init ::
  "(bytes \<Rightarrow> string + DbConfig) \<Rightarrow> (string \<Rightarrow> string \<Rightarrow> dberr + nat) \<Rightarrow> (string \<Rightarrow> string \<Rightarrow> dberr + nat) \<Rightarrow> bytes \<Rightarrow>
   (dbconn \<times> settings) option \<Rightarrow> (string, dberr + (dbconn \<times> settings)) outcome \<times> (dbconn \<times> settings) option" where
  "Init parse newEngine newGroup c dbConn =
     (case parse c of
        Inl e \<Rightarrow> (Panics (''Failed to parse database configuration: '' @ e), dbConn)
      | Inr conf \<Rightarrow>
          (let r1 = (if UseMasterSlave conf then Some (NewMSConn newGroup (Some conf)) else None);
               r2 = NewSingleConn newEngine (Some conf)
           in (Returns r2, case r2 of Inl _ \<Rightarrow> None | Inr d \<Rightarrow> Some d)))"

definition GetMySqlDB :: "(dbconn \<times> settings) option \<Rightarrow> dbconn option" where
  "GetMySqlDB dbConn = map_option fst dbConn"

definition GetDao :: "('w, 'b, 'v) orm \<Rightarrow> dbconn option \<Rightarrow> 'w \<Rightarrow> (unit, OrmBaseDao) outcome \<times> 'w" where
  "GetDao X dbConn w =
     (case dbConn of None \<Rightarrow> (Panics (), w) | Some c \<Rightarrow> (case NewBaseDao X c w of (d, w') \<Rightarrow> (Returns d, w')))"

text \<open>
  A field of the template that the map does not have is written as \<^verbatim>\<open><no value>\<close>; \<open>c\<close> gives the
  printed form of the entries.
\<close>

definition field_text :: "(string \<rightharpoonup> string) \<Rightarrow> string \<Rightarrow> string" where
  "field_text c k = (case c k of None \<Rightarrow> ''<no value>'' | Some v \<Rightarrow> v)"

definition GetConnStr :: "(string \<rightharpoonup> string) \<Rightarrow> string \<Rightarrow> dberr + string" where
  "GetConnStr c t =
     (if t = ''mysql'' then
        Inr (field_text c ''user'' @ '':'' @ field_text c ''pwd'' @ ''@tcp('' @ field_text c ''host'' @ '':'' @
             field_text c ''port'' @ '')/'' @ field_text c ''db'' @ ''?charset=utf8mb4&parseTime=true&loc=Local'')
      else if t = ''postgres'' then
        Inr (''host='' @ field_text c ''host'' @ '' port='' @ field_text c ''port'' @ '' user='' @ field_text c ''user'' @
             '' dbname='' @ field_text c ''db'' @ '' password='' @ field_text c ''pwd'' @ '' sslmode=disable'')
      else Inl (ErrText ''unsupported db type''))"

text \<open>\<^verbatim>\<open>CheckWhereInfo\<close>: the condition added to a session, if any.\<close>

datatype 'v condition = CAnd string 'v | CIn string 'v | COr string 'v | CNotIn string 'v | CWhere string 'v

definition CheckWhereInfo :: "string \<Rightarrow> 'v option \<Rightarrow> string \<Rightarrow> 'v condition list \<Rightarrow> 'v condition list" where
  "CheckWhereInfo t v tp sess =
     (case v of
        None \<Rightarrow> sess
      | Some x \<Rightarrow>
          if tp = ''and'' then sess @ [CAnd t x]
          else if tp = ''in'' then sess @ [CIn t x]
          else if tp = ''or'' then sess @ [COr t x]
          else if tp = ''notin'' then sess @ [CNotIn t x]
          else if tp = ''where'' then sess @ [CWhere t x]
          else sess)"

section \<open>Upserts\<close>

text \<open>The handle that the methods of a data-access object work on.\<close>

definition dao_handle :: "OrmBaseDao \<Rightarrow> handle" where
  "dao_handle m = (case session m of Some s \<Rightarrow> OnSession s | None \<Rightarrow> conn_handle (conn m))"

lemmas dao_methods = InsertOne_def InsertMany_def Update_def UpdateById_def Delete_def DeleteById_def FindById_def
  FindOne_def Count_def Exists_def FindMany_def FindAndCount_def

lemma method_on_handle:
  "InsertOne X m b w = o_insertOne X (dao_handle m) b w"
  "InsertMany X m bs w = o_insert X (dao_handle m) bs w"
  "Update X m b cs w = o_update X (dao_handle m) None b cs w"
  "UpdateById X m k b w = o_update X (dao_handle m) (Some k) b [] w"
  "Delete X m b w = o_delete X (dao_handle m) None b w"
  "DeleteById X m k b w = o_delete X (dao_handle m) (Some k) b w"
  "FindById X m k b w = o_get X (dao_handle m) (Some k) b w"
  "FindOne X m b w = o_get X (dao_handle m) None b w"
  "Count X m b w = o_count X (dao_handle m) b w"
  "Exists X m b w = o_exist X (dao_handle m) b w"
  "FindMany X m so cs w = o_find X (dao_handle m) \<lparr>q_sql = None, q_order = Some so, q_limit = None\<rparr> cs w"
  "FindAndCount X m pg cs w =
     o_findAndCount X (dao_handle m) \<lparr>q_sql = None, q_order = Some (Sort pg), q_limit = Some (Limit pg, Skip pg)\<rparr> cs w"
  by (simp_all add: dao_methods dao_handle_def split: option.split)

text \<open>
  \<^verbatim>\<open>UpsertMany\<close> works through the pairs in order and stops at the first error; it returns the
  64-bit sum of the rows affected before that, and what was done before the error stays done.
\<close>

fun upsert_each :: "('w, 'b, 'v) orm \<Rightarrow> OrmBaseDao \<Rightarrow> ('b \<times> 'b) list \<Rightarrow> 'w \<Rightarrow> int64 list \<times> dberr option \<times> 'w" where
  "upsert_each X m [] w = ([], None, w)"
| "upsert_each X m (p # ps) w =
     (case Upsert X m (fst p) (snd p) w of
        ((_, Some err), w1) \<Rightarrow> ([], Some err, w1)
      | ((n, None), w1) \<Rightarrow> (case upsert_each X m ps w1 of (ns, e, w2) \<Rightarrow> (n # ns, e, w2)))"

lemma upsert_loop_each:
  "upsert_loop X m ps tot w = (case upsert_each X m ps w of (ns, e, w') \<Rightarrow> ((tot + sum_list ns, e), w'))"
  by (induction X m ps tot w rule: upsert_loop.induct)
    (auto simp: add.assoc split: prod.splits option.splits)

lemma upsert_many_sum:
  "length ws = length bs \<Longrightarrow>
   UpsertMany X m ws bs w = (case upsert_each X m (zip ws bs) w of (ns, e, w') \<Rightarrow> ((sum_list ns, e), w'))"
  by (simp add: UpsertMany_def upsert_loop_each)

text \<open>\<^verbatim>\<open>CallProcedure\<close>: one placeholder per argument; an error that ends the rows early is not noticed.\<close>

lemma placeholders_loop_join:
  "placeholders_loop i args acc =
     (if args = [] then acc
      else (if i > 0 then acc @ '', '' else acc) @ strings_Join (replicate (length args) ''?'') '', '')"
proof (induction i args acc rule: placeholders_loop.induct)
  case (2 i x args acc)
  then show ?case by (cases args) simp_all
qed simp

lemma call_sql_placeholders:
  "call_sql p args = ''CALL '' @ p @ ''('' @ strings_Join (replicate (length args) ''?'') '', '' @ '')''"
  by (simp add: call_sql_def placeholders_loop_join)

lemma row_error_ignored: "result_sets text (rs\<lparr>rs_end_error := e\<rparr> # others) = result_sets text (rs # others)"
  by (simp split: sum.split)

text \<open>\<^verbatim>\<open>Init\<close> with \<^verbatim>\<open>UseMasterSlave\<close> installs the single connection of the master all the same.\<close>

lemma Init_master_slave_ignored:
  "parse c = Inr conf \<Longrightarrow> Init parse newEngine newGroup c old = Init parse newEngine newGroup' c old'"
  by (simp add: Init_def Let_def)

text \<open>
  The map documented for \<^verbatim>\<open>GetConnStr\<close> (\<^verbatim>\<open>passwd\<close>, \<^verbatim>\<open>dbname\<close>) does not have the fields the templates use.
\<close>

lemma GetConnStr_documented_map:
  "GetConnStr [''host'' \<mapsto> h, ''port'' \<mapsto> p, ''user'' \<mapsto> u, ''passwd'' \<mapsto> pw, ''dbname'' \<mapsto> d] ''mysql'' =
     Inr (u @ '':<no value>@tcp('' @ h @ '':'' @ p @ '')/<no value>?charset=utf8mb4&parseTime=true&loc=Local'')"
  by (simp add: GetConnStr_def field_text_def)

end
