(* ===== verification/Db_Session.thy ===== *)
theory Db_Session
  imports Databases
begin

text \<open>
  \<^verbatim>\<open>libs/databases/common.go\<close>: the helpers that turn "no row" into an error, the transaction
  decorator \<^verbatim>\<open>WarpSession\<close> and the chained transaction \<^verbatim>\<open>SessionWrapper\<close>.

  A transaction runs on a session of the mapper (theory \<^verbatim>\<open>Databases\<close>). The session of a
  \<^verbatim>\<open>SessionWrapper\<close> comes from \<^verbatim>\<open>NewSession\<close> and so is never nil; it is its number here. The methods
  of \<^verbatim>\<open>SessionWrapper\<close> have value receivers: they return the changed copy.
\<close>

section \<open>Empty results\<close>

definition DoGet :: "('w \<Rightarrow> (bool \<times> dberr option) \<times> 'w) \<Rightarrow> 'w \<Rightarrow> dberr option \<times> 'w" where
  "DoGet call w =
     (case call w of ((has, err), w') \<Rightarrow>
        (case err of Some e \<Rightarrow> (Some e, w') | None \<Rightarrow> (if \<not> has then Some ErrGetEmpty else None, w')))"

definition DoUpdate :: "('w \<Rightarrow> (int64 \<times> dberr option) \<times> 'w) \<Rightarrow> 'w \<Rightarrow> dberr option \<times> 'w" where
  "DoUpdate call w =
     (case call w of ((ret, err), w') \<Rightarrow>
        (case err of Some e \<Rightarrow> (Some e, w') | None \<Rightarrow> (if 0 = ret then Some ErrUpdatedEmpty else None, w')))"

definition DoInsert :: "('w \<Rightarrow> (int64 \<times> dberr option) \<times> 'w) \<Rightarrow> 'w \<Rightarrow> dberr option \<times> 'w" where
  "DoInsert call w =
     (case call w of ((ret, err), w') \<Rightarrow>
        (case err of Some e \<Rightarrow> (Some e, w') | None \<Rightarrow> (if 0 = ret then Some ErrInsertedEmpty else None, w')))"

definition DoDelete :: "('w \<Rightarrow> (int64 \<times> dberr option) \<times> 'w) \<Rightarrow> 'w \<Rightarrow> dberr option \<times> 'w" where
  "DoDelete call w =
     (case call w of ((ret, err), w') \<Rightarrow>
        (case err of Some e \<Rightarrow> (Some e, w') | None \<Rightarrow> (if 0 = ret then Some ErrDeletedEmpty else None, w')))"

section \<open>The transaction decorator\<close>

definition SessionDoctorCommit :: int where "SessionDoctorCommit = 0"
definition SessionDoctorRollback :: int where "SessionDoctorRollback = 1"

definition WarpSession_body ::
  "('w, 'b, 'v) orm \<Rightarrow> nat \<Rightarrow> (nat \<Rightarrow> 'w \<Rightarrow> ('a option \<times> int \<times> dberr option) \<times> 'w) \<Rightarrow> 'w \<Rightarrow>
   ('a option \<times> int \<times> dberr option) \<times> 'w" where
  "WarpSession_body X s h w =
     (case o_begin X s w of
        (Some err, w1) \<Rightarrow> ((None, 0, Some err), w1)
      | (None, w1) \<Rightarrow>
          (case h s w1 of
             ((val, doctor, Some err), w2) \<Rightarrow> ((None, 0, Some err), w2)
           | ((val, doctor, None), w2) \<Rightarrow>
               if doctor = SessionDoctorCommit then
                 (case o_commit X s w2 of
                    (Some err2, w3) \<Rightarrow> ((None, 0, Some err2), w3) | (None, w3) \<Rightarrow> ((val, 0, None), w3))
               else
                 (case o_rollback X s w2 of
                    (Some err2, w3) \<Rightarrow> ((None, 0, Some err2), w3) | (None, w3) \<Rightarrow> ((val, 0, None), w3))))"

text \<open>The deferred \<^verbatim>\<open>s.Close()\<close> runs on every return.\<close>

definition WarpSession ::
  "('w, 'b, 'v) orm \<Rightarrow> nat \<Rightarrow> (nat \<Rightarrow> 'w \<Rightarrow> ('a option \<times> int \<times> dberr option) \<times> 'w) \<Rightarrow> 'w \<Rightarrow>
   ('a option \<times> int \<times> dberr option) \<times> 'w" where
  "WarpSession X s h w = (case WarpSession_body X s h w of (r, w') \<Rightarrow> (r, o_close X s w'))"

section \<open>The chained transaction\<close>

record SessionWrapper =
  sw_dao :: OrmBaseDao
  sw_session :: nat
  sw_err :: "dberr option"

definition NewSessionWrapper :: "('w, 'b, 'v) orm \<Rightarrow> OrmBaseDao \<Rightarrow> 'w \<Rightarrow> SessionWrapper \<times> 'w" where
  "NewSessionWrapper X d w =
     (case o_newSession X (conn_handle (conn d)) w of (s, w1) \<Rightarrow>
        (case o_begin X s w1 of (e, w2) \<Rightarrow> (\<lparr>sw_dao = d, sw_session = s, sw_err = e\<rparr>, w2)))"

definition session_dao :: "SessionWrapper \<Rightarrow> OrmBaseDao" where
  "session_dao sw = \<lparr>conn = conn (sw_dao sw), session = Some (sw_session sw)\<rparr>"

type_synonym 'w execute = "OrmBaseDao \<Rightarrow> 'w \<Rightarrow> dberr option \<times> 'w"

definition Execute :: "('w, 'b, 'v) orm \<Rightarrow> 'w execute \<Rightarrow> SessionWrapper \<Rightarrow> 'w \<Rightarrow> SessionWrapper \<times> 'w" where
  "Execute X call sw w =
     (if sw_err sw \<noteq> None then (sw, w)
      else case call (session_dao sw) w of
             (None, w1) \<Rightarrow> (sw\<lparr>sw_err := None\<rparr>, w1)
           | (Some e, w1) \<Rightarrow> (sw\<lparr>sw_err := Some e\<rparr>, snd (o_rollback X (sw_session sw) w1)))"

definition sw_Commit :: "('w, 'b, 'v) orm \<Rightarrow> SessionWrapper \<Rightarrow> 'w \<Rightarrow> dberr option \<times> 'w" where
  "sw_Commit X sw w =
     (case sw_err sw of
        None \<Rightarrow> o_commit X (sw_session sw) w
      | Some e \<Rightarrow> (Some e, snd (o_rollback X (sw_session sw) w)))"

definition CommitAndClose :: "('w, 'b, 'v) orm \<Rightarrow> SessionWrapper \<Rightarrow> 'w \<Rightarrow> dberr option \<times> 'w" where
  "CommitAndClose X sw w =
     (case (if sw_err sw = None then sw_Commit X sw w else (sw_err sw, w)) of
        (e, w1) \<Rightarrow> (e, o_close X (sw_session sw) w1))"

definition sw_Close :: "('w, 'b, 'v) orm \<Rightarrow> SessionWrapper \<Rightarrow> 'w \<Rightarrow> dberr option \<times> 'w" where
  "sw_Close X sw w =
     (let w1 = (if sw_err sw \<noteq> None then snd (o_rollback X (sw_session sw) w) else w)
      in (sw_err sw, o_close X (sw_session sw) w1))"

definition GetErr :: "SessionWrapper \<Rightarrow> dberr option" where
  "GetErr sw = sw_err sw"

text \<open>The chain \<^verbatim>\<open>NewSessionWrapper(d).Execute(f1)...Execute(fn).CommitAndClose()\<close>.\<close>

fun execute_all :: "('w, 'b, 'v) orm \<Rightarrow> 'w execute list \<Rightarrow> SessionWrapper \<Rightarrow> 'w \<Rightarrow> SessionWrapper \<times> 'w" where
  "execute_all X [] sw w = (sw, w)"
| "execute_all X (f # fs) sw w = (case Execute X f sw w of (sw1, w1) \<Rightarrow> execute_all X fs sw1 w1)"

definition transaction :: "('w, 'b, 'v) orm \<Rightarrow> OrmBaseDao \<Rightarrow> 'w execute list \<Rightarrow> 'w \<Rightarrow> dberr option \<times> 'w" where
  "transaction X d fs w =
     (case NewSessionWrapper X d w of (sw, w1) \<Rightarrow>
        (case execute_all X fs sw w1 of (sw2, w2) \<Rightarrow> CommitAndClose X sw2 w2))"

section \<open>Atomicity\<close>

fun seq_calls :: "'w execute list \<Rightarrow> OrmBaseDao \<Rightarrow> 'w \<Rightarrow> dberr option \<times> 'w" where
  "seq_calls [] m w = (None, w)"
| "seq_calls (f # fs) m w = (case f m w of (Some e, w1) \<Rightarrow> (Some e, w1) | (None, w1) \<Rightarrow> seq_calls fs m w1)"

lemma execute_all_failed: "sw_err sw \<noteq> None \<Longrightarrow> execute_all X fs sw w = (sw, w)"
  by (induction fs) (simp_all add: Execute_def)

lemma execute_all_seq:
  "sw_err sw = None \<Longrightarrow> execute_all X fs sw w =
     (case seq_calls fs (session_dao sw) w of
        (None, w1) \<Rightarrow> (sw, w1)
      | (Some e, w1) \<Rightarrow> (sw\<lparr>sw_err := Some e\<rparr>, snd (o_rollback X (sw_session sw) w1)))"
proof (induction fs arbitrary: w)
  case (Cons f fs)
  show ?case
  proof (cases "f (session_dao sw) w")
    case (Pair e w1)
    show ?thesis
    proof (cases e)
      case None
      have same: "sw\<lparr>sw_err := None\<rparr> = sw" using Cons.prems by (cases sw) simp
      have "execute_all X (f # fs) sw w = execute_all X fs sw w1"
        using None Pair Cons.prems by (simp add: Execute_def) (simp only: same)
      with None Pair Cons show ?thesis by simp
    next
      case (Some x)
      with Pair Cons.prems show ?thesis by (simp add: Execute_def execute_all_failed)
    qed
  qed
qed simp

text \<open>
  A step that works inside its transaction: on a session with an open transaction it leaves the
  committed content alone and does not end the transaction. On a session without one it may do
  anything (a write commits at once there).
\<close>

definition in_transaction ::
  "('w \<Rightarrow> 'd) \<Rightarrow> ('w \<Rightarrow> nat \<Rightarrow> 'd option) \<Rightarrow> nat \<Rightarrow> ('w \<Rightarrow> 'r \<times> 'w) \<Rightarrow> bool" where
  "in_transaction committed working s f \<longleftrightarrow>
     (\<forall>w. working w s \<noteq> None \<longrightarrow> committed (snd (f w)) = committed w \<and> working (snd (f w)) s \<noteq> None)"

lemma in_transactionD:
  assumes "in_transaction committed working s f" and "f w = (r, w')" and "working w s \<noteq> None"
  shows "committed w' = committed w" and "working w' s \<noteq> None"
  using assms unfolding in_transaction_def by (metis snd_conv)+

lemma seq_calls_in_transaction:
  assumes "\<forall>f \<in> set fs. in_transaction committed working s (f m)"
  shows "in_transaction committed working s (seq_calls fs m)"
  using assms
proof (induction fs)
  case (Cons f fs)
  have f: "in_transaction committed working s (f m)" and fs: "in_transaction committed working s (seq_calls fs m)"
    using Cons by simp_all
  show ?case unfolding in_transaction_def
  proof (intro allI impI)
    fix w assume o: "working w s \<noteq> None"
    obtain e w1 where e: "f m w = (e, w1)" by fastforce
    obtain e2 w2 where e2: "seq_calls fs m w1 = (e2, w2)" by fastforce
    note in1 = in_transactionD [OF f e o]
    note in2 = in_transactionD [OF fs e2 in1(2)]
    show "committed (snd (seq_calls (f # fs) m w)) = committed w \<and> working (snd (seq_calls (f # fs) m w)) s \<noteq> None"
      using e e2 in1 in2 by (cases e) simp_all
  qed
qed (simp add: in_transaction_def)

text \<open>
  What the transactions rely on of the mapper. \<open>committed w\<close> is the content of the database that
  others see, \<open>working w s\<close> the content inside the open transaction of session \<open>s\<close>: a successful
  begin leaves a transaction open, only a successful commit changes the committed content, and it
  installs that of the transaction; closing a session discards an open transaction.
\<close>

locale tx_mapper =
  fixes X :: "('w, 'b, 'v) orm" and committed :: "'w \<Rightarrow> 'd" and working :: "'w \<Rightarrow> nat \<Rightarrow> 'd option"
  assumes newSession_committed: "committed (snd (o_newSession X h w)) = committed w"
    and begin_committed: "committed (snd (o_begin X s w)) = committed w"
    and begin_opens: "o_begin X s w = (None, w') \<Longrightarrow> working w' s \<noteq> None"
    and commit_committed: "committed (snd (o_commit X s w)) =
        (case (fst (o_commit X s w), working w s) of (None, Some d) \<Rightarrow> d | _ \<Rightarrow> committed w)"
    and rollback_committed: "committed (snd (o_rollback X s w)) = committed w"
    and close_committed: "committed (o_close X s w) = committed w"
begin

lemmas session_laws = newSession_committed begin_committed rollback_committed close_committed

lemma NewSessionWrapper_committed: "committed (snd (NewSessionWrapper X d w)) = committed w"
  using newSession_committed [of "conn_handle (conn d)" w] begin_committed
  by (auto simp: NewSessionWrapper_def split: prod.splits) (metis snd_conv)

end

context tx_mapper
begin

lemma transaction_cases:
  assumes steps: "\<And>sw w1 c w2. NewSessionWrapper X d w = (sw, w1) \<Longrightarrow> sw_err sw = None \<Longrightarrow>
      seq_calls fs (session_dao sw) w1 = (c, w2) \<Longrightarrow> committed w2 = committed w1"
    and run: "transaction X d fs w = (e, w')"
  shows "(e \<noteq> None \<longrightarrow> committed w' = committed w) \<and>
    (e = None \<longrightarrow> (\<exists>sw w1 w2. NewSessionWrapper X d w = (sw, w1) \<and> sw_err sw = None \<and>
       seq_calls fs (session_dao sw) w1 = (None, w2) \<and>
       committed w' = (case working w2 (sw_session sw) of Some x \<Rightarrow> x | None \<Rightarrow> committed w)))"
proof -
  obtain sw w1 where n: "NewSessionWrapper X d w = (sw, w1)" by fastforce
  have w1: "committed w1 = committed w" using n NewSessionWrapper_committed [of d w] by simp
  obtain ce w2 where q: "seq_calls fs (session_dao sw) w1 = (ce, w2)" by fastforce
  show ?thesis
  proof (cases "sw_err sw")
    case (Some x)
    with n run have "e = Some x" "w' = o_close X (sw_session sw) w1"
      by (simp_all add: transaction_def execute_all_failed CommitAndClose_def)
    with w1 show ?thesis by (simp add: session_laws)
  next
    case None
    have w2: "committed w2 = committed w" using steps [OF n None q] w1 by simp
    note calls = execute_all_seq [OF None, of X fs w1]
    show ?thesis
    proof (cases ce)
      case (Some x)
      with n q calls run None
      have "e = Some x" "w' = o_close X (sw_session sw) (snd (o_rollback X (sw_session sw) w2))"
        by (simp_all add: transaction_def CommitAndClose_def)
      with w2 show ?thesis by (simp add: session_laws)
    next
      case c: None
      with n q calls run None
      have ew: "e = fst (o_commit X (sw_session sw) w2)"
        "w' = o_close X (sw_session sw) (snd (o_commit X (sw_session sw) w2))"
        by (auto simp: transaction_def CommitAndClose_def sw_Commit_def split: prod.splits)
      then have "committed w' = (case (e, working w2 (sw_session sw)) of (None, Some x) \<Rightarrow> x | _ \<Rightarrow> committed w)"
        using w2 by (simp add: session_laws commit_committed split: option.split)
      with n q c None show ?thesis by (auto split: option.splits)
    qed
  qed
qed

lemma transaction_atomic:
  assumes steps: "\<forall>f \<in> set fs. \<forall>m s. session m = Some s \<longrightarrow> in_transaction committed working s (f m)"
    and run: "transaction X d fs w = (e, w')"
  shows "if e = None
    then \<exists>sw w1 w2. NewSessionWrapper X d w = (sw, w1) \<and> sw_err sw = None \<and>
       seq_calls fs (session_dao sw) w1 = (None, w2) \<and> working w2 (sw_session sw) = Some (committed w')
    else committed w' = committed w"
proof -
  have inside: "committed w2 = committed w1 \<and> working w2 (sw_session sw) \<noteq> None"
    if n: "NewSessionWrapper X d w = (sw, w1)" and ok: "sw_err sw = None"
      and q: "seq_calls fs (session_dao sw) w1 = (c, w2)" for sw w1 c w2
  proof -
    have opened: "working w1 (sw_session sw) \<noteq> None"
      using n ok begin_opens by (fastforce simp: NewSessionWrapper_def split: prod.splits)
    have "in_transaction committed working (sw_session sw) (seq_calls fs (session_dao sw))"
      by (rule seq_calls_in_transaction) (use steps in \<open>simp add: session_dao_def\<close>)
    from in_transactionD [OF this q opened] show ?thesis by blast
  qed
  have "\<exists>sw w1 w2. NewSessionWrapper X d w = (sw, w1) \<and> sw_err sw = None \<and>
       seq_calls fs (session_dao sw) w1 = (None, w2) \<and> working w2 (sw_session sw) = Some (committed w')" if "e = None"
  proof -
    from transaction_cases [OF _ run] inside that obtain sw w1 w2 where
      t: "NewSessionWrapper X d w = (sw, w1)" "sw_err sw = None" "seq_calls fs (session_dao sw) w1 = (None, w2)"
        "committed w' = (case working w2 (sw_session sw) of Some x \<Rightarrow> x | None \<Rightarrow> committed w)" by blast
    with inside [OF t(1-3)] have "working w2 (sw_session sw) = Some (committed w')" by auto
    with t(1-3) show ?thesis by blast
  qed
  then show ?thesis using transaction_cases [OF _ run] inside by auto
qed

text \<open>What \<^verbatim>\<open>WarpSession\<close> does, on each of its paths.\<close>

lemma WarpSession_cases:
  assumes h: "in_transaction committed working s (h s)" and run: "WarpSession X s h w = ((val, n, e), w')"
  shows "n = 0 \<and>
    (case o_begin X s w of
       (Some err, w1) \<Rightarrow> val = None \<and> e = Some err \<and> committed w' = committed w
     | (None, w1) \<Rightarrow>
         (case h s w1 of
            ((v, doctor, Some err), w2) \<Rightarrow> val = None \<and> e = Some err \<and> committed w' = committed w
          | ((v, doctor, None), w2) \<Rightarrow>
              if doctor = SessionDoctorCommit then
                (case fst (o_commit X s w2) of
                   Some err \<Rightarrow> val = None \<and> e = Some err \<and> committed w' = committed w
                 | None \<Rightarrow> val = v \<and> e = None \<and> working w2 s = Some (committed w'))
              else committed w' = committed w \<and>
                (case fst (o_rollback X s w2) of
                   Some err \<Rightarrow> val = None \<and> e = Some err | None \<Rightarrow> val = v \<and> e = None)))"
proof -
  obtain be w1 where b: "o_begin X s w = (be, w1)" by fastforce
  obtain v dr he w2 where hh: "h s w1 = ((v, dr, he), w2)" by (metis prod.collapse)
  obtain ce w3 where c: "o_commit X s w2 = (ce, w3)" by fastforce
  obtain re w4 where r: "o_rollback X s w2 = (re, w4)" by fastforce
  have w1: "committed w1 = committed w" using begin_committed [of s w] b by simp
  have w4: "committed w4 = committed w2" using rollback_committed [of s w2] r by simp
  have w3: "committed w3 = (case (ce, working w2 s) of (None, Some d) \<Rightarrow> d | _ \<Rightarrow> committed w2)"
    using commit_committed [of s w2] c by simp
  have w2: "committed w2 = committed w \<and> working w2 s \<noteq> None" if "be = None"
    using in_transactionD [OF h hh begin_opens] b that w1 by simp
  show ?thesis
  proof (cases be)
    case (Some err)
    with run b w1 show ?thesis by (auto simp: WarpSession_def WarpSession_body_def session_laws)
  next
    case None
    with w2 have o: "committed w2 = committed w" "working w2 s \<noteq> None" by simp_all
    show ?thesis
    proof (cases he)
      case he: None
      from o None he b hh c r w3 w4 run show ?thesis
        by (cases ce; cases re; cases "dr = SessionDoctorCommit")
          (auto simp: WarpSession_def WarpSession_body_def session_laws)
    qed (use o None b hh run in \<open>auto simp: WarpSession_def WarpSession_body_def session_laws\<close>)
  qed
qed

end

end
