(* ===== verification/Db_Table.thy ===== *)
theory Db_Table
  imports Db_Session "HOL-Library.Finite_Map"
begin

text \<open>
  What the data-access layer relies on: a database table that a session reads and writes, with
  its transactions, and the mapper that works on it.

  \<^item> \<open>table\<close>: the rows by primary key. \<open>view\<close>: what one user of the database has, the committed
    table and, between begin and commit, the table of the open transaction.
  \<^item> locale \<open>table_mapper\<close>: the documented behaviour of xorm on a table whose columns are all given by
    the caller (no \<^verbatim>\<open>autoincr\<close>, \<^verbatim>\<open>created\<close>, \<^verbatim>\<open>updated\<close>, \<^verbatim>\<open>deleted\<close> or \<^verbatim>\<open>version\<close> column, which xorm fills
    in and, on inserts, writes back into the bean). A bean used as a condition selects the rows that agree with its non-empty fields
    (\<open>matches\<close>), an update writes the non-empty fields of the bean (\<open>merge\<close>), a find returns the
    selected rows in the order asked for (\<open>arrange\<close>); every statement may fail, and then changes
    nothing (an insert of several rows may stop half-way). The laws speak of the table as the caller
    sees it, while nobody else writes to it.
  \<^item> \<open>ref_orm\<close>: a mapper with these laws that computes.
\<close>

section \<open>Tables and views\<close>

type_synonym ('v, 'b) table = "'v \<rightharpoonup> 'b"
type_synonym ('v, 'b) view = "('v, 'b) table \<times> ('v, 'b) table option"

definition current :: "('v, 'b) view \<Rightarrow> ('v, 'b) table" where
  "current v = (case snd v of Some t \<Rightarrow> t | None \<Rightarrow> fst v)"

definition put_table :: "('v, 'b) table \<Rightarrow> ('v, 'b) view \<Rightarrow> ('v, 'b) view" where
  "put_table t v = (case snd v of Some _ \<Rightarrow> (fst v, Some t) | None \<Rightarrow> (t, None))"

lemma current_put [simp]: "current (put_table t v) = t"
  and put_put [simp]: "put_table t (put_table t' v) = put_table t v"
  and put_current [simp]: "put_table (current v) v = v"
  by (cases v; simp add: current_def put_table_def split: option.split)+

lemma put_open [simp]: "put_table t (c, Some t') = (c, Some t)"
  and current_open [simp]: "current (c, Some t) = t"
  and current_closed [simp]: "current (c, None) = c"
  by (simp_all add: put_table_def current_def)

text \<open>
  What a table is to the mapper: the primary key of a bean, which rows a condition bean selects,
  the row after an update, the rows in the order of a sort expression, and which sort expressions
  determine that order.
\<close>

record ('v, 'b) schema =
  pk :: "'b \<Rightarrow> 'v"
  matches :: "'b \<Rightarrow> 'b \<Rightarrow> bool"
  merge :: "'b \<Rightarrow> 'b \<Rightarrow> 'b"
  arrange :: "string \<Rightarrow> ('v, 'b) table \<Rightarrow> 'b list"
  definite :: "string \<Rightarrow> bool"

definition wf_table :: "('v, 'b) schema \<Rightarrow> ('v, 'b) table \<Rightarrow> bool" where
  "wf_table S t \<longleftrightarrow> finite (dom t) \<and> (\<forall>k r. t k = Some r \<longrightarrow> pk S r = k)"

definition selects :: "('v, 'b) schema \<Rightarrow> 'b list \<Rightarrow> 'b \<Rightarrow> bool" where
  "selects S cs r = (case cs of [] \<Rightarrow> True | c # _ \<Rightarrow> matches S c r)"

definition any_match :: "('v, 'b) schema \<Rightarrow> 'b \<Rightarrow> ('v, 'b) table \<Rightarrow> bool" where
  "any_match S c t \<longleftrightarrow> (\<exists>r \<in> ran t. matches S c r)"

definition update_where :: "('v, 'b) schema \<Rightarrow> 'b \<Rightarrow> 'b \<Rightarrow> ('v, 'b) table \<Rightarrow> ('v, 'b) table" where
  "update_where S c b t = (\<lambda>k. map_option (\<lambda>r. if matches S c r then merge S b r else r) (t k))"

definition update_key :: "('v, 'b) schema \<Rightarrow> 'v \<Rightarrow> 'b \<Rightarrow> ('v, 'b) table \<Rightarrow> ('v, 'b) table" where
  "update_key S k b t = t(k := map_option (merge S b) (t k))"

definition delete_where :: "('v, 'b) schema \<Rightarrow> 'b \<Rightarrow> ('v, 'b) table \<Rightarrow> ('v, 'b) table" where
  "delete_where S c t = (\<lambda>k. case t k of Some r \<Rightarrow> if matches S c r then None else Some r | None \<Rightarrow> None)"

definition delete_key :: "('v, 'b) schema \<Rightarrow> 'v \<Rightarrow> 'b \<Rightarrow> ('v, 'b) table \<Rightarrow> ('v, 'b) table" where
  "delete_key S k c t = t(k := (case t k of Some r \<Rightarrow> if matches S c r then None else Some r | None \<Rightarrow> None))"

text \<open>The rows with a condition and a key: what \<^verbatim>\<open>ID(k).Get(bean)\<close> looks for.\<close>

definition row_at :: "('v, 'b) schema \<Rightarrow> 'v \<Rightarrow> 'b \<Rightarrow> ('v, 'b) table \<Rightarrow> 'b option" where
  "row_at S k c t = (case t k of Some r \<Rightarrow> if matches S c r then Some r else None | None \<Rightarrow> None)"

text \<open>Rows inserted one after the other; \<open>None\<close> when a key is taken.\<close>

definition insert_row :: "('v, 'b) schema \<Rightarrow> 'b \<Rightarrow> ('v, 'b) table \<Rightarrow> ('v, 'b) table option" where
  "insert_row S b t = (if t (pk S b) = None then Some (t(pk S b \<mapsto> b)) else None)"

fun insert_rows :: "('v, 'b) schema \<Rightarrow> 'b list \<Rightarrow> ('v, 'b) table \<Rightarrow> ('v, 'b) table option" where
  "insert_rows S [] t = Some t"
| "insert_rows S (b # bs) t = (case insert_row S b t of Some t' \<Rightarrow> insert_rows S bs t' | None \<Rightarrow> None)"

definition upsert_row ::
  "('v, 'b) schema \<Rightarrow> 'b \<times> 'b \<Rightarrow> ('v, 'b) table \<Rightarrow> ('v, 'b) table option" where
  "upsert_row S p t =
     (if any_match S (fst p) t then Some (update_where S (fst p) (snd p) t)
      else insert_row S (snd p) t)"

fun upsert_rows ::
  "('v, 'b) schema \<Rightarrow> ('b \<times> 'b) list \<Rightarrow> ('v, 'b) table \<Rightarrow> ('v, 'b) table option" where
  "upsert_rows S [] t = Some t"
| "upsert_rows S (p # ps) t =
     (case upsert_row S p t of Some t' \<Rightarrow> upsert_rows S ps t' | None \<Rightarrow> None)"

section \<open>The documented mapper\<close>

definition view_of :: "('w \<Rightarrow> ('v, 'b) table) \<Rightarrow> ('w \<Rightarrow> nat \<Rightarrow> ('v, 'b) table option) \<Rightarrow> 'w \<Rightarrow> handle \<Rightarrow> ('v, 'b) view" where
  "view_of committed working w h = (committed w, (case h of OnSession s \<Rightarrow> working w s | OnEngine _ \<Rightarrow> None))"

locale table_mapper = tx_mapper X committed working
  for X :: "('w, 'b, 'v) orm" and committed :: "'w \<Rightarrow> ('v, 'b) table"
    and working :: "'w \<Rightarrow> nat \<Rightarrow> ('v, 'b) table option" +
  fixes S :: "('v, 'b) schema"
  assumes wf_content: "wf_table S (current (view_of committed working w h))"
    and merge_same: "merge S r r = r"
    and arranged: "wf_table S t \<Longrightarrow> distinct (arrange S so t) \<and> set (arrange S so t) = ran t"
    and newSession_view: "o_newSession X h w = (s, w') \<Longrightarrow> view_of committed working w' (OnSession s) = (committed w, None)"
    and begin_view: "o_begin X s w = (e, w') \<Longrightarrow>
      view_of committed working w' (OnSession s) =
        (if e = None then (committed w, Some (current (view_of committed working w (OnSession s))))
         else view_of committed working w (OnSession s))"
    and commit_closes: "o_commit X s w = (None, w') \<Longrightarrow> working w' s = None"
    and rollback_closes: "o_rollback X s w = (None, w') \<Longrightarrow> working w' s = None"
    and close_closes: "working (o_close X s w) s = None"
    and insertOne_view: "o_insertOne X h b w = ((n, e), w') \<Longrightarrow>
      (case e of Some _ \<Rightarrow> view_of committed working w' h = view_of committed working w h
       | None \<Rightarrow> n = 1 \<and> (\<exists>t. insert_row S b (current (view_of committed working w h)) = Some t \<and>
                    view_of committed working w' h = put_table t (view_of committed working w h)))"
    and insert_view: "o_insert X h bs w = ((n, e), w') \<Longrightarrow>
      \<exists>j t. (e = None \<longrightarrow> j = length bs \<and> n = of_nat j) \<and> insert_rows S (take j bs) (current (view_of committed working w h)) = Some t \<and>
        view_of committed working w' h = put_table t (view_of committed working w h)"
    and update_view: "o_update X h None b [c] w = ((n, e), w') \<Longrightarrow> \<forall>r. matches S c r \<longrightarrow> pk S (merge S b r) = pk S r \<Longrightarrow>
      (case e of Some _ \<Rightarrow> view_of committed working w' h = view_of committed working w h
       | None \<Rightarrow> (n \<noteq> 0 \<longrightarrow> any_match S c (current (view_of committed working w h))) \<and>
           view_of committed working w' h =
             put_table (update_where S c b (current (view_of committed working w h))) (view_of committed working w h))"
    and updateById_view: "o_update X h (Some k) b [] w = ((n, e), w') \<Longrightarrow>
      \<forall>r. current (view_of committed working w h) k = Some r \<longrightarrow> pk S (merge S b r) = k \<Longrightarrow>
      (case e of Some _ \<Rightarrow> view_of committed working w' h = view_of committed working w h
       | None \<Rightarrow> (n \<noteq> 0 \<longrightarrow> k \<in> dom (current (view_of committed working w h))) \<and>
           view_of committed working w' h =
             put_table (update_key S k b (current (view_of committed working w h))) (view_of committed working w h))"
    and delete_view: "o_delete X h None b w = ((n, e), w') \<Longrightarrow>
      (case e of Some _ \<Rightarrow> view_of committed working w' h = view_of committed working w h
       | None \<Rightarrow> (n \<noteq> 0 \<longleftrightarrow> any_match S b (current (view_of committed working w h))) \<and>
           view_of committed working w' h =
             put_table (delete_where S b (current (view_of committed working w h))) (view_of committed working w h))"
    and deleteById_view: "o_delete X h (Some k) b w = ((n, e), w') \<Longrightarrow>
      (case e of Some _ \<Rightarrow> view_of committed working w' h = view_of committed working w h
       | None \<Rightarrow> (n \<noteq> 0 \<longleftrightarrow> row_at S k b (current (view_of committed working w h)) \<noteq> None) \<and>
           view_of committed working w' h =
             put_table (delete_key S k b (current (view_of committed working w h))) (view_of committed working w h))"
    and get_view: "o_get X h None b w = ((has, e), b', w') \<Longrightarrow>
      view_of committed working w' h = view_of committed working w h \<and>
      (e = None \<longrightarrow> (if has then b' \<in> ran (current (view_of committed working w h)) \<and> matches S b b'
                       else b' = b \<and> \<not> any_match S b (current (view_of committed working w h))))"
    and getById_view: "o_get X h (Some k) b w = ((has, e), b', w') \<Longrightarrow>
      view_of committed working w' h = view_of committed working w h \<and>
      (e = None \<longrightarrow> row_at S k b (current (view_of committed working w h)) = (if has then Some b' else None) \<and>
                      (\<not> has \<longrightarrow> b' = b))"
    and exist_view: "o_exist X h b w = ((has, e), w') \<Longrightarrow>
      view_of committed working w' h = view_of committed working w h \<and>
      (e = None \<longrightarrow> has = any_match S b (current (view_of committed working w h)))"
    and count_view: "o_count X h b w = ((n, e), w') \<Longrightarrow>
      view_of committed working w' h = view_of committed working w h \<and>
      (e = None \<longrightarrow> n = of_nat (card {r \<in> ran (current (view_of committed working w h)). matches S b r}))"
    and find_view: "o_find X h \<lparr>q_sql = None, q_order = Some so, q_limit = None\<rparr> cs w = ((rs, e), w') \<Longrightarrow>
      definite S so \<Longrightarrow> length cs \<le> 1 \<Longrightarrow>
      view_of committed working w' h = view_of committed working w h \<and>
      (e = None \<longrightarrow> rs = filter (selects S cs) (arrange S so (current (view_of committed working w h))))"
    and page_view: "o_findAndCount X h \<lparr>q_sql = None, q_order = Some so, q_limit = Some (li, sk)\<rparr> cs w = ((rs, n, e), w') \<Longrightarrow>
      definite S so \<Longrightarrow> length cs \<le> 1 \<Longrightarrow> 0 < li \<Longrightarrow> 0 \<le> sk \<Longrightarrow>
      view_of committed working w' h = view_of committed working w h \<and>
      (e = None \<longrightarrow> (let all = filter (selects S cs) (arrange S so (current (view_of committed working w h)))
          in rs = take (nat li) (drop (nat sk) all) \<and> n = of_nat (length all)))"
begin

abbreviation seen :: "'w \<Rightarrow> handle \<Rightarrow> ('v, 'b) view" where
  "seen w h \<equiv> view_of committed working w h"

end

section \<open>A mapper that computes\<close>

text \<open>
  The reference mapper keeps one table with two numeric columns, the key and a value; \<open>0\<close> is the
  empty field. A table is a finite map, so every state is well formed.
\<close>

type_synonym bean = "nat \<times> nat"

record ref_db =
  rd_next :: nat
  rd_rows :: "(nat, nat) fmap"
  rd_open :: "nat \<rightharpoonup> (nat, nat) fmap"

definition table_of :: "(nat, nat) fmap \<Rightarrow> (nat, bean) table" where
  "table_of m = (\<lambda>k. map_option (Pair k) (fmlookup m k))"

definition rows_of :: "(nat, nat) fmap \<Rightarrow> bean list" where
  "rows_of m = map (\<lambda>k. (k, the (fmlookup m k))) (sorted_list_of_fset (fmdom m))"

definition ref_committed :: "ref_db \<Rightarrow> (nat, bean) table" where
  "ref_committed w = table_of (rd_rows w)"

definition ref_working :: "ref_db \<Rightarrow> nat \<Rightarrow> (nat, bean) table option" where
  "ref_working w s = map_option table_of (rd_open w s)"

definition ref_schema :: "(nat, bean) schema" where
  "ref_schema = \<lparr>pk = fst,
     matches = (\<lambda>c r. (fst c = 0 \<or> fst c = fst r) \<and> (snd c = 0 \<or> snd c = snd r)),
     merge = (\<lambda>b r. (if fst b = 0 then fst r else fst b, if snd b = 0 then snd r else snd b)),
     arrange = (\<lambda>so t. map (the \<circ> t) (sorted_list_of_set (dom t))),
     definite = (\<lambda>so. True)\<rparr>"

definition rows_at :: "ref_db \<Rightarrow> handle \<Rightarrow> (nat, nat) fmap" where
  "rows_at w h = (case h of
     OnSession s \<Rightarrow> (case rd_open w s of Some m \<Rightarrow> m | None \<Rightarrow> rd_rows w)
   | OnEngine _ \<Rightarrow> rd_rows w)"

definition put_rows :: "handle \<Rightarrow> (nat, nat) fmap \<Rightarrow> ref_db \<Rightarrow> ref_db" where
  "put_rows h m w = (case h of
     OnSession s \<Rightarrow> (case rd_open w s of Some _ \<Rightarrow> w\<lparr>rd_open := (rd_open w)(s \<mapsto> m)\<rparr> | None \<Rightarrow> w\<lparr>rd_rows := m\<rparr>)
   | OnEngine _ \<Rightarrow> w\<lparr>rd_rows := m\<rparr>)"

definition taken :: dberr where "taken = ErrDriver ''duplicate key''"

fun ref_insert_all :: "bean list \<Rightarrow> int64 \<Rightarrow> (nat, nat) fmap \<Rightarrow> (int64 \<times> dberr option) \<times> (nat, nat) fmap" where
  "ref_insert_all [] n m = ((n, None), m)"
| "ref_insert_all (b # bs) n m =
     (if fmlookup m (fst b) = None then ref_insert_all bs (n + 1) (fmupd (fst b) (snd b) m)
      else ((n, Some taken), m))"

definition ref_update :: "(bean \<Rightarrow> bool) \<Rightarrow> bean \<Rightarrow> (nat, nat) fmap \<Rightarrow> (nat, nat) fmap" where
  "ref_update P b m = fmmap_keys (\<lambda>k v. if P (k, v) then snd (merge ref_schema b (k, v)) else v) m"

definition ref_delete :: "(bean \<Rightarrow> bool) \<Rightarrow> (nat, nat) fmap \<Rightarrow> (nat, nat) fmap" where
  "ref_delete P m = fmfilter (\<lambda>k. case fmlookup m k of Some v \<Rightarrow> \<not> P (k, v) | None \<Rightarrow> True) m"

definition keyed_cond :: "nat option \<Rightarrow> bean \<Rightarrow> bean \<Rightarrow> bool" where
  "keyed_cond k c r = ((case k of Some i \<Rightarrow> fst r = i | None \<Rightarrow> True) \<and> matches ref_schema c r)"

definition ref_find :: "bean list \<Rightarrow> (nat, nat) fmap \<Rightarrow> bean list" where
  "ref_find cs m = filter (selects ref_schema cs) (rows_of m)"

definition ref_orm :: "(ref_db, bean, nat) orm" where
  "ref_orm = \<lparr>o_insertOne = (\<lambda>h b w. case ref_insert_all [b] 0 (rows_at w h) of (r, m) \<Rightarrow> (r, put_rows h m w)),
     o_insert = (\<lambda>h bs w. case ref_insert_all bs 0 (rows_at w h) of (r, m) \<Rightarrow> (r, put_rows h m w)),
     o_update = (\<lambda>h k b cs w.
       let P = (\<lambda>r. (case k of Some i \<Rightarrow> fst r = i | None \<Rightarrow> True) \<and> selects ref_schema cs r)
       in ((of_nat (length (filter P (rows_of (rows_at w h)))), None), put_rows h (ref_update P b (rows_at w h)) w)),
     o_delete = (\<lambda>h k b w. ((if find (keyed_cond k b) (rows_of (rows_at w h)) = None then 0 else 1, None),
        put_rows h (ref_delete (keyed_cond k b) (rows_at w h)) w)),
     o_get = (\<lambda>h k b w. case find (keyed_cond k b) (rows_of (rows_at w h)) of
        Some r \<Rightarrow> ((True, None), r, w) | None \<Rightarrow> ((False, None), b, w)),
     o_exist = (\<lambda>h b w. ((list_ex (matches ref_schema b) (rows_of (rows_at w h)), None), w)),
     o_count = (\<lambda>h b w. ((of_nat (length (filter (matches ref_schema b) (rows_of (rows_at w h)))), None), w)),
     o_find = (\<lambda>h q cs w. ((ref_find cs (rows_at w h), None), w)),
     o_findAndCount = (\<lambda>h q cs w. let all = ref_find cs (rows_at w h)
        in ((case q_limit q of Some (li, sk) \<Rightarrow> take (nat li) (drop (nat sk) all) | None \<Rightarrow> all,
             of_nat (length all), None), w)),
     o_dbmetas = (\<lambda>n w. (Inr [], w)), o_rawquery = (\<lambda>n q vs w. (Inr [], w)),
     o_newSession = (\<lambda>h w. (rd_next w, w\<lparr>rd_next := Suc (rd_next w), rd_open := (rd_open w)(rd_next w := None)\<rparr>)),
     o_begin = (\<lambda>s w. (None, w\<lparr>rd_open := (rd_open w)(s \<mapsto> rows_at w (OnSession s))\<rparr>)),
     o_commit = (\<lambda>s w. (None, w\<lparr>rd_rows := rows_at w (OnSession s), rd_open := (rd_open w)(s := None)\<rparr>)),
     o_rollback = (\<lambda>s w. (None, w\<lparr>rd_open := (rd_open w)(s := None)\<rparr>)),
     o_close = (\<lambda>s w. w\<lparr>rd_open := (rd_open w)(s := None)\<rparr>)\<rparr>"

text \<open>The methods the witnesses run.\<close>

lemma ref_ops:
  "o_get ref_orm h k b w = (case find (keyed_cond k b) (rows_of (rows_at w h)) of
     Some r \<Rightarrow> ((True, None), r, w) | None \<Rightarrow> ((False, None), b, w))"
  "o_delete ref_orm h k b w = ((if find (keyed_cond k b) (rows_of (rows_at w h)) = None then 0 else 1, None),
     put_rows h (ref_delete (keyed_cond k b) (rows_at w h)) w)"
  "o_findAndCount ref_orm h q cs w = (let all = ref_find cs (rows_at w h)
     in ((case q_limit q of Some (li, sk) \<Rightarrow> take (nat li) (drop (nat sk) all) | None \<Rightarrow> all,
          of_nat (length all), None), w))"
  by (simp_all add: ref_orm_def)

lemma pk_ref [simp]: "pk ref_schema = fst"
  by (simp add: ref_schema_def)

lemma ref_current: "current (view_of ref_committed ref_working w h) = table_of (rows_at w h)"
  by (simp add: current_def view_of_def rows_at_def ref_committed_def ref_working_def split: handle.split option.split)

lemma ref_put: "view_of ref_committed ref_working (put_rows h m w) h = put_table (table_of m) (view_of ref_committed ref_working w h)"
  by (simp add: put_table_def view_of_def put_rows_def ref_committed_def ref_working_def split: handle.split option.split)

lemma dom_table_of: "dom (table_of m) = fset (fmdom m)"
  by (auto simp: table_of_def fmlookup_dom_iff)

lemma table_of_wf: "wf_table ref_schema (table_of m)"
  unfolding wf_table_def dom_table_of by (auto simp: table_of_def ref_schema_def)

lemma set_rows_of: "set (rows_of m) = ran (table_of m)"
  by (auto simp: rows_of_def ran_def table_of_def image_iff fmlookup_dom_iff)

lemma distinct_rows_of: "distinct (rows_of m)"
  by (auto simp: rows_of_def distinct_map sorted_list_of_fset.rep_eq intro: inj_onI)

lemma arrange_table_of: "arrange ref_schema so (table_of m) = rows_of m"
proof -
  have "map (the \<circ> table_of m) (sorted_list_of_set (fset (fmdom m))) = rows_of m"
    by (auto simp: rows_of_def sorted_list_of_fset.rep_eq table_of_def fmlookup_dom_iff)
  then show ?thesis by (simp add: ref_schema_def dom_table_of)
qed

lemma arrange_wf:
  assumes "wf_table ref_schema t"
  shows "distinct (arrange ref_schema so t) \<and> set (arrange ref_schema so t) = ran t"
proof -
  have key: "t k = Some r \<Longrightarrow> fst r = k" for k r using assms by (cases r) (auto simp: wf_table_def ref_schema_def)
  have fin: "finite (dom t)" using assms by (simp add: wf_table_def)
  have "inj_on (the \<circ> t) (dom t)" using key by (intro inj_onI) (metis comp_apply domD option.sel)
  moreover have "(the \<circ> t) ` dom t = ran t" by (force simp: ran_def dom_def image_iff)
  ultimately show ?thesis using fin by (simp add: ref_schema_def distinct_map)
qed

lemma any_match_rows: "any_match ref_schema b (table_of m) = list_ex (matches ref_schema b) (rows_of m)"
  by (auto simp: any_match_def list_ex_iff set_rows_of)

lemma find_None_any: "(find P (rows_of m) = None) = (\<not> (\<exists>r \<in> ran (table_of m). P r))"
  by (auto simp: find_None_iff set_rows_of)

lemma find_SomeD: "find P xs = Some r \<Longrightarrow> r \<in> set xs \<and> P r"
  by (auto simp: find_Some_iff)

lemma table_of_upd: "table_of (fmupd k v m) = (table_of m)(k \<mapsto> (k, v))"
  by (auto simp: table_of_def)

lemma insert_all_rows:
  "ref_insert_all bs n m = ((n', e), m') \<Longrightarrow>
   \<exists>j. (if e = None then j = length bs \<and> n' = n + of_nat j else j < length bs) \<and>
       insert_rows ref_schema (take j bs) (table_of m) = Some (table_of m')"
proof (induction bs n m rule: ref_insert_all.induct)
  case (2 b bs n m)
  show ?case
  proof (cases "fmlookup m (fst b)")
    case None
    then have "insert_row ref_schema b (table_of m) = Some (table_of (fmupd (fst b) (snd b) m))"
      by (simp add: insert_row_def table_of_upd) (simp add: ref_schema_def table_of_def)
    moreover from 2 None obtain j where
      "if e = None then j = length bs \<and> n' = n + 1 + of_nat j else j < length bs"
      "insert_rows ref_schema (take j bs) (table_of (fmupd (fst b) (snd b) m)) = Some (table_of m')" by auto
    ultimately show ?thesis by (intro exI [of _ "Suc j"]) (auto split: if_splits)
  next
    case (Some x)
    with "2.prems" show ?thesis by (intro exI [of _ 0]) auto
  qed
qed auto

lemma ref_update_table:
  assumes "\<forall>r \<in> ran (table_of m). P r \<longrightarrow> fst (merge ref_schema b r) = fst r"
  shows "table_of (ref_update P b m) = (\<lambda>k. map_option (\<lambda>r. if P r then merge ref_schema b r else r) (table_of m k))"
proof
  fix k
  show "table_of (ref_update P b m) k = map_option (\<lambda>r. if P r then merge ref_schema b r else r) (table_of m k)"
  proof (cases "fmlookup m k")
    case (Some v)
    then have "(k, v) \<in> ran (table_of m)" by (auto simp: ran_def table_of_def)
    with assms Some show ?thesis by (auto simp: ref_update_def table_of_def prod_eq_iff)
  qed (simp add: ref_update_def table_of_def)
qed

lemma ref_delete_table:
  "table_of (ref_delete P m) = (\<lambda>k. case table_of m k of Some r \<Rightarrow> if P r then None else Some r | None \<Rightarrow> None)"
  by (auto simp: ref_delete_def table_of_def fun_eq_iff split: option.splits)

lemma card_matches: "card {r \<in> ran (table_of m). matches ref_schema b r} = length (filter (matches ref_schema b) (rows_of m))"
proof -
  have "{r \<in> ran (table_of m). matches ref_schema b r} = set (filter (matches ref_schema b) (rows_of m))"
    by (auto simp: set_rows_of)
  also have "card \<dots> = length (filter (matches ref_schema b) (rows_of m))"
    by (rule distinct_card) (simp add: distinct_rows_of)
  finally show ?thesis .
qed

lemma length_filter_pos: "of_nat (length (filter P xs)) \<noteq> (0 :: int64) \<Longrightarrow> \<exists>r \<in> set xs. P r"
  by (cases "filter P xs") (auto simp: filter_eq_Cons_iff)

text \<open>The laws, one statement at a time.\<close>

lemma ref_insertOne_law:
  assumes "o_insertOne ref_orm h b w = ((n, e), w')"
  shows "case e of Some _ \<Rightarrow> view_of ref_committed ref_working w' h = view_of ref_committed ref_working w h
     | None \<Rightarrow> n = 1 \<and> (\<exists>t. insert_row ref_schema b (current (view_of ref_committed ref_working w h)) = Some t \<and>
                    view_of ref_committed ref_working w' h = put_table t (view_of ref_committed ref_working w h))"
proof (cases "fmlookup (rows_at w h) (fst b)")
  case None
  then have "insert_row ref_schema b (table_of (rows_at w h)) = Some (table_of (fmupd (fst b) (snd b) (rows_at w h)))"
    by (simp add: insert_row_def table_of_upd) (simp add: ref_schema_def table_of_def)
  with None assms show ?thesis by (auto simp: ref_orm_def ref_current ref_put)
next
  case (Some v)
  have "view_of ref_committed ref_working (put_rows h (rows_at w h) w) h = view_of ref_committed ref_working w h"
    by (simp add: ref_put flip: ref_current)
  with Some assms show ?thesis by (auto simp: ref_orm_def)
qed

lemma ref_insert_law:
  assumes "o_insert ref_orm h bs w = ((n, e), w')"
  shows "\<exists>j t. (e = None \<longrightarrow> j = length bs \<and> n = of_nat j) \<and>
      insert_rows ref_schema (take j bs) (current (view_of ref_committed ref_working w h)) = Some t \<and>
      view_of ref_committed ref_working w' h = put_table t (view_of ref_committed ref_working w h)"
proof -
  obtain m where i: "ref_insert_all bs 0 (rows_at w h) = ((n, e), m)" and w': "w' = put_rows h m w"
    using assms by (auto simp: ref_orm_def split: prod.splits)
  show ?thesis using insert_all_rows [OF i] unfolding w' ref_current ref_put by (auto split: if_splits)
qed

lemma ref_update_law:
  assumes "o_update ref_orm h None b [c] w = ((n, e), w')"
    and "\<forall>r. matches ref_schema c r \<longrightarrow> pk ref_schema (merge ref_schema b r) = pk ref_schema r"
  shows "case e of Some _ \<Rightarrow> view_of ref_committed ref_working w' h = view_of ref_committed ref_working w h
     | None \<Rightarrow> (n \<noteq> 0 \<longrightarrow> any_match ref_schema c (current (view_of ref_committed ref_working w h))) \<and>
         view_of ref_committed ref_working w' h =
           put_table (update_where ref_schema c b (current (view_of ref_committed ref_working w h))) (view_of ref_committed ref_working w h)"
proof -
  have "\<forall>r \<in> ran (table_of (rows_at w h)). matches ref_schema c r \<longrightarrow> fst (merge ref_schema b r) = fst r"
    using assms(2) by (simp del: split_paired_All)
  note tab = ref_update_table [OF this]
  have e: "e = None" "n = of_nat (length (filter (matches ref_schema c) (rows_of (rows_at w h))))"
    "w' = put_rows h (ref_update (matches ref_schema c) b (rows_at w h)) w"
    using assms(1) by (auto simp: ref_orm_def selects_def Let_def)
  show ?thesis using e(2) length_filter_pos [of "matches ref_schema c" "rows_of (rows_at w h)"]
    by (auto simp: e(1) e(3) ref_put tab ref_current update_where_def any_match_def set_rows_of)
qed

lemma ref_updateById_law:
  assumes "o_update ref_orm h (Some k) b [] w = ((n, e), w')"
    and "\<forall>r. current (view_of ref_committed ref_working w h) k = Some r \<longrightarrow> pk ref_schema (merge ref_schema b r) = k"
  shows "case e of Some _ \<Rightarrow> view_of ref_committed ref_working w' h = view_of ref_committed ref_working w h
     | None \<Rightarrow> (n \<noteq> 0 \<longrightarrow> k \<in> dom (current (view_of ref_committed ref_working w h))) \<and>
         view_of ref_committed ref_working w' h =
           put_table (update_key ref_schema k b (current (view_of ref_committed ref_working w h))) (view_of ref_committed ref_working w h)"
proof -
  have in_ran: "r \<in> ran (table_of m) \<longleftrightarrow> table_of m (fst r) = Some r" for r m
    by (cases r) (auto simp: ran_def table_of_def)
  have "\<forall>r \<in> ran (table_of (rows_at w h)). fst r = k \<longrightarrow> fst (merge ref_schema b r) = fst r"
    using assms(2) by (auto simp: in_ran ref_current)
  note tab = ref_update_table [OF this]
  have e: "e = None" "n = of_nat (length (filter (\<lambda>r. fst r = k) (rows_of (rows_at w h))))"
    "w' = put_rows h (ref_update (\<lambda>r. fst r = k) b (rows_at w h)) w"
    using assms(1) by (auto simp: ref_orm_def selects_def Let_def)
  have "(\<lambda>i. map_option (\<lambda>r. if fst r = k then merge ref_schema b r else r) (table_of m i)) = update_key ref_schema k b (table_of m)" for m
    by (auto simp: update_key_def table_of_def fun_eq_iff option.map_comp o_def intro: option.map_cong)
  with e(2) length_filter_pos [of "\<lambda>r. fst r = k" "rows_of (rows_at w h)"] show ?thesis
    by (auto simp: e(1) e(3) ref_put tab ref_current set_rows_of in_ran)
qed

lemma keyed_row_at: "(\<exists>r \<in> ran (table_of m). keyed_cond (Some k) b r) \<longleftrightarrow> row_at ref_schema k b (table_of m) \<noteq> None"
  by (auto simp: ran_def table_of_def keyed_cond_def row_at_def split: option.splits)

lemma ref_delete_laws:
  "o_delete ref_orm h None b w = ((n, e), w') \<Longrightarrow>
     (case e of Some _ \<Rightarrow> view_of ref_committed ref_working w' h = view_of ref_committed ref_working w h
      | None \<Rightarrow> (n \<noteq> 0 \<longleftrightarrow> any_match ref_schema b (current (view_of ref_committed ref_working w h))) \<and>
          view_of ref_committed ref_working w' h =
            put_table (delete_where ref_schema b (current (view_of ref_committed ref_working w h))) (view_of ref_committed ref_working w h))"
  "o_delete ref_orm h (Some k) b w = ((n, e), w') \<Longrightarrow>
     (case e of Some _ \<Rightarrow> view_of ref_committed ref_working w' h = view_of ref_committed ref_working w h
      | None \<Rightarrow> (n \<noteq> 0 \<longleftrightarrow> row_at ref_schema k b (current (view_of ref_committed ref_working w h)) \<noteq> None) \<and>
          view_of ref_committed ref_working w' h =
            put_table (delete_key ref_schema k b (current (view_of ref_committed ref_working w h))) (view_of ref_committed ref_working w h))"
proof -
  let ?m = "rows_at w h"
  have a: "table_of (ref_delete (keyed_cond None b) ?m) = delete_where ref_schema b (table_of ?m)"
    by (rule ext) (simp add: ref_delete_table delete_where_def keyed_cond_def split: option.split)
  have b: "table_of (ref_delete (keyed_cond (Some k) b) ?m) = delete_key ref_schema k b (table_of ?m)"
    unfolding ref_delete_table by (auto simp: delete_key_def keyed_cond_def table_of_def fun_eq_iff split: option.splits)
  have d: "o_delete ref_orm h i b w = ((n, e), w') \<Longrightarrow>
      e = None \<and> (n \<noteq> 0 \<longleftrightarrow> (\<exists>r \<in> ran (table_of ?m). keyed_cond i b r)) \<and> w' = put_rows h (ref_delete (keyed_cond i b) ?m) w" for i
    using find_None_any [of "keyed_cond i b" ?m] by (auto simp: ref_orm_def split: if_splits)
  show "case e of Some _ \<Rightarrow> view_of ref_committed ref_working w' h = view_of ref_committed ref_working w h
      | None \<Rightarrow> (n \<noteq> 0 \<longleftrightarrow> any_match ref_schema b (current (view_of ref_committed ref_working w h))) \<and>
          view_of ref_committed ref_working w' h =
            put_table (delete_where ref_schema b (current (view_of ref_committed ref_working w h))) (view_of ref_committed ref_working w h)"
    if "o_delete ref_orm h None b w = ((n, e), w')"
    using d [OF that] by (simp add: ref_put ref_current a any_match_def keyed_cond_def)
  show "case e of Some _ \<Rightarrow> view_of ref_committed ref_working w' h = view_of ref_committed ref_working w h
      | None \<Rightarrow> (n \<noteq> 0 \<longleftrightarrow> row_at ref_schema k b (current (view_of ref_committed ref_working w h)) \<noteq> None) \<and>
          view_of ref_committed ref_working w' h =
            put_table (delete_key ref_schema k b (current (view_of ref_committed ref_working w h))) (view_of ref_committed ref_working w h)"
    if "o_delete ref_orm h (Some k) b w = ((n, e), w')"
    using d [OF that] by (simp add: ref_put ref_current b keyed_row_at)
qed

lemma ref_get_law:
  assumes "o_get ref_orm h None b w = ((has, e), b', w')"
  shows "w' = w \<and> (if has then b' \<in> ran (table_of (rows_at w h)) \<and> matches ref_schema b b'
                       else b' = b \<and> \<not> any_match ref_schema b (table_of (rows_at w h)))"
proof (cases "find (keyed_cond None b) (rows_of (rows_at w h))")
  case None
  with find_None_any [of "keyed_cond None b" "rows_at w h"] assms show ?thesis
    by (auto simp: ref_orm_def any_match_def keyed_cond_def)
next
  case (Some r)
  with find_SomeD [OF Some] assms show ?thesis by (auto simp: ref_orm_def keyed_cond_def set_rows_of)
qed

lemma ref_getById_law:
  assumes "o_get ref_orm h (Some k) b w = ((has, e), b', w')"
  shows "w' = w \<and> row_at ref_schema k b (table_of (rows_at w h)) = (if has then Some b' else None) \<and> (\<not> has \<longrightarrow> b' = b)"
proof (cases "find (keyed_cond (Some k) b) (rows_of (rows_at w h))")
  case None
  with find_None_any [of "keyed_cond (Some k) b" "rows_at w h"] assms show ?thesis
    by (auto simp: ref_orm_def keyed_row_at simp del: split_paired_Ex split_paired_All not_None_eq)
next
  case (Some r)
  with find_SomeD [OF Some] assms show ?thesis
    by (auto simp: ref_orm_def keyed_cond_def set_rows_of row_at_def ran_def table_of_def)
qed

interpretation ref_tx: tx_mapper ref_orm ref_committed ref_working
proof (unfold_locales, goal_cases)
  case 1 show ?case by (simp add: ref_orm_def ref_committed_def)
next
  case 2 show ?case by (simp add: ref_orm_def ref_committed_def)
next
  case 3 then show ?case by (auto simp: ref_orm_def ref_working_def)
next
  case 4 show ?case
    by (simp add: ref_orm_def ref_committed_def ref_working_def rows_at_def split: option.split)
next
  case 5 show ?case by (simp add: ref_orm_def ref_committed_def)
next
  case 6 show ?case by (simp add: ref_orm_def ref_committed_def)
qed

interpretation ref_tab: table_mapper ref_orm ref_committed ref_working ref_schema
proof (unfold_locales, goal_cases)
  case 1 show ?case by (simp add: ref_current table_of_wf)
next
  case 2 show ?case by (simp add: ref_schema_def)
next
  case 3 then show ?case by (rule arrange_wf)
next
  case 4 then show ?case by (auto simp: ref_orm_def view_of_def ref_committed_def ref_working_def)
next
  case (5 s w e w')
  then have "e = None" "w' = w\<lparr>rd_open := (rd_open w)(s \<mapsto> rows_at w (OnSession s))\<rparr>" by (auto simp: ref_orm_def)
  then show ?case unfolding ref_current by (simp add: view_of_def ref_committed_def ref_working_def)
next
  case 6 then show ?case by (auto simp: ref_orm_def ref_working_def)
next
  case 7 then show ?case by (auto simp: ref_orm_def ref_working_def)
next
  case 8 show ?case by (simp add: ref_orm_def ref_working_def)
next
  case 9 then show ?case by (rule ref_insertOne_law)
next
  case 10 then show ?case by (rule ref_insert_law)
next
  case 11 then show ?case by (rule ref_update_law)
next
  case 12 then show ?case by (rule ref_updateById_law)
next
  case 13 then show ?case by (rule ref_delete_laws)
next
  case 14 then show ?case by (rule ref_delete_laws)
next
  case 15 from ref_get_law [OF this] show ?case by (simp add: ref_current)
next
  case 16 from ref_getById_law [OF this] show ?case by (simp add: ref_current)
next
  case 17 then show ?case by (auto simp: ref_orm_def ref_current any_match_rows)
next
  case 18 then show ?case by (auto simp: ref_orm_def ref_current card_matches)
next
  case 19 then show ?case by (auto simp: ref_orm_def ref_current ref_find_def arrange_table_of)
next
  case 20 then show ?case by (auto simp: ref_orm_def ref_current ref_find_def arrange_table_of Let_def)
qed

end
