(* ===== verification/Db_Store.thy ===== *)
theory Db_Store
  imports Db_Table
begin

text \<open>
  The contract of the data-access layer, over a mapper with the documented behaviour (theory
  \<^verbatim>\<open>Db_Table\<close>).

  \<^item> \<open>db_step\<close>, \<open>db_run\<close>: the abstract operations on a user's view of the database;
    \<open>dao_exec\<close>, \<open>entity_exec\<close>: the methods of \<^verbatim>\<open>OrmBaseDao\<close> and \<^verbatim>\<open>entity\<close> (theory \<^verbatim>\<open>Databases\<close>).
  \<^item> The methods refine the abstract operations in every run; pages cover the table; a chained
    transaction of the helpers of \<^verbatim>\<open>common.go\<close> (theory \<^verbatim>\<open>Db_Session\<close>) does all of its work or none.
\<close>

section \<open>The abstract operations\<close>

datatype ('v, 'b) dbop =
    OpInsertOne 'b
  | OpInsertMany "'b list"
  | OpUpdate 'b 'b
  | OpUpdateById 'v 'b
  | OpUpsert 'b 'b
  | OpUpsertMany "'b list" "'b list"
  | OpDelete 'b
  | OpDeleteById 'v 'b
  | OpFindById 'v 'b
  | OpFindOne 'b
  | OpCount 'b
  | OpExists 'b
  | OpFindMany string "'b list"
  | OpFindAndCount pageable "'b list"
  | OpBegin
  | OpCommit
  | OpRollback
  | OpClose

datatype 'b dbres =
    RNum int64 "dberr option"
  | RBool bool "dberr option"
  | RBean bool "dberr option" 'b
  | RRows "'b list" "dberr option"
  | RPage "'b list" int64 "dberr option"
  | RDone "dberr option"
  | RPanic

text \<open>
  The calls the contract covers: an update leaves the primary keys alone, a find has at most one
  condition and a sort expression that determines the order, a page has a positive size.
\<close>

definition keeps_key :: "('v, 'b) schema \<Rightarrow> 'b \<times> 'b \<Rightarrow> bool" where
  "keeps_key S p \<longleftrightarrow> (\<forall>r. matches S (fst p) r \<longrightarrow> pk S (merge S (snd p) r) = pk S r)"

fun op_ok :: "('v, 'b) schema \<Rightarrow> ('v, 'b) dbop \<Rightarrow> bool" where
  "op_ok S (OpUpdate b c) = keeps_key S (c, b)"
| "op_ok S (OpUpdateById k b) = (\<forall>r. pk S r = k \<longrightarrow> pk S (merge S b r) = k)"
| "op_ok S (OpUpsert c b) = keeps_key S (c, b)"
| "op_ok S (OpUpsertMany ws bs) = (\<forall>p \<in> set (zip ws bs). keeps_key S p)"
| "op_ok S (OpFindMany so cs) = (definite S so \<and> length cs \<le> 1)"
| "op_ok S (OpFindAndCount pg cs) = (definite S (Sort pg) \<and> length cs \<le> 1 \<and> 0 < Limit pg \<and> 0 \<le> Skip pg)"
| "op_ok S _ = True"

text \<open>A write fails and changes nothing, or puts a table in place of the current one.\<close>

definition writes :: "('v, 'b) view \<Rightarrow> dberr option \<Rightarrow> ('v, 'b) table option \<Rightarrow> ('v, 'b) view \<Rightarrow> bool" where
  "writes v e new v' \<longleftrightarrow> (case e of Some _ \<Rightarrow> v' = v | None \<Rightarrow> (\<exists>t. new = Some t \<and> v' = put_table t v))"

definition selected :: "('v, 'b) schema \<Rightarrow> string \<Rightarrow> 'b list \<Rightarrow> ('v, 'b) view \<Rightarrow> 'b list" where
  "selected S so cs v = filter (selects S cs) (arrange S so (current v))"

fun db_step :: "('v, 'b) schema \<Rightarrow> ('v, 'b) dbop \<Rightarrow> ('v, 'b) view \<Rightarrow> 'b dbres \<Rightarrow> ('v, 'b) view \<Rightarrow> bool" where
  "db_step S (OpInsertOne b) v a v' =
     (case a of RNum n e \<Rightarrow>
       (writes v e (insert_row S b (current v)) v' \<and> (e = None \<longrightarrow> n = 1)) | _ \<Rightarrow> False)"
| "db_step S (OpInsertMany bs) v a v' =
     (case a of RNum n e \<Rightarrow>
       (\<exists>j. (e = None \<longrightarrow> j = length bs \<and> n = of_nat j) \<and> writes v None (insert_rows S (take j bs) (current v)) v') | _ \<Rightarrow> False)"
| "db_step S (OpUpdate b c) v a v' =
     (case a of RNum n e \<Rightarrow>
       (writes v e (Some (update_where S c b (current v))) v' \<and> (e = None \<and> n \<noteq> 0 \<longrightarrow> any_match S c (current v))) | _ \<Rightarrow> False)"
| "db_step S (OpUpdateById k b) v a v' =
     (case a of RNum n e \<Rightarrow>
       (writes v e (Some (update_key S k b (current v))) v' \<and> (e = None \<and> n \<noteq> 0 \<longrightarrow> k \<in> dom (current v))) | _ \<Rightarrow> False)"
| "db_step S (OpUpsert c b) v a v' =
     (case a of RNum n e \<Rightarrow>
       writes v e (upsert_row S (c, b) (current v)) v' | _ \<Rightarrow> False)"
| "db_step S (OpUpsertMany ws bs) v a v' =
     (case a of RNum n e \<Rightarrow>
       (if length ws \<noteq> length bs then n = 0 \<and> e = Some ErrLengthMismatch \<and> v' = v
      else \<exists>j. (if e = None then j = length bs else j < length bs) \<and>
             writes v None (upsert_rows S (take j (zip ws bs)) (current v)) v') | _ \<Rightarrow> False)"
| "db_step S (OpDelete b) v a v' =
     (case a of RNum n e \<Rightarrow>
       (writes v e (Some (delete_where S b (current v))) v' \<and> (e = None \<longrightarrow> (n \<noteq> 0) = any_match S b (current v))) | _ \<Rightarrow> False)"
| "db_step S (OpDeleteById k b) v a v' =
     (case a of RNum n e \<Rightarrow>
       (writes v e (Some (delete_key S k b (current v))) v' \<and> (e = None \<longrightarrow> (n \<noteq> 0) = (row_at S k b (current v) \<noteq> None))) | _ \<Rightarrow> False)"
| "db_step S (OpFindById k b) v a v' =
     (case a of RBean has e b' \<Rightarrow>
       (v' = v \<and> (e = None \<longrightarrow> row_at S k b (current v) = (if has then Some b' else None) \<and> (\<not> has \<longrightarrow> b' = b))) | _ \<Rightarrow> False)"
| "db_step S (OpFindOne b) v a v' =
     (case a of RBean has e b' \<Rightarrow>
       (v' = v \<and> (e = None \<longrightarrow> (if has then b' \<in> ran (current v) \<and> matches S b b' else b' = b \<and> \<not> any_match S b (current v)))) | _ \<Rightarrow> False)"
| "db_step S (OpCount b) v a v' =
     (case a of RNum n e \<Rightarrow>
       (v' = v \<and> (e = None \<longrightarrow> n = of_nat (card {r \<in> ran (current v). matches S b r}))) | _ \<Rightarrow> False)"
| "db_step S (OpExists b) v a v' =
     (case a of RBool has e \<Rightarrow>
       (v' = v \<and> (e = None \<longrightarrow> has = any_match S b (current v))) | _ \<Rightarrow> False)"
| "db_step S (OpFindMany so cs) v a v' =
     (case a of RRows rs e \<Rightarrow>
       (v' = v \<and> (e = None \<longrightarrow> rs = selected S so cs v)) | _ \<Rightarrow> False)"
| "db_step S (OpFindAndCount pg cs) v a v' =
     (case a of RPage rs n e \<Rightarrow>
       (v' = v \<and> (e = None \<longrightarrow> rs = take (nat (Limit pg)) (drop (nat (Skip pg)) (selected S (Sort pg) cs v)) \<and>
                              n = of_nat (length (selected S (Sort pg) cs v)))) | _ \<Rightarrow> False)"
| "db_step S OpBegin v a v' =
     (case a of RDone e \<Rightarrow>
       (v' = (if e = None then (fst v, Some (current v)) else v)) | _ \<Rightarrow> False)"
| "db_step S OpCommit v a v' =
     (case a of RDone e \<Rightarrow>
       (if e = None then v' = (current v, None) else fst v' = fst v) | _ \<Rightarrow> False)"
| "db_step S OpRollback v a v' =
     (case a of RDone e \<Rightarrow>
       (fst v' = fst v \<and> (e = None \<longrightarrow> snd v' = None)) | _ \<Rightarrow> False)"
| "db_step S OpClose v a v' =
     (case a of RDone e \<Rightarrow>
       (e = None \<and> v' = (fst v, None)) | _ \<Rightarrow> False)"

fun db_run :: "('v, 'b) schema \<Rightarrow> ('v, 'b) view \<Rightarrow> (('v, 'b) dbop \<times> 'b dbres) list \<Rightarrow> ('v, 'b) view \<Rightarrow> bool" where
  "db_run S v [] v' = (v' = v)"
| "db_run S v ((q, r) # tr) v' = (\<exists>u. db_step S q v r u \<and> db_run S u tr v')"

section \<open>The methods\<close>

definition done_res :: "(unit, dberr option) outcome \<times> 'w \<Rightarrow> 'b dbres \<times> 'w" where
  "done_res p = ((case fst p of Returns e \<Rightarrow> RDone e | Panics _ \<Rightarrow> RPanic), snd p)"

fun dao_exec :: "('w, 'b, 'v) orm \<Rightarrow> OrmBaseDao \<Rightarrow> ('v, 'b) dbop \<Rightarrow> 'w \<Rightarrow> 'b dbres \<times> 'w" where
  "dao_exec X m (OpInsertOne b) w = apfst (\<lambda>(n, e). RNum n e) (InsertOne X m b w)"
| "dao_exec X m (OpInsertMany bs) w = apfst (\<lambda>(n, e). RNum n e) (InsertMany X m bs w)"
| "dao_exec X m (OpUpdate b c) w = apfst (\<lambda>(n, e). RNum n e) (Update X m b [c] w)"
| "dao_exec X m (OpUpdateById k b) w = apfst (\<lambda>(n, e). RNum n e) (UpdateById X m k b w)"
| "dao_exec X m (OpUpsert c b) w = apfst (\<lambda>(n, e). RNum n e) (Upsert X m c b w)"
| "dao_exec X m (OpUpsertMany ws bs) w = apfst (\<lambda>(n, e). RNum n e) (UpsertMany X m ws bs w)"
| "dao_exec X m (OpDelete b) w = apfst (\<lambda>(n, e). RNum n e) (Delete X m b w)"
| "dao_exec X m (OpDeleteById k b) w = apfst (\<lambda>(n, e). RNum n e) (DeleteById X m k b w)"
| "dao_exec X m (OpFindById k b) w = (case FindById X m k b w of ((has, e), b', w') \<Rightarrow> (RBean has e b', w'))"
| "dao_exec X m (OpFindOne b) w = (case FindOne X m b w of ((has, e), b', w') \<Rightarrow> (RBean has e b', w'))"
| "dao_exec X m (OpCount b) w = apfst (\<lambda>(n, e). RNum n e) (Count X m b w)"
| "dao_exec X m (OpExists b) w = apfst (\<lambda>(has, e). RBool has e) (Exists X m b w)"
| "dao_exec X m (OpFindMany so cs) w = apfst (\<lambda>(rs, e). RRows rs e) (FindMany X m so cs w)"
| "dao_exec X m (OpFindAndCount pg cs) w = apfst (\<lambda>(rs, n, e). RPage rs n e) (FindAndCount X m pg cs w)"
| "dao_exec X m OpBegin w = done_res (Begin X m w)"
| "dao_exec X m OpCommit w = done_res (Commit X m w)"
| "dao_exec X m OpRollback w = done_res (Rollback X m w)"
| "dao_exec X m OpClose w = done_res (apfst (\<lambda>q. case q of Returns _ \<Rightarrow> Returns None | Panics x \<Rightarrow> Panics x) (Close X m w))"

text \<open>A run of calls on one data-access object, as the list of calls and answers.\<close>

fun dao_run :: "('w, 'b, 'v) orm \<Rightarrow> OrmBaseDao \<Rightarrow> 'w \<Rightarrow> ('v, 'b) dbop list \<Rightarrow> (('v, 'b) dbop \<times> 'b dbres) list \<times> 'w" where
  "dao_run X m w [] = ([], w)"
| "dao_run X m w (q # qs) =
     (case dao_exec X m q w of (r, w1) \<Rightarrow> (case dao_run X m w1 qs of (tr, w2) \<Rightarrow> ((q, r) # tr, w2)))"

section \<open>Refinement\<close>

context table_mapper
begin

lemma InsertOne_step: "InsertOne X m b w = ((n, e), w') \<Longrightarrow>
    writes (seen w (dao_handle m)) e (insert_row S b (current (seen w (dao_handle m)))) (seen w' (dao_handle m)) \<and>
    (e = None \<longrightarrow> n = 1)"
  using insertOne_view by (fastforce simp: method_on_handle writes_def split: option.splits)

lemma Update_step: "Update X m b [c] w = ((n, e), w') \<Longrightarrow> keeps_key S (c, b) \<Longrightarrow>
    writes (seen w (dao_handle m)) e (Some (update_where S c b (current (seen w (dao_handle m))))) (seen w' (dao_handle m)) \<and>
    (e = None \<and> n \<noteq> 0 \<longrightarrow> any_match S c (current (seen w (dao_handle m))))"
  using update_view by (fastforce simp: method_on_handle keeps_key_def writes_def split: option.splits)

lemma UpdateById_step: "UpdateById X m k b w = ((n, e), w') \<Longrightarrow>
    \<forall>r. current (seen w (dao_handle m)) k = Some r \<longrightarrow> pk S (merge S b r) = k \<Longrightarrow>
    writes (seen w (dao_handle m)) e (Some (update_key S k b (current (seen w (dao_handle m))))) (seen w' (dao_handle m)) \<and>
    (e = None \<and> n \<noteq> 0 \<longrightarrow> k \<in> dom (current (seen w (dao_handle m))))"
  using updateById_view by (fastforce simp: method_on_handle writes_def split: option.splits)

lemma Upsert_step:
  assumes "Upsert X m c b w = ((n, e), w')" and "keeps_key S (c, b)"
  shows "writes (seen w (dao_handle m)) e (upsert_row S (c, b) (current (seen w (dao_handle m)))) (seen w' (dao_handle m))"
proof -
  obtain has ee w1 where x: "Exists X m c w = ((has, ee), w1)" by (metis prod.collapse)
  with exist_view have v1: "seen w1 (dao_handle m) = seen w (dao_handle m)"
    and has: "ee = None \<Longrightarrow> has = any_match S c (current (seen w (dao_handle m)))"
    by (fastforce simp: method_on_handle)+
  show ?thesis
  proof (cases ee)
    case (Some err)
    with x assms(1) v1 show ?thesis by (auto simp: Upsert_def writes_def)
  next
    case None
    show ?thesis
    proof (cases has)
      case True
      with x None assms(1) have "Update X m b [c] w1 = ((n, e), w')" by (simp add: Upsert_def)
      from Update_step [OF this assms(2)] True has None v1 show ?thesis by (simp add: upsert_row_def)
    next
      case False
      with x None assms(1) have "InsertOne X m b w1 = ((n, e), w')" by (simp add: Upsert_def)
      from InsertOne_step [OF this] False has None v1 show ?thesis by (simp add: upsert_row_def)
    qed
  qed
qed

lemma update_key_same: "row_at S k b t = Some r \<Longrightarrow> update_key S k r t = t"
  by (auto simp: update_key_def row_at_def merge_same fun_upd_idem split: option.splits if_splits)

lemma UpsertById_step:
  assumes "UpsertById X m k b w = ((n, e), w')"
  shows "writes (seen w (dao_handle m)) e
    (if row_at S k b (current (seen w (dao_handle m))) = None then insert_row S b (current (seen w (dao_handle m)))
     else Some (current (seen w (dao_handle m)))) (seen w' (dao_handle m))"
proof -
  let ?v = "seen w (dao_handle m)"
  obtain has ge b1 w1 where g: "FindById X m k b w = ((has, ge), b1, w1)" by (metis prod.collapse)
  with getById_view have v1: "seen w1 (dao_handle m) = ?v"
    and row: "ge = None \<Longrightarrow> row_at S k b (current ?v) = (if has then Some b1 else None) \<and> (\<not> has \<longrightarrow> b1 = b)"
    by (fastforce simp: method_on_handle)+
  show ?thesis
  proof (cases ge)
    case (Some err)
    with g assms v1 show ?thesis by (auto simp: UpsertById_def writes_def)
  next
    case None
    show ?thesis
    proof (cases has)
      case True
      with g None assms have u: "UpdateById X m k b1 w1 = ((n, e), w')" by (simp add: UpsertById_def)
      have r: "row_at S k b (current ?v) = Some b1" using row None True by simp
      then have at: "current ?v k = Some b1" by (simp add: row_at_def split: option.splits if_splits)
      with wf_content have "pk S b1 = k" by (simp add: wf_table_def)
      with at v1 have "\<forall>r. current (seen w1 (dao_handle m)) k = Some r \<longrightarrow> pk S (merge S b1 r) = k"
        by (simp add: merge_same)
      from UpdateById_step [OF u this] r update_key_same [OF r] v1 show ?thesis by simp
    next
      case False
      with g row None assms have "InsertOne X m b w1 = ((n, e), w')" by (simp add: UpsertById_def)
      from InsertOne_step [OF this] False row None v1 show ?thesis by simp
    qed
  qed
qed

lemma upsert_loop_step:
  assumes "upsert_loop X m ps tot w = ((n, e), w')" and "\<forall>p \<in> set ps. keeps_key S p"
  shows "\<exists>j t. (if e = None then j = length ps else j < length ps) \<and>
    upsert_rows S (take j ps) (current (seen w (dao_handle m))) = Some t \<and>
    seen w' (dao_handle m) = put_table t (seen w (dao_handle m))"
  using assms
proof (induction ps arbitrary: tot w)
  case Nil
  then show ?case by simp
next
  case (Cons p ps)
  let ?v = "seen w (dao_handle m)"
  obtain n1 e1 w1 where u: "Upsert X m (fst p) (snd p) w = ((n1, e1), w1)" by (metis prod.collapse)
  have step: "writes ?v e1 (upsert_row S p (current ?v)) (seen w1 (dao_handle m))"
    using Upsert_step [OF u] Cons.prems(2) by simp
  show ?case
  proof (cases e1)
    case (Some err)
    with u Cons.prems(1) have "e = Some err" "w' = w1" by (cases p; simp)+
    with Some step show ?thesis by (intro exI [of _ 0] exI [of _ "current ?v"]) (simp add: writes_def)
  next
    case None
    then obtain t1 where t1: "upsert_row S p (current ?v) = Some t1" "seen w1 (dao_handle m) = put_table t1 ?v"
      using step by (auto simp: writes_def)
    have "upsert_loop X m ps (tot + n1) w1 = ((n, e), w')" using u None Cons.prems(1) by (cases p) simp
    from Cons.IH [OF this] Cons.prems(2) obtain j t where
      "if e = None then j = length ps else j < length ps" "upsert_rows S (take j ps) t1 = Some t"
      "seen w' (dao_handle m) = put_table t ?v"
      using t1(2) by auto
    with t1(1) show ?thesis by (intro exI [of _ "Suc j"] exI [of _ t]) simp
  qed
qed

lemma UpsertMany_step:
  assumes "UpsertMany X m ws bs w = ((n, e), w')" and "\<forall>p \<in> set (zip ws bs). keeps_key S p"
  shows "db_step S (OpUpsertMany ws bs) (seen w (dao_handle m)) (RNum n e) (seen w' (dao_handle m))"
proof (cases "length ws = length bs")
  case True
  with assms(1) have "upsert_loop X m (zip ws bs) 0 w = ((n, e), w')" by (simp add: UpsertMany_def)
  from upsert_loop_step [OF this assms(2)] True show ?thesis by (fastforce simp: writes_def)
qed (use assms(1) in \<open>simp add: UpsertMany_def\<close>)

lemma tx_step:
  assumes "session m = Some s"
  shows "dao_exec X m OpBegin w = (r, w') \<Longrightarrow> db_step S OpBegin (seen w (dao_handle m)) r (seen w' (dao_handle m))"
    and "dao_exec X m OpCommit w = (r, w') \<Longrightarrow> db_step S OpCommit (seen w (dao_handle m)) r (seen w' (dao_handle m))"
    and "dao_exec X m OpRollback w = (r, w') \<Longrightarrow> db_step S OpRollback (seen w (dao_handle m)) r (seen w' (dao_handle m))"
    and "dao_exec X m OpClose w = (r, w') \<Longrightarrow> db_step S OpClose (seen w (dao_handle m)) r (seen w' (dao_handle m))"
proof -
  have h: "dao_handle m = OnSession s" using assms by (simp add: dao_handle_def)
  show "db_step S OpBegin (seen w (dao_handle m)) r (seen w' (dao_handle m))" if "dao_exec X m OpBegin w = (r, w')"
    using that assms h begin_view [of s w]
    by (auto simp: Begin_def on_session_def done_res_def view_of_def split: prod.splits)
  show "db_step S OpCommit (seen w (dao_handle m)) r (seen w' (dao_handle m))" if "dao_exec X m OpCommit w = (r, w')"
    using that assms h commit_committed [of s w] commit_closes [of s w]
    by (auto simp: Commit_def on_session_def done_res_def view_of_def current_def split: prod.splits option.splits)
  show "db_step S OpRollback (seen w (dao_handle m)) r (seen w' (dao_handle m))" if "dao_exec X m OpRollback w = (r, w')"
    using that assms h rollback_committed [of s w] rollback_closes [of s w]
    by (auto simp: Rollback_def on_session_def done_res_def view_of_def split: prod.splits)
  show "db_step S OpClose (seen w (dao_handle m)) r (seen w' (dao_handle m))" if "dao_exec X m OpClose w = (r, w')"
    using that assms h close_committed [of s w] close_closes [of s w]
    by (auto simp: Close_def on_session_def done_res_def view_of_def)
qed

lemma read_step:
  "dao_exec X m (OpFindById k b) w = (r, w') \<Longrightarrow> db_step S (OpFindById k b) (seen w (dao_handle m)) r (seen w' (dao_handle m))"
  "dao_exec X m (OpFindOne b) w = (r, w') \<Longrightarrow> db_step S (OpFindOne b) (seen w (dao_handle m)) r (seen w' (dao_handle m))"
  "dao_exec X m (OpCount b) w = (r, w') \<Longrightarrow> db_step S (OpCount b) (seen w (dao_handle m)) r (seen w' (dao_handle m))"
  "dao_exec X m (OpExists b) w = (r, w') \<Longrightarrow> db_step S (OpExists b) (seen w (dao_handle m)) r (seen w' (dao_handle m))"
  using getById_view get_view count_view exist_view
  by (fastforce simp: method_on_handle apfst_def map_prod_def split: prod.splits)+

lemma find_step:
  "dao_exec X m (OpFindMany so cs) w = (r, w') \<Longrightarrow> op_ok S (OpFindMany so cs) \<Longrightarrow>
   db_step S (OpFindMany so cs) (seen w (dao_handle m)) r (seen w' (dao_handle m))"
  "dao_exec X m (OpFindAndCount pg cs) w = (r, w') \<Longrightarrow> op_ok S (OpFindAndCount pg cs) \<Longrightarrow>
   db_step S (OpFindAndCount pg cs) (seen w (dao_handle m)) r (seen w' (dao_handle m))"
  using find_view [of "dao_handle m" so cs w] page_view [of "dao_handle m" "Sort pg" "Limit pg" "Skip pg" cs w]
  by (auto simp: method_on_handle selected_def Let_def apfst_def map_prod_def split: prod.splits)

lemma delete_step:
  "dao_exec X m (OpDelete b) w = (r, w') \<Longrightarrow> db_step S (OpDelete b) (seen w (dao_handle m)) r (seen w' (dao_handle m))"
  "dao_exec X m (OpDeleteById k b) w = (r, w') \<Longrightarrow> db_step S (OpDeleteById k b) (seen w (dao_handle m)) r (seen w' (dao_handle m))"
  using delete_view [of "dao_handle m" b w] deleteById_view [of "dao_handle m" k b w]
  by (auto simp: method_on_handle writes_def apfst_def map_prod_def split: prod.splits option.splits)

lemma InsertMany_step:
  "dao_exec X m (OpInsertMany bs) w = (r, w') \<Longrightarrow> db_step S (OpInsertMany bs) (seen w (dao_handle m)) r (seen w' (dao_handle m))"
  using insert_view [of "dao_handle m" bs w]
  by (fastforce simp: method_on_handle writes_def apfst_def map_prod_def split: prod.splits)

lemma num_step:
  assumes "apfst (\<lambda>(n, e). RNum n e) c = (r, w')" and "\<And>n e. c = ((n, e), w') \<Longrightarrow> db_step S q v (RNum n e) v'"
  shows "db_step S q v r v'"
  using assms by (cases c) auto

lemma exec_step:
  assumes m: "session m = Some s" and ok: "op_ok S q" and ex: "dao_exec X m q w = (r, w')"
  shows "db_step S q (seen w (dao_handle m)) r (seen w' (dao_handle m))"
proof (cases q)
  case (OpUpdateById k b)
  have key: "\<forall>r. current (seen w (dao_handle m)) k = Some r \<longrightarrow> pk S (merge S b r) = k"
    using ok OpUpdateById wf_content by (simp add: wf_table_def)
  show ?thesis using ex unfolding OpUpdateById dao_exec.simps
    by (rule num_step) (drule UpdateById_step [OF _ key], simp)
next
  case (OpInsertOne b)
  show ?thesis using ex unfolding OpInsertOne dao_exec.simps by (rule num_step) (drule InsertOne_step, simp)
next
  case (OpUpdate b c)
  have key: "keeps_key S (c, b)" using ok OpUpdate by simp
  show ?thesis using ex unfolding OpUpdate dao_exec.simps by (rule num_step) (drule Update_step [OF _ key], simp)
next
  case (OpUpsert c b)
  have key: "keeps_key S (c, b)" using ok OpUpsert by simp
  show ?thesis using ex unfolding OpUpsert dao_exec.simps by (rule num_step) (drule Upsert_step [OF _ key], simp)
next
  case (OpUpsertMany ws bs)
  have key: "\<forall>p \<in> set (zip ws bs). keeps_key S p" using ok OpUpsertMany by simp
  show ?thesis using ex unfolding OpUpsertMany dao_exec.simps by (rule num_step) (erule UpsertMany_step [OF _ key])
qed (use ex ok in \<open>blast intro: tx_step [OF m] read_step find_step delete_step InsertMany_step\<close>)+

lemma run_step:
  assumes "session m = Some s" and "list_all (op_ok S) qs" and "dao_run X m w qs = (tr, w')"
  shows "db_run S (seen w (dao_handle m)) tr (seen w' (dao_handle m))"
  using assms(2,3)
proof (induction qs arbitrary: w tr)
  case (Cons q qs)
  obtain r w1 where x: "dao_exec X m q w = (r, w1)" by fastforce
  obtain tr1 w2 where y: "dao_run X m w1 qs = (tr1, w2)" by fastforce
  with x Cons.prems have "tr = (q, r) # tr1" "w2 = w'" by auto
  moreover have "db_step S q (seen w (dao_handle m)) r (seen w1 (dao_handle m))"
    using exec_step [OF assms(1) _ x] Cons.prems(1) by simp
  moreover have "db_run S (seen w1 (dao_handle m)) tr1 (seen w' (dao_handle m))"
    using Cons y calculation by simp
  ultimately show ?case by (simp del: split_paired_Ex) blast
qed simp

end

text \<open>
  C1. A data-access object is a table with transactions. On every mapper with the documented
  behaviour, whatever a user of a session observes in a run of calls (the answers, failing
  statements included, and the content that others see) is a run of the abstract operations on the
  user's view of one table, as long as nobody else writes to the table: \<^verbatim>\<open>Upsert\<close> acts as one
  operation, \<^verbatim>\<open>UpsertMany\<close> stops at the first that fails, a page is the slice of the selected rows,
  and what a transaction wrote is installed by its commit only. The methods are \<^verbatim>\<open>InsertOne\<close>,
  \<^verbatim>\<open>InsertMany\<close>, \<^verbatim>\<open>Update\<close>, \<^verbatim>\<open>UpdateById\<close>, \<^verbatim>\<open>Upsert\<close>, \<^verbatim>\<open>UpsertMany\<close>, \<^verbatim>\<open>Delete\<close>, \<^verbatim>\<open>DeleteById\<close>,
  \<^verbatim>\<open>FindById\<close>, \<^verbatim>\<open>FindOne\<close>, \<^verbatim>\<open>Count\<close>, \<^verbatim>\<open>Exists\<close>, \<^verbatim>\<open>FindMany\<close>, \<^verbatim>\<open>FindAndCount\<close>, \<^verbatim>\<open>Begin\<close>, \<^verbatim>\<open>Commit\<close>, \<^verbatim>\<open>Rollback\<close>
  and \<^verbatim>\<open>Close\<close>, called as \<open>op_ok\<close> says: an update or upsert leaves the primary keys of the rows it
  changes alone, \<^verbatim>\<open>FindMany\<close> and \<^verbatim>\<open>FindAndCount\<close> get at most one condition bean and a sort
  expression that determines the order, and a page has a positive size and a skip that is not
  negative. \<^verbatim>\<open>UpsertById\<close> is not among them: it does not do the update its comment promises
  (\<open>upsert_by_id_keeps_old\<close>).
\<close>

theorem dao_is_table:
  assumes "table_mapper X committed working S" and "session m = Some s"
    and "list_all (op_ok S) qs" and "dao_run X m w qs = (tr, w')"
  shows "db_run S (view_of committed working w (dao_handle m)) tr (view_of committed working w' (dao_handle m))"
  by (rule table_mapper.run_step [OF assms])

text \<open>The run of the witness: a row written inside a transaction, changed by an upsert, committed.\<close>

definition ref_dao :: OrmBaseDao where "ref_dao = \<lparr>conn = Engine 0, session = Some 0\<rparr>"
definition ref_world :: ref_db where "ref_world = \<lparr>rd_next = 1, rd_rows = fmempty, rd_open = Map.empty\<rparr>"

theorem dao_is_table_witness:
  "\<exists>tr w'. dao_run ref_orm ref_dao ref_world [OpBegin, OpInsertOne (1, 5), OpUpsert (1, 0) (0, 7), OpCommit] = (tr, w') \<and>
     db_run ref_schema (Map.empty, None) tr (ref_committed w', None)"
proof -
  let ?qs = "[OpBegin, OpInsertOne (1, 5), OpUpsert (1, 0) (0, 7), OpCommit]"
  obtain tr w' where r: "dao_run ref_orm ref_dao ref_world ?qs = (tr, w')" by fastforce
  have ok: "list_all (op_ok ref_schema) ?qs" by (simp add: keeps_key_def) (simp add: ref_schema_def)
  have "db_run ref_schema (view_of ref_committed ref_working ref_world (dao_handle ref_dao)) tr
      (view_of ref_committed ref_working w' (dao_handle ref_dao))"
    by (rule dao_is_table [OF ref_tab.table_mapper_axioms _ ok r]) (simp add: ref_dao_def)
  moreover have "view_of ref_committed ref_working ref_world (dao_handle ref_dao) = (Map.empty, None)"
    by (simp add: view_of_def ref_world_def ref_dao_def dao_handle_def ref_committed_def ref_working_def table_of_def)
  moreover have "ref_working w' 0 = None"
    using r by (auto simp: ref_working_def Commit_def on_session_def ref_dao_def ref_orm_def done_res_def split: prod.splits)
  ultimately show ?thesis using r by (auto simp: view_of_def ref_dao_def dao_handle_def)
qed

section \<open>Transactions of the helpers\<close>

text \<open>
  The steps that \<^verbatim>\<open>Execute\<close> is given: a method wrapped by the helper that turns "no row" into an
  error. \<open>work_apply\<close> is what a step means for the table, with \<open>None\<close> when it does not apply.
\<close>

datatype 'b work = WInsert 'b | WUpdate 'b 'b | WDelete 'b | WGet 'b

fun work_call :: "('w, 'b, 'v) orm \<Rightarrow> 'b work \<Rightarrow> 'w execute" where
  "work_call X (WInsert b) m w = DoInsert (InsertOne X m b) w"
| "work_call X (WUpdate b c) m w = DoUpdate (Update X m b [c]) w"
| "work_call X (WDelete b) m w = DoDelete (Delete X m b) w"
| "work_call X (WGet b) m w = DoGet (\<lambda>w. case FindOne X m b w of (r, _, w') \<Rightarrow> (r, w')) w"

fun work_apply :: "('v, 'b) schema \<Rightarrow> 'b work \<Rightarrow> ('v, 'b) table \<Rightarrow> ('v, 'b) table option" where
  "work_apply S (WInsert b) t = insert_row S b t"
| "work_apply S (WUpdate b c) t = (if any_match S c t then Some (update_where S c b t) else None)"
| "work_apply S (WDelete b) t = (if any_match S b t then Some (delete_where S b t) else None)"
| "work_apply S (WGet b) t = (if any_match S b t then Some t else None)"

fun work_all :: "('v, 'b) schema \<Rightarrow> 'b work list \<Rightarrow> ('v, 'b) table \<Rightarrow> ('v, 'b) table option" where
  "work_all S [] t = Some t"
| "work_all S (k # ks) t = (case work_apply S k t of Some t' \<Rightarrow> work_all S ks t' | None \<Rightarrow> None)"

fun work_ok :: "('v, 'b) schema \<Rightarrow> 'b work \<Rightarrow> bool" where
  "work_ok S (WUpdate b c) = keeps_key S (c, b)"
| "work_ok S _ = True"

context table_mapper
begin

lemma work_step:
  assumes "work_call X k m w = (e, w')" and "work_ok S k" and "seen w (dao_handle m) = (c, Some t)"
  shows "\<exists>t'. seen w' (dao_handle m) = (c, Some t') \<and> (e = None \<longrightarrow> work_apply S k t = Some t')"
proof (cases k)
  case (WInsert b)
  obtain n e1 w1 where x: "InsertOne X m b w = ((n, e1), w1)" by (metis prod.collapse)
  from InsertOne_step [OF x] x assms WInsert show ?thesis
    by (auto simp: DoInsert_def writes_def split: option.splits)
next
  case (WUpdate b d)
  obtain n e1 w1 where x: "Update X m b [d] w = ((n, e1), w1)" by (metis prod.collapse)
  from Update_step [OF x] x assms WUpdate show ?thesis
    by (auto simp: DoUpdate_def writes_def split: option.splits if_splits)
next
  case (WDelete b)
  obtain n e1 w1 where x: "Delete X m b w = ((n, e1), w1)" by (metis prod.collapse)
  from delete_view [OF x [unfolded method_on_handle]] x assms WDelete show ?thesis
    by (auto simp: DoDelete_def split: option.splits if_splits)
next
  case (WGet b)
  obtain has e1 b1 w1 where x: "FindOne X m b w = ((has, e1), b1, w1)" by (metis prod.collapse)
  from get_view [OF x [unfolded method_on_handle]] x assms WGet show ?thesis
    by (auto simp: DoGet_def any_match_def split: option.splits if_splits)
qed

lemma works_step:
  assumes "seq_calls (map (work_call X) ks) m w = (e, w')" and "list_all (work_ok S) ks"
    and "seen w (dao_handle m) = (c, Some t)"
  shows "\<exists>t'. seen w' (dao_handle m) = (c, Some t') \<and> (e = None \<longrightarrow> work_all S ks t = Some t')"
  using assms
proof (induction ks arbitrary: w t)
  case (Cons k ks)
  obtain e1 w1 where x: "work_call X k m w = (e1, w1)" by fastforce
  from work_step [OF x] Cons.prems obtain t1 where
    t1: "seen w1 (dao_handle m) = (c, Some t1)" "e1 = None \<longrightarrow> work_apply S k t = Some t1" by auto
  show ?case
  proof (cases e1)
    case None
    with x Cons.prems have "seq_calls (map (work_call X) ks) m w1 = (e, w')" by simp
    from Cons.IH [OF this _ t1(1)] Cons.prems(2) None t1(2) show ?thesis by simp
  next
    case (Some err)
    with x Cons.prems(1) t1(1) show ?thesis by auto
  qed
qed simp

lemma wrapper_view:
  assumes "NewSessionWrapper X d w = (sw, w1)" and "sw_err sw = None"
  shows "seen w1 (dao_handle (session_dao sw)) = (committed w, Some (committed w))"
proof -
  obtain s w0 where n: "o_newSession X (conn_handle (conn d)) w = (s, w0)" by fastforce
  have v: "seen w0 (OnSession s) = (committed w, None)" by (rule newSession_view [OF n])
  then have c: "committed w0 = committed w" by (simp add: view_of_def)
  obtain e w2 where b: "o_begin X s w0 = (e, w2)" by fastforce
  with n assms have "e = None" "w1 = w2" "sw_session sw = s" by (auto simp: NewSessionWrapper_def)
  with begin_view [OF b] v c show ?thesis by (simp add: dao_handle_def session_dao_def)
qed

lemma works_transaction:
  assumes run: "transaction X d (map (work_call X) ks) w = (e, w')" and ok: "list_all (work_ok S) ks"
  shows "if e = None then work_all S ks (committed w) = Some (committed w') else committed w' = committed w"
proof -
  have steps: "\<exists>t. seen w2 (dao_handle (session_dao sw)) = (committed w, Some t) \<and>
      (c = None \<longrightarrow> work_all S ks (committed w) = Some t)"
    if "NewSessionWrapper X d w = (sw, w1)" "sw_err sw = None"
      "seq_calls (map (work_call X) ks) (session_dao sw) w1 = (c, w2)" for sw w1 c w2
    by (rule works_step [OF that(3) ok wrapper_view [OF that(1,2)]])
  have keep: "committed w2 = committed w1"
    if "NewSessionWrapper X d w = (sw, w1)" "sw_err sw = None"
      "seq_calls (map (work_call X) ks) (session_dao sw) w1 = (c, w2)" for sw w1 c w2
    using steps [OF that] NewSessionWrapper_committed [of d w] that(1) by (auto simp: view_of_def)
  from transaction_cases [OF keep run] steps show ?thesis
    by (fastforce simp: view_of_def dao_handle_def session_dao_def)
qed

end

text \<open>
  C4. A chained transaction does all of its work or none. When the steps of the chain are inserts,
  updates, deletes and look-ups through the helpers, the chain returns no error only if every step
  applied to the table that the steps before it had left (no key was taken, some row was found),
  and then the committed table is the outcome of all steps in order; with any error the committed
  table is what it was before.
\<close>

theorem transaction_all_or_none:
  assumes "table_mapper X committed working S" and "list_all (work_ok S) ks"
    and "transaction X d (map (work_call X) ks) w = (e, w')"
  shows "if e = None then work_all S ks (committed w) = Some (committed w') else committed w' = committed w"
  by (rule table_mapper.works_transaction [OF assms(1,3,2)])

theorem transaction_all_or_none_witness:
  "\<exists>e w'. transaction ref_orm ref_dao (map (work_call ref_orm) [WInsert (1, 5), WInsert (2, 6), WDelete (9, 0)]) ref_world = (e, w') \<and>
     e \<noteq> None \<and> ref_committed w' = Map.empty"
proof -
  let ?ks = "[WInsert (1, 5), WInsert (2, 6), WDelete (9, 0)] :: bean work list"
  obtain e w' where r: "transaction ref_orm ref_dao (map (work_call ref_orm) ?ks) ref_world = (e, w')" by fastforce
  have ok: "list_all (work_ok ref_schema) ?ks" by simp
  have c: "ref_committed ref_world = Map.empty" by (simp add: ref_committed_def ref_world_def table_of_def)
  have "\<not> any_match ref_schema (9, 0) [1 \<mapsto> (1, 5), 2 \<mapsto> (2, 6)]"
    by (auto simp: any_match_def ran_def ref_schema_def split: if_splits)
  then have "work_all ref_schema ?ks Map.empty = None" by (simp add: insert_row_def)
  with transaction_all_or_none [OF ref_tab.table_mapper_axioms ok r] c have "e \<noteq> None \<and> ref_committed w' = Map.empty"
    by (simp split: if_splits)
  with r show ?thesis by blast
qed

section \<open>Transactions of any steps\<close>

text \<open>
  C5. A chained transaction is atomic. Its steps may be any code that works inside the transaction
  it is given: on a session with an open transaction a step does not touch the committed content
  and leaves the transaction open. The chain then either returns an error and leaves the committed
  content of the database as it was, or returns none, and then every step ran in order and
  succeeded, and the committed content is what the transaction held when the last step ended.
\<close>

theorem wrapper_atomic:
  assumes "tx_mapper X committed working"
    and "\<forall>f \<in> set fs. \<forall>m s. session m = Some s \<longrightarrow> in_transaction committed working s (f m)"
    and "transaction X d fs w = (e, w')"
  shows "if e = None
    then \<exists>sw w1 w2. NewSessionWrapper X d w = (sw, w1) \<and> sw_err sw = None \<and>
       seq_calls fs (session_dao sw) w1 = (None, w2) \<and> working w2 (sw_session sw) = Some (committed w')
    else committed w' = committed w"
  by (rule tx_mapper.transaction_atomic [OF assms])

text \<open>The data-access methods are such steps, on every mapper with the documented behaviour.\<close>

context table_mapper
begin

lemma work_in_transaction:
  assumes "work_ok S k" and "session m = Some s"
  shows "in_transaction committed working s (work_call X k m)"
proof (unfold in_transaction_def, intro allI impI)
  fix w assume "working w s \<noteq> None"
  then obtain t where t: "seen w (dao_handle m) = (committed w, Some t)"
    using assms(2) by (auto simp: view_of_def dao_handle_def)
  obtain e w' where r: "work_call X k m w = (e, w')" by fastforce
  from work_step [OF r assms(1) t] r assms(2)
  show "committed (snd (work_call X k m w)) = committed w \<and> working (snd (work_call X k m w)) s \<noteq> None"
    by (auto simp: view_of_def dao_handle_def)
qed

lemma insertOne_in_transaction: "in_transaction committed working s (o_insertOne X (OnSession s) b)"
proof (unfold in_transaction_def, intro allI impI)
  fix w assume "working w s \<noteq> None"
  moreover obtain n e w' where r: "o_insertOne X (OnSession s) b w = ((n, e), w')" by (metis prod.collapse)
  ultimately show "committed (snd (o_insertOne X (OnSession s) b w)) = committed w \<and>
      working (snd (o_insertOne X (OnSession s) b w)) s \<noteq> None"
    using insertOne_view [OF r] by (auto simp: view_of_def put_table_def split: option.splits)
qed

end

lemmas ref_eval = transaction_def NewSessionWrapper_def Execute_def CommitAndClose_def sw_Commit_def session_dao_def
  DoInsert_def InsertOne_def dao_handle_def ref_orm_def rows_at_def put_rows_def

theorem wrapper_atomic_witness:
  "\<exists>w'. transaction ref_orm ref_dao [work_call ref_orm (WInsert (1, 5)), work_call ref_orm (WInsert (2, 6))] ref_world = (None, w') \<and>
     ref_committed w' = [1 \<mapsto> (1, 5), 2 \<mapsto> (2, 6)]"
proof -
  let ?fs = "[work_call ref_orm (WInsert (1, 5)), work_call ref_orm (WInsert (2, 6))]"
  have keep: "\<forall>f \<in> set ?fs. \<forall>m s. session m = Some s \<longrightarrow> in_transaction ref_committed ref_working s (f m)"
    using ref_tab.work_in_transaction [of "WInsert (1, 5)"] ref_tab.work_in_transaction [of "WInsert (2, 6)"] by simp
  obtain e w' where t: "transaction ref_orm ref_dao ?fs ref_world = (e, w')" by (meson surj_pair)
  have e: "e = None" using t by (auto simp: ref_eval ref_world_def ref_dao_def)
  with wrapper_atomic [OF ref_tx.tx_mapper_axioms keep t] obtain sw w1 w2 where
    "NewSessionWrapper ref_orm ref_dao ref_world = (sw, w1)" "seq_calls ?fs (session_dao sw) w1 = (None, w2)"
    "ref_working w2 (sw_session sw) = Some (ref_committed w')" by auto
  then have "ref_committed w' = [1 \<mapsto> (1, 5), 2 \<mapsto> (2, 6)]"
    by (auto simp: ref_eval ref_world_def ref_dao_def ref_working_def table_of_upd) (auto simp: table_of_def)
  with t e show ?thesis by blast
qed

text \<open>
  C20. The transaction decorator commits exactly when it is told to. The handler may be any code
  that works inside the transaction of the session it is given. When the begin fails or the handler
  returns an error, \<^verbatim>\<open>WarpSession\<close> returns that error and no value, and the committed content is as
  before. When the handler asks for the commit and the commit succeeds, its value is returned and
  what its transaction held is the committed content; when the commit fails, that error is returned
  and the content is as before. In every other case the content is as before, and the handler's
  value or the error of the rollback is returned. The number returned is always 0.
\<close>

theorem warp_session_atomic:
  assumes "tx_mapper X committed working" and "in_transaction committed working s (h s)"
    and "WarpSession X s h w = ((val, n, e), w')"
  shows "n = 0 \<and>
    (case o_begin X s w of
       (Some err, w1) \<Rightarrow> val = None \<and> e = Some err \<and> committed w' = committed w
     | (None, w1) \<Rightarrow>
         (case h s w1 of
            ((v, doctor, Some err), w2) \<Rightarrow> val = None \<and> e = Some err \<and> committed w' = committed w
          | ((v, doctor, None), w2) \<Rightarrow>
              if doctor = SessionDoctorCommit then
                (case fst (o_commit X s w2) of
                   Some err \<Rightarrow> val = None \<and> e = Some err \<and> committed w' = committed w
                 | None \<Rightarrow> val = v \<and> e = None \<and> working w2 s = Some (committed w'))
              else committed w' = committed w \<and>
                (case fst (o_rollback X s w2) of
                   Some err \<Rightarrow> val = None \<and> e = Some err | None \<Rightarrow> val = v \<and> e = None)))"
  by (rule tx_mapper.WarpSession_cases [OF assms])

text \<open>A handler that inserts a row and asks for the commit.\<close>

definition insert_handler :: "nat \<Rightarrow> ref_db \<Rightarrow> (int64 option \<times> int \<times> dberr option) \<times> ref_db" where
  "insert_handler s w =
     (case o_insertOne ref_orm (OnSession s) (1, 5) w of ((n, e), w') \<Rightarrow> ((Some n, SessionDoctorCommit, e), w'))"

theorem warp_session_atomic_witness:
  "\<exists>w'. WarpSession ref_orm 0 insert_handler ref_world = ((Some 1, 0, None), w') \<and> ref_committed w' = [1 \<mapsto> (1, 5)]"
proof -
  have h: "in_transaction ref_committed ref_working 0 (insert_handler 0)"
    using ref_tab.insertOne_in_transaction [of 0 "(1, 5)"]
    by (auto simp: in_transaction_def insert_handler_def split: prod.splits) 
  obtain val n e w' where r: "WarpSession ref_orm 0 insert_handler ref_world = ((val, n, e), w')" by (metis prod.collapse)
  have "val = Some 1 \<and> n = 0 \<and> e = None \<and> ref_committed w' = [1 \<mapsto> (1, 5)]"
    using warp_session_atomic [OF ref_tx.tx_mapper_axioms h r]
    by (auto simp: insert_handler_def ref_orm_def ref_world_def rows_at_def put_rows_def ref_working_def table_of_upd)
      (auto simp: table_of_def)
  with r show ?thesis by blast
qed

section \<open>Pages\<close>

text \<open>A caller that fetches \<open>n\<close> pages of size \<open>li\<close> from page \<open>i\<close> on; it stops at an error.\<close>

fun fetch_pages ::
  "('w, 'b, 'v) orm \<Rightarrow> OrmBaseDao \<Rightarrow> string \<Rightarrow> nat \<Rightarrow> 'b list \<Rightarrow> nat \<Rightarrow> nat \<Rightarrow> 'w \<Rightarrow> ('b list \<times> int64) list option \<times> 'w" where
  "fetch_pages X m so li cs i 0 w = (Some [], w)"
| "fetch_pages X m so li cs i (Suc n) w =
     (case FindAndCount X m (NewPageable (int (i * li)) (int li) so) cs w of
        ((rs, cnt, Some e), w1) \<Rightarrow> (None, w1)
      | ((rs, cnt, None), w1) \<Rightarrow>
          (case fetch_pages X m so li cs (Suc i) n w1 of (ps, w2) \<Rightarrow> (map_option ((#) (rs, cnt)) ps, w2)))"

lemma take_drop_next: "take l (drop (i * l) xs) @ take (n * l) (drop (Suc i * l) xs) = take (Suc n * l) (drop (i * l) xs)"
  by (simp add: take_add)

context table_mapper
begin

lemma fetch_step:
  assumes "fetch_pages X m so li cs i n w = (Some ps, w')" and "definite S so" "length cs \<le> 1" "0 < li"
  shows "concat (map fst ps) = take (n * li) (drop (i * li) (selected S so cs (seen w (dao_handle m)))) \<and>
    (\<forall>p \<in> set ps. snd p = of_nat (length (selected S so cs (seen w (dao_handle m)))))"
  using assms(1)
proof (induction n arbitrary: i w ps)
  case (Suc n)
  obtain rs cnt e w1 where f: "FindAndCount X m (NewPageable (int (i * li)) (int li) so) cs w = ((rs, cnt, e), w1)"
    by (metis prod.collapse)
  let ?all = "selected S so cs (seen w (dao_handle m))"
  from f Suc.prems obtain ps1 where e: "e = None"
    and ps: "fetch_pages X m so li cs (Suc i) n w1 = (Some ps1, w')" "ps = (rs, cnt) # ps1"
    by (auto split: option.splits prod.splits)
  have "seen w1 (dao_handle m) = seen w (dao_handle m) \<and> rs = take li (drop (i * li) ?all) \<and> cnt = of_nat (length ?all)"
    using find_step(2) [of m "NewPageable (int (i * li)) (int li) so" cs w] f e assms(2-4)
    by (simp add: NewPageable_def Skip_def Limit_def Sort_def nat_mult_distrib)
  with Suc.IH [OF ps(1)] ps(2) show ?case by (simp only: list.map concat.simps fst_conv snd_conv take_drop_next) simp
qed simp

lemma selected_rows: "distinct (selected S so cs (seen w h)) \<and> set (selected S so cs (seen w h)) = {r \<in> ran (current (seen w h)). selects S cs r}"
  using arranged [OF wf_content] by (auto simp: selected_def)

end

text \<open>
  C9. Pages cover the table. A caller that fetches page after page with \<^verbatim>\<open>FindAndCount\<close>, over a sort
  expression that determines the order and while nobody writes, gets every selected row exactly
  once, in the order of the sort, and every page reports the number of all of them.
\<close>

theorem pages_cover:
  assumes "table_mapper X committed working S" and "definite S so" and "length cs \<le> 1" and "0 < li"
    and "fetch_pages X m so li cs 0 n w = (Some ps, w')"
    and "length (selected S so cs (view_of committed working w (dao_handle m))) \<le> n * li"
  shows "concat (map fst ps) = selected S so cs (view_of committed working w (dao_handle m)) \<and>
    distinct (concat (map fst ps)) \<and>
    set (concat (map fst ps)) = {r \<in> ran (current (view_of committed working w (dao_handle m))). selects S cs r} \<and>
    (\<forall>p \<in> set ps. snd p = of_nat (length (concat (map fst ps))))"
  using table_mapper.fetch_step [OF assms(1,5,2-4)] table_mapper.selected_rows [OF assms(1), of so cs w "dao_handle m"] assms(6)
  by simp

definition ref_world3 :: ref_db where
  "ref_world3 = \<lparr>rd_next = 1, rd_rows = fmupd 3 30 (fmupd 2 20 (fmupd 1 10 fmempty)), rd_open = Map.empty\<rparr>"

lemma rows_world3: "ref_find [] (rows_at ref_world3 (OnSession 0)) = [(1, 10), (2, 20), (3, 30)]"
proof -
  have "sorted_list_of_set {3, 2, 1 :: nat} = [1, 2, 3]" by (simp add: sorted_list_of_set_insert)
  then show ?thesis
    by (simp add: ref_find_def selects_def rows_of_def rows_at_def ref_world3_def sorted_list_of_fset.rep_eq)
qed

theorem pages_cover_witness:
  "\<exists>ps w'. fetch_pages ref_orm ref_dao ''id'' 2 [] 0 2 ref_world3 = (Some ps, w') \<and>
     concat (map fst ps) = [(1, 10), (2, 20), (3, 30)] \<and> map fst ps = [[(1, 10), (2, 20)], [(3, 30)]]"
proof -
  let ?v = "view_of ref_committed ref_working ref_world3 (dao_handle ref_dao)"
  have h: "dao_handle ref_dao = OnSession 0" by (simp add: dao_handle_def ref_dao_def)
  have all: "selected ref_schema ''id'' [] ?v = [(1, 10), (2, 20), (3, 30)]"
    using rows_world3 by (simp add: selected_def h ref_current arrange_table_of ref_find_def)
  have f: "fetch_pages ref_orm ref_dao ''id'' 2 [] 0 2 ref_world3 =
      (Some [([(1, 10), (2, 20)], 3), ([(3, 30)], 3)], ref_world3)"
    using rows_world3
    by (simp add: numeral_2_eq_2 method_on_handle h ref_ops NewPageable_def Limit_def Skip_def Sort_def)
  have "definite ref_schema ''id''" by (simp add: ref_schema_def)
  from pages_cover [OF ref_tab.table_mapper_axioms this _ _ f] all f show ?thesis by simp
qed

section \<open>Entities\<close>

text \<open>
  An entity with a session: each method is the data-access method on the entity's object; a
  successful or failed \<^verbatim>\<open>Get\<close> leaves its result in the object.
\<close>

datatype 'b entity_op = ECreate | EGet | EExists | ECount | EUpdate 'b | EUpdateByPk | EDelete | EDeleteByPk
  | EBegin | ECommit | ERollback | EClose

fun entity_exec :: "('w, 'b, 'v) orm \<Rightarrow> ('b \<Rightarrow> 'v) \<Rightarrow> 'b entity \<Rightarrow> 'b entity_op \<Rightarrow> 'w \<Rightarrow> ('b dbres \<times> 'b entity) \<times> 'w" where
  "entity_exec X key e ECreate w = apfst (\<lambda>(n, x). (RNum n x, e)) (entity_Create X e w)"
| "entity_exec X key e EGet w = (case entity_Get X e w of ((has, x), e', w') \<Rightarrow> ((RBean has x (objectPtr e'), e'), w'))"
| "entity_exec X key e EExists w = apfst (\<lambda>(has, x). (RBool has x, e)) (entity_Exists X e w)"
| "entity_exec X key e ECount w = apfst (\<lambda>(n, x). (RNum n x, e)) (entity_Count X e w)"
| "entity_exec X key e (EUpdate c) w = apfst (\<lambda>(n, x). (RNum n x, e)) (entity_Update X e [c] w)"
| "entity_exec X key e EUpdateByPk w = apfst (\<lambda>(n, x). (RNum n x, e)) (entity_UpdateByPk X key e w)"
| "entity_exec X key e EDelete w = apfst (\<lambda>(n, x). (RNum n x, e)) (entity_Delete X e w)"
| "entity_exec X key e EDeleteByPk w = apfst (\<lambda>(n, x). (RNum n x, e)) (entity_DeleteByPk X key e w)"
| "entity_exec X key e EBegin w = apfst (\<lambda>r. (r, e)) (done_res (entity_Begin X e w))"
| "entity_exec X key e ECommit w = apfst (\<lambda>r. (r, e)) (done_res (entity_Commit X e w))"
| "entity_exec X key e ERollback w = apfst (\<lambda>r. (r, e)) (done_res (entity_Rollback X e w))"
| "entity_exec X key e EClose w = apfst (\<lambda>r. (r, e))
     (done_res (apfst (\<lambda>q. case q of Returns _ \<Rightarrow> Returns None | Panics x \<Rightarrow> Panics x) (entity_Close X e w)))"

fun op_of :: "('b \<Rightarrow> 'v) \<Rightarrow> 'b \<Rightarrow> 'b entity_op \<Rightarrow> ('v, 'b) dbop" where
  "op_of key b ECreate = OpInsertOne b"
| "op_of key b EGet = OpFindOne b"
| "op_of key b EExists = OpExists b"
| "op_of key b ECount = OpCount b"
| "op_of key b (EUpdate c) = OpUpdate b c"
| "op_of key b EUpdateByPk = OpUpdateById (key b) b"
| "op_of key b EDelete = OpDelete b"
| "op_of key b EDeleteByPk = OpDeleteById (key b) b"
| "op_of key b EBegin = OpBegin"
| "op_of key b ECommit = OpCommit"
| "op_of key b ERollback = OpRollback"
| "op_of key b EClose = OpClose"

fun entity_run :: "('w, 'b, 'v) orm \<Rightarrow> ('b \<Rightarrow> 'v) \<Rightarrow> 'b entity \<Rightarrow> 'w \<Rightarrow> 'b entity_op list \<Rightarrow>
    (('v, 'b) dbop \<times> 'b dbres) list \<times> 'b entity \<times> 'w" where
  "entity_run X key e w [] = ([], e, w)"
| "entity_run X key e w (q # qs) =
     (case entity_exec X key e q w of ((r, e1), w1) \<Rightarrow>
        (case entity_run X key e1 w1 qs of (tr, p) \<Rightarrow> ((op_of key (objectPtr e) q, r) # tr, p)))"

lemmas entity_methods = entity_Create_def entity_Get_def entity_Exists_def entity_Count_def entity_Update_def
  entity_UpdateByPk_def entity_Delete_def entity_DeleteByPk_def entity_Begin_def entity_Commit_def
  entity_Rollback_def entity_Close_def entity_tx_def entity_dao_def

text \<open>The object after an operation: what a look-up left there.\<close>

definition kept :: "'b dbres \<Rightarrow> 'b \<Rightarrow> 'b" where
  "kept r b = (case r of RBean _ _ b' \<Rightarrow> b' | _ \<Rightarrow> b)"

lemma entity_exec_dao:
  assumes "sessionDao e = Some d"
  shows "entity_exec X key e q w =
    (case dao_exec X d (op_of key (objectPtr e) q) w of (r, w') \<Rightarrow> ((r, e\<lparr>objectPtr := kept r (objectPtr e)\<rparr>), w'))"
  using assms by (cases e; cases q)
    (auto simp: entity_methods kept_def done_res_def apfst_def map_prod_def split: prod.splits outcome.splits)

context table_mapper
begin

lemma entity_step:
  assumes "entity_run X (pk S) e w qs = (tr, e', w')" and "sessionDao e = Some d" "session d = Some s"
    and "list_all (\<lambda>p. op_ok S (fst p)) tr"
  shows "db_run S (seen w (dao_handle d)) tr (seen w' (dao_handle d)) \<and> sessionDao e' = Some d \<and>
    objectPtr e' = fold (\<lambda>p b. kept (snd p) b) tr (objectPtr e)"
  using assms(1,2,4)
proof (induction qs arbitrary: e w tr)
  case (Cons q qs)
  let ?q = "op_of (pk S) (objectPtr e) q"
  obtain r w1 where x: "dao_exec X d ?q w = (r, w1)" by fastforce
  let ?e = "e\<lparr>objectPtr := kept r (objectPtr e)\<rparr>"
  have ex: "entity_exec X (pk S) e q w = ((r, ?e), w1)"
    using entity_exec_dao [OF Cons.prems(2), of X "pk S" q w] x by simp
  obtain tr1 where y: "entity_run X (pk S) ?e w1 qs = (tr1, e', w')" and tr: "tr = (?q, r) # tr1"
    using ex Cons.prems(1) by (auto split: prod.splits)
  have ok: "op_ok S ?q" and oks: "list_all (\<lambda>p. op_ok S (fst p)) tr1" using Cons.prems(3) tr by simp_all
  have "db_step S ?q (seen w (dao_handle d)) r (seen w1 (dao_handle d))" by (rule exec_step [OF assms(3) ok x])
  moreover have "db_run S (seen w1 (dao_handle d)) tr1 (seen w' (dao_handle d)) \<and> sessionDao e' = Some d \<and>
      objectPtr e' = fold (\<lambda>p b. kept (snd p) b) tr1 (kept r (objectPtr e))"
    using Cons.IH [OF y _ oks] Cons.prems(2) by simp
  ultimately show ?case unfolding tr by (simp del: split_paired_Ex) blast
qed simp

end

text \<open>
  C19. An entity is a row object of the table. In every run of calls on an entity with a session, the
  calls are operations of the abstract table on the entity's own object, by its primary key where
  the method says so, and the object is at the end what the look-ups left in it.
\<close>

theorem entity_is_row:
  assumes "table_mapper X committed working S" and "entity_run X (pk S) e w qs = (tr, e', w')"
    and "sessionDao e = Some d" and "session d = Some s" and "list_all (\<lambda>p. op_ok S (fst p)) tr"
  shows "db_run S (view_of committed working w (dao_handle d)) tr (view_of committed working w' (dao_handle d)) \<and>
    objectPtr e' = fold (\<lambda>p b. kept (snd p) b) tr (objectPtr e)"
  using table_mapper.entity_step [OF assms] by blast

theorem entity_is_row_witness:
  "\<exists>tr e' w'. entity_run ref_orm (pk ref_schema) \<lparr>dao = ref_dao, sessionDao = Some ref_dao, objectPtr = (2, 0)\<rparr> ref_world3 [EGet, EDeleteByPk] =
      (tr, e', w') \<and> objectPtr e' = (2, 20) \<and>
      db_run ref_schema (view_of ref_committed ref_working ref_world3 (OnSession 0)) tr (view_of ref_committed ref_working w' (OnSession 0))"
proof -
  let ?e = "\<lparr>dao = ref_dao, sessionDao = Some ref_dao, objectPtr = (2, 0)\<rparr>"
  obtain tr e' w' where r: "entity_run ref_orm (pk ref_schema) ?e ref_world3 [EGet, EDeleteByPk] = (tr, e', w')"
    by (metis prod_cases3)
  have h: "dao_handle ref_dao = OnSession 0" by (simp add: dao_handle_def ref_dao_def)
  have f: "find (keyed_cond None (2, 0)) (rows_of (rows_at ref_world3 (OnSession 0))) = Some (2, 20)"
    using rows_world3 by (simp add: ref_find_def selects_def keyed_cond_def ref_schema_def)
  obtain n where tr: "tr = [(OpFindOne (2, 0), RBean True None (2, 20)), (OpDeleteById 2 (2, 20), RNum n None)]"
    using r f by (auto simp: entity_methods method_on_handle h ref_ops)
  have s: "session ref_dao = Some 0" by (simp add: ref_dao_def)
  have "db_run ref_schema (view_of ref_committed ref_working ref_world3 (dao_handle ref_dao)) tr
      (view_of ref_committed ref_working w' (dao_handle ref_dao)) \<and>
    objectPtr e' = fold (\<lambda>p b. kept (snd p) b) tr (objectPtr ?e)"
    by (rule entity_is_row [OF ref_tab.table_mapper_axioms r _ s]) (simp_all add: tr)
  with r h show ?thesis by (simp add: tr kept_def)
qed

section \<open>Upserts by id\<close>

text \<open>
  \<^verbatim>\<open>UpsertById\<close> inserts but never updates, although its comment promises an update when the row
  exists. The look-up that decides overwrites the caller's bean with the stored row, which is then
  written back; and when the stored row differs from the bean in a field, the look-up, which also
  uses the fields of the bean as conditions, misses it and the insert fails.
\<close>

theorem upsert_by_id_keeps_old:
  assumes "table_mapper X committed working S" and "UpsertById X m k bean w = ((n, e), w')"
    and "current (view_of committed working w (dao_handle m)) i = Some r"
  shows "current (view_of committed working w' (dao_handle m)) i = Some r"
  using table_mapper.UpsertById_step [OF assms(1,2)] assms(3)
  by (auto simp: writes_def insert_row_def split: option.splits if_splits)

theorem upsert_by_id_keeps_old_witness:
  "\<exists>n e w'. UpsertById ref_orm ref_dao 2 (0, 99) ref_world3 = ((n, e), w') \<and>
     current (view_of ref_committed ref_working w' (dao_handle ref_dao)) 2 = Some (2, 20)"
proof -
  obtain n e w' where u: "UpsertById ref_orm ref_dao 2 (0, 99) ref_world3 = ((n, e), w')" by (metis prod.collapse)
  have "current (view_of ref_committed ref_working ref_world3 (dao_handle ref_dao)) 2 = Some (2, 20)"
    by (simp add: ref_current) (simp add: rows_at_def ref_world3_def table_of_def dao_handle_def ref_dao_def)
  from upsert_by_id_keeps_old [OF ref_tab.table_mapper_axioms u this] u show ?thesis by blast
qed

end
