(* ===== verification/Nats.thy ===== *)
theory Nats
  imports Prelude
begin

text \<open>
  \<^verbatim>\<open>libs/nats\<close>: a connection to a NATS server with optional JetStream, its subscriptions, and the
  manager of the configured connections.

  The client library \<^verbatim>\<open>nats.go\<close> and the server are the record \<open>nats_api\<close> of operations on a world
  \<open>'w\<close>. Connections, JetStream contexts and subscriptions are handles (numbers); a result with an
  error beside it is a pair, a nil pointer \<open>None\<close>. Logging and sleeping are left out. What a
  goroutine does with one batch of messages is a function; the goroutines of the manager, which
  meet at its lock, are an event machine.
\<close>

datatype nerr =
    ErrNoStreamResponse
  | ErrTimeout
  | ErrInvalidSubscribe
  | ErrSubjectNotFound
  | ErrNats string

record NatsConfig =
  cfg_Name :: string
  cfg_Url :: string
  cfg_UseStream :: bool
  cfg_StreamName :: string
  cfg_Type :: string
  cfg_Subject :: "string list"
  cfg_Username :: string
  cfg_Password :: string

record StreamConfig =
  st_Name :: string
  st_Subjects :: "string list"

record ConsumerConfig =
  cc_Durable :: string
  cc_FilterSubject :: string
  cc_FilterSubjects :: "string list"

record subscription =
  sub_id :: nat
  sub_Subject :: string

record ConnectOptions =
  opt_UserInfo :: "(string \<times> string) option"
  opt_MaxReconnects :: nat
  opt_ReconnectWait :: nat

record 'w nats_api =
  n_connect :: "string \<Rightarrow> ConnectOptions \<Rightarrow> 'w \<Rightarrow> (nerr + nat) \<times> 'w"
  n_jetStream :: "nat \<Rightarrow> 'w \<Rightarrow> (nerr + nat) \<times> 'w"
  n_streamInfo :: "nat \<Rightarrow> string \<Rightarrow> 'w \<Rightarrow> (nat option \<times> nerr option) \<times> 'w"
  n_addStream :: "nat \<Rightarrow> StreamConfig \<Rightarrow> 'w \<Rightarrow> (nat option \<times> nerr option) \<times> 'w"
  n_consumerInfo :: "nat \<Rightarrow> string \<Rightarrow> string \<Rightarrow> 'w \<Rightarrow> (nat option \<times> nerr option) \<times> 'w"
  n_addConsumer :: "nat \<Rightarrow> string \<Rightarrow> ConsumerConfig \<Rightarrow> 'w \<Rightarrow> nerr option \<times> 'w"
  n_pullSubscribe :: "nat \<Rightarrow> string \<Rightarrow> string \<Rightarrow> string \<Rightarrow> 'w \<Rightarrow> (nerr + nat) \<times> 'w"
  n_queueSubscribe :: "nat \<Rightarrow> string \<Rightarrow> string \<Rightarrow> 'w \<Rightarrow> (nerr + nat) \<times> 'w"
  n_unsubscribe :: "nat \<Rightarrow> 'w \<Rightarrow> nerr option \<times> 'w"
  n_publish :: "nat \<Rightarrow> string \<Rightarrow> bytes \<Rightarrow> 'w \<Rightarrow> nerr option \<times> 'w"
  n_jsPublish :: "nat \<Rightarrow> string \<Rightarrow> bytes \<Rightarrow> 'w \<Rightarrow> nerr option \<times> 'w"
  n_jsPublishAsync :: "nat \<Rightarrow> string \<Rightarrow> bytes \<Rightarrow> 'w \<Rightarrow> nerr option \<times> 'w"
  n_isConnected :: "nat \<Rightarrow> 'w \<Rightarrow> bool"
  n_close :: "nat \<Rightarrow> 'w \<Rightarrow> 'w"

section \<open>The connection\<close>

record NatsConnection =
  conn :: nat
  config :: NatsConfig
  cname :: string
  js :: "nat option"
  streamInfo :: "nat option"
  subject :: "subscription list"
  useStream :: bool
  url :: string
  ctx_done :: bool
  handlers :: "string \<rightharpoonup> nat"

definition NewNatsConnect ::
  "'w nats_api \<Rightarrow> string \<Rightarrow> NatsConfig option \<Rightarrow> 'w \<Rightarrow> (nerr, NatsConnection) outcome \<times> 'w" where
  "NewNatsConnect N name' natsConfig w =
     (case natsConfig of
        None \<Rightarrow> (Panics (ErrNats ''config''), w)
      | Some cfg \<Rightarrow>
          (let opts = \<lparr>opt_UserInfo = (if cfg_Username cfg \<noteq> [] \<and> cfg_Password cfg \<noteq> []
                                     then Some (cfg_Username cfg, cfg_Password cfg) else None),
                       opt_MaxReconnects = 10, opt_ReconnectWait = 5\<rparr>
           in case n_connect N (cfg_Url cfg) opts w of
                (Inl err, w1) \<Rightarrow> (Panics err, w1)
              | (Inr c, w1) \<Rightarrow>
                  (let sub = \<lparr>conn = c, config = cfg, cname = name', js = None, streamInfo = None, subject = [],
                         useStream = cfg_UseStream cfg, url = cfg_Url cfg, ctx_done = False, handlers = Map.empty\<rparr>
                   in if cfg_UseStream cfg then
                        (case n_jetStream N c w1 of
                           (Inl err, w2) \<Rightarrow> (Panics err, w2)
                         | (Inr j, w2) \<Rightarrow> (Returns (sub\<lparr>js := Some j\<rparr>), w2))
                      else (Returns sub, w1))))"

definition IsConnected :: "'w nats_api \<Rightarrow> NatsConnection \<Rightarrow> 'w \<Rightarrow> bool" where
  "IsConnected N s w = n_isConnected N (conn s) w"

definition GetConfig :: "NatsConnection \<Rightarrow> NatsConfig" where "GetConfig s = config s"
definition GetJetStream :: "NatsConnection \<Rightarrow> nat option" where "GetJetStream s = js s"
definition GetNativeConn :: "NatsConnection \<Rightarrow> nat" where "GetNativeConn s = conn s"

text \<open>
  With JetStream in use the context is never nil (the constructor sets it); \<open>js_of\<close> is that context.
\<close>

definition js_of :: "NatsConnection \<Rightarrow> nat" where
  "js_of s = (case js s of None \<Rightarrow> 0 | Some j \<Rightarrow> j)"

definition EnsureStream :: "'w nats_api \<Rightarrow> NatsConnection \<Rightarrow> 'w \<Rightarrow> nerr option \<times> 'w" where
  "EnsureStream N s w =
     (if \<not> useStream s then (None, w)
      else case n_streamInfo N (js_of s) (cfg_StreamName (config s)) w of
        ((stream, err), w1) \<Rightarrow>
          if err \<noteq> None \<and> stream = None then
            (case n_addStream N (js_of s) \<lparr>st_Name = cfg_StreamName (config s), st_Subjects = cfg_Subject (config s)\<rparr> w1 of
               ((_, Some e), w2) \<Rightarrow> (Some e, w2)
             | ((_, None), w2) \<Rightarrow> (None, w2))
          else (None, w1))"

definition AddStream :: "'w nats_api \<Rightarrow> NatsConnection \<Rightarrow> string \<Rightarrow> string list \<Rightarrow> 'w \<Rightarrow> nerr option \<times> NatsConnection \<times> 'w" where
  "AddStream N s streamName subjects w =
     (if \<not> useStream s then (Some ErrNoStreamResponse, s, w)
      else case n_streamInfo N (js_of s) streamName w of
        ((stream, err), w1) \<Rightarrow>
          if err \<noteq> None \<and> stream \<noteq> None then (err, s, w1)
          else if stream = None then
            (case n_addStream N (js_of s) \<lparr>st_Name = streamName, st_Subjects = subjects\<rparr> w1 of
               ((info, e), w2) \<Rightarrow> (e, s\<lparr>streamInfo := info\<rparr>, w2))
          else (None, s, w1))"

text \<open>\<open>not_found\<close> is whether the error's text contains \<^verbatim>\<open>consumer not found\<close>.\<close>

definition AddConsumer ::
  "'w nats_api \<Rightarrow> (nerr \<Rightarrow> bool) \<Rightarrow> NatsConnection \<Rightarrow> string \<Rightarrow> string \<Rightarrow> string list \<Rightarrow> 'w \<Rightarrow> nerr option \<times> 'w" where
  "AddConsumer N not_found s streamName durableName subjects w =
     (if \<not> useStream s then (Some ErrNoStreamResponse, w)
      else case n_consumerInfo N (js_of s) streamName durableName w of
        ((consumer, err), w1) \<Rightarrow>
          if err = None \<and> consumer \<noteq> None then (None, w1)
          else if (case err of Some e \<Rightarrow> \<not> not_found e | None \<Rightarrow> False) then (err, w1)
          else let cfg = \<lparr>cc_Durable = durableName,
                    cc_FilterSubject = (if length subjects = 1 then subjects ! 0 else []),
                    cc_FilterSubjects = (if length subjects > 1 then subjects else [])\<rparr>
               in n_addConsumer N (js_of s) streamName cfg w1)"

section \<open>Start and stop\<close>

text \<open>\<^verbatim>\<open>Start\<close> before its loop, and the loop's answer to a reconnection; a done context ends the loop.\<close>

definition Start_init :: "'w nats_api \<Rightarrow> NatsConnection \<Rightarrow> 'w \<Rightarrow> (nerr, NatsConnection) outcome \<times> 'w" where
  "Start_init N s w =
     (if useStream s then
        (case n_streamInfo N (js_of s) (cfg_StreamName (config s)) w of
           ((stream, err), w1) \<Rightarrow>
             if err \<noteq> None \<and> stream = None then
               (case AddStream N s (cfg_StreamName (config s)) (cfg_Subject (config s)) w1 of
                  (Some e, s1, w2) \<Rightarrow> (Panics e, w2)
                | (None, s1, w2) \<Rightarrow> (Returns s1, w2))
             else (Returns s, w1))
      else (Returns s, w))"

definition on_reconnect :: "'w nats_api \<Rightarrow> NatsConnection \<Rightarrow> 'w \<Rightarrow> NatsConnection \<times> 'w" where
  "on_reconnect N s w =
     (if useStream s then
        (case n_jetStream N (conn s) w of
           (Inl err, w1) \<Rightarrow> (s, w1)
         | (Inr j, w1) \<Rightarrow> (let s1 = s\<lparr>js := Some j\<rparr> in (s1, snd (EnsureStream N s1 w1))))
      else (s, w))"

definition Stop :: "'w nats_api \<Rightarrow> NatsConnection \<Rightarrow> 'w \<Rightarrow> NatsConnection \<times> 'w" where
  "Stop N s w = (s\<lparr>ctx_done := True\<rparr>, n_close N (conn s) w)"

text \<open>
  \<^verbatim>\<open>Start\<close> as a whole. The callbacks for the connection's state run in goroutines of the client
  library; the first two leave a mark in a channel of capacity one (\<open>reconnectChan\<close> and \<open>disconnectChan\<close>
  say whether it is full) and never block. The loop takes one of the events that are ready.
\<close>

record 'w started =
  st_conn :: NatsConnection
  st_world :: 'w
  reconnectChan :: bool
  disconnectChan :: bool
  st_returned :: bool

definition Start :: "'w nats_api \<Rightarrow> NatsConnection \<Rightarrow> 'w \<Rightarrow> (nerr \<times> 'w, 'w started) outcome" where
  "Start N s w =
     (case Start_init N s w of
        (Panics e, w1) \<Rightarrow> Panics (e, w1)
      | (Returns s1, w1) \<Rightarrow>
          Returns \<lparr>st_conn = s1, st_world = w1, reconnectChan = False, disconnectChan = False, st_returned = False\<rparr>)"

datatype conn_event =
    Reconnected
  | Disconnected
  | ConnClosed
  | LoopDone
  | LoopReconnect
  | LoopDisconnect
  | StopCall

fun Start_step :: "'w nats_api \<Rightarrow> conn_event \<Rightarrow> 'w started \<Rightarrow> 'w started option" where
  "Start_step N Reconnected s = Some (s\<lparr>reconnectChan := True\<rparr>)"
| "Start_step N Disconnected s = Some (s\<lparr>disconnectChan := True\<rparr>)"
| "Start_step N ConnClosed s = Some s"
| "Start_step N LoopDone s =
     (if st_returned s \<or> \<not> ctx_done (st_conn s) then None else Some (s\<lparr>st_returned := True\<rparr>))"
| "Start_step N LoopReconnect s =
     (if st_returned s \<or> \<not> reconnectChan s then None
      else case on_reconnect N (st_conn s) (st_world s) of
             (c, w) \<Rightarrow> Some (s\<lparr>st_conn := c, st_world := w, reconnectChan := False\<rparr>))"
| "Start_step N LoopDisconnect s =
     (if st_returned s \<or> \<not> disconnectChan s then None else Some (s\<lparr>disconnectChan := False\<rparr>))"
| "Start_step N StopCall s =
     (case Stop N (st_conn s) (st_world s) of (c, w) \<Rightarrow> Some (s\<lparr>st_conn := c, st_world := w\<rparr>))"

section \<open>Publishing\<close>

definition Publish :: "'w nats_api \<Rightarrow> NatsConnection \<Rightarrow> string \<Rightarrow> bytes \<Rightarrow> 'w \<Rightarrow> nerr option \<times> 'w" where
  "Publish N s subj data w =
     (if useStream s then n_jsPublish N (js_of s) subj data w else n_publish N (conn s) subj data w)"

definition PublishAsync :: "'w nats_api \<Rightarrow> NatsConnection \<Rightarrow> string \<Rightarrow> bytes \<Rightarrow> 'w \<Rightarrow> nerr option \<times> 'w" where
  "PublishAsync N s subj data w =
     (if \<not> useStream s then Publish N s subj data w else n_jsPublishAsync N (js_of s) subj data w)"

section \<open>Subscriptions\<close>

text \<open>A handler is known by its number; \<open>None\<close> is a nil function.\<close>

definition StartSubscription ::
  "'w nats_api \<Rightarrow> (nerr \<Rightarrow> bool) \<Rightarrow> NatsConnection \<Rightarrow> string \<Rightarrow> string \<Rightarrow> nat option \<Rightarrow> 'w \<Rightarrow>
   nerr option \<times> NatsConnection \<times> 'w" where
  "StartSubscription N not_found s subj durableName handler w =
     (case handler of
        None \<Rightarrow> (Some ErrInvalidSubscribe, s, w)
      | Some hd' \<Rightarrow>
          if subj = [] then (Some ErrInvalidSubscribe, s, w)
          else
            (let s1 = s\<lparr>handlers := (handlers s)(subj \<mapsto> hd')\<rparr>
             in if useStream s then
                  (case AddConsumer N not_found s1 (cfg_StreamName (config s1)) durableName [subj] w of
                     (Some err, w1) \<Rightarrow> (Some err, s1, w1)
                   | (None, w1) \<Rightarrow>
                       (case n_pullSubscribe N (js_of s1) subj durableName (cfg_StreamName (config s1)) w1 of
                          (Inl err, w2) \<Rightarrow> (Some err, s1, w2)
                        | (Inr i, w2) \<Rightarrow> (None, s1\<lparr>subject := subject s1 @ [\<lparr>sub_id = i, sub_Subject = subj\<rparr>]\<rparr>, w2)))
                else
                  (case n_queueSubscribe N (conn s1) subj durableName w of
                     (Inl err, w1) \<Rightarrow> (Some err, s1, w1)
                   | (Inr i, w1) \<Rightarrow> (None, s1\<lparr>subject := subject s1 @ [\<lparr>sub_id = i, sub_Subject = subj\<rparr>]\<rparr>, w1))))"

text \<open>
  One fetched batch in the goroutine of a JetStream subscription. The handler returns or panics (a
  panic is recovered by the goroutine's deferred function, which ends the goroutine). The result
  is what was done, in order, and whether the goroutine goes on.
\<close>

record msg =
  m_id :: nat
  m_Subject :: string

datatype fetch_event = Handled (ev_msg: msg) | Acked (ev_msg: msg)

fun fetch_batch :: "string \<Rightarrow> (msg \<Rightarrow> bool) \<Rightarrow> msg list \<Rightarrow> fetch_event list \<times> bool" where
  "fetch_batch subj panics [] = ([], True)"
| "fetch_batch subj panics (m # ms) =
     (if m_Subject m = subj then
        if panics m then ([Handled m], False)
        else (case fetch_batch subj panics ms of (evs, alive) \<Rightarrow> (Handled m # Acked m # evs, alive))
      else fetch_batch subj panics ms)"

text \<open>
  The goroutine's loop, one entry per iteration: the context was done at the check, \<^verbatim>\<open>Fetch\<close> failed
  (after a pause the loop goes on, whatever the error), or it returned a batch.
\<close>

datatype fetch_round = CtxDone | FetchErr nerr | Batch "msg list"

fun fetch_loop :: "string \<Rightarrow> (msg \<Rightarrow> bool) \<Rightarrow> fetch_round list \<Rightarrow> fetch_event list \<times> bool" where
  "fetch_loop subj panics [] = ([], True)"
| "fetch_loop subj panics (CtxDone # rs) = ([], False)"
| "fetch_loop subj panics (FetchErr err # rs) = fetch_loop subj panics rs"
| "fetch_loop subj panics (Batch ms # rs) =
     (case fetch_batch subj panics ms of
        (evs, False) \<Rightarrow> (evs, False)
      | (evs, True) \<Rightarrow> (case fetch_loop subj panics rs of (evs', alive) \<Rightarrow> (evs @ evs', alive)))"

text \<open>The goroutine of a plain subscription: messages are handled until the handler panics.\<close>

fun chan_messages :: "(msg \<Rightarrow> bool) \<Rightarrow> msg option list \<Rightarrow> fetch_event list \<times> bool" where
  "chan_messages panics [] = ([], True)"
| "chan_messages panics (None # ms) = chan_messages panics ms"
| "chan_messages panics (Some m # ms) =
     (if panics m then ([Handled m], False)
      else (case chan_messages panics ms of (evs, alive) \<Rightarrow> (Handled m # evs, alive)))"

fun stop_subscription_loop ::
  "'w nats_api \<Rightarrow> string \<Rightarrow> subscription list \<Rightarrow> subscription list \<Rightarrow> 'w \<Rightarrow> nerr option \<times> subscription list \<times> 'w" where
  "stop_subscription_loop N subj before [] w = (Some ErrSubjectNotFound, rev before, w)"
| "stop_subscription_loop N subj before (sub # subs) w =
     (if sub_Subject sub = subj then
        (case n_unsubscribe N (sub_id sub) w of
           (Some err, w1) \<Rightarrow> (Some err, rev before @ sub # subs, w1)
         | (None, w1) \<Rightarrow> (None, rev before @ subs, w1))
      else stop_subscription_loop N subj (sub # before) subs w)"

definition StopSubscription :: "'w nats_api \<Rightarrow> NatsConnection \<Rightarrow> string \<Rightarrow> 'w \<Rightarrow> nerr option \<times> NatsConnection \<times> 'w" where
  "StopSubscription N s subj w =
     (case stop_subscription_loop N subj [] (subject s) w of (e, subs, w') \<Rightarrow> (e, s\<lparr>subject := subs\<rparr>, w'))"

fun unsubscribe_all :: "'w nats_api \<Rightarrow> subscription list \<Rightarrow> 'w \<Rightarrow> nerr option \<times> 'w" where
  "unsubscribe_all N [] w = (None, w)"
| "unsubscribe_all N (sub # subs) w =
     (case n_unsubscribe N (sub_id sub) w of
        (Some err, w1) \<Rightarrow> (Some err, w1)
      | (None, w1) \<Rightarrow> unsubscribe_all N subs w1)"

definition StopAllSubscriptions :: "'w nats_api \<Rightarrow> NatsConnection \<Rightarrow> 'w \<Rightarrow> nerr option \<times> NatsConnection \<times> 'w" where
  "StopAllSubscriptions N s w =
     (case unsubscribe_all N (subject s) w of
        (Some err, w1) \<Rightarrow> (Some err, s, w1)
      | (None, w1) \<Rightarrow> (None, s\<lparr>subject := []\<rparr>, w1))"

section \<open>The connection manager\<close>

definition addClient ::
  "'w nats_api \<Rightarrow> string \<Rightarrow> NatsConfig option \<Rightarrow> (string \<rightharpoonup> NatsConnection) \<Rightarrow> 'w \<Rightarrow>
   (nerr, string \<rightharpoonup> NatsConnection) outcome \<times> 'w" where
  "addClient N key cfg cl w =
     (if cl key \<noteq> None then (Returns cl, w)
      else case NewNatsConnect N key cfg w of
             (Panics e, w1) \<Rightarrow> (Panics e, w1)
           | (Returns nc, w1) \<Rightarrow> (Returns (cl(key \<mapsto> nc)), w1))"

text \<open>
  The package variable \<^verbatim>\<open>managerConfig\<close> is what \<^verbatim>\<open>Init\<close> decoded; an entry is a pointer, nil (\<open>None\<close>) for a
  JSON null. \<^verbatim>\<open>unmarshal\<close> answers what it left in the variable and its error.
\<close>

definition Nats_Init ::
  "(bytes \<Rightarrow> NatsConfig option list \<Rightarrow> NatsConfig option list \<times> string option) \<Rightarrow> bytes \<Rightarrow> NatsConfig option list \<Rightarrow>
   (string, unit) outcome \<times> NatsConfig option list" where
  "Nats_Init unmarshal cfg managerConfig =
     (case unmarshal cfg managerConfig of
        (mc, Some err) \<Rightarrow> (Panics err, mc)
      | (mc, None) \<Rightarrow> (Returns (), mc))"

text \<open>The clients are filled in one by one, and stay in the manager when a later one panics.\<close>

fun add_configured ::
  "'w nats_api \<Rightarrow> NatsConfig option list \<Rightarrow> (string \<rightharpoonup> NatsConnection) \<Rightarrow> 'w \<Rightarrow>
   nerr option \<times> (string \<rightharpoonup> NatsConnection) \<times> 'w" where
  "add_configured N [] cl w = (None, cl, w)"
| "add_configured N (None # cfgs) cl w = (Some (ErrNats ''nil pointer''), cl, w)"
| "add_configured N (Some cfg # cfgs) cl w =
     (case addClient N (cfg_Name cfg) (Some cfg) cl w of
        (Panics e, w1) \<Rightarrow> (Some e, cl, w1)
      | (Returns cl1, w1) \<Rightarrow> add_configured N cfgs cl1 w1)"

text \<open>
  \<^verbatim>\<open>GetNatsManager\<close>: the first call builds the manager; \<open>None\<close> is the variable before that. The variable
  is set before the clients are added, and \<^verbatim>\<open>sync.Once\<close> counts a call that panicked as done.
\<close>

definition GetNatsManager ::
  "'w nats_api \<Rightarrow> NatsConfig option list \<Rightarrow> (string \<rightharpoonup> NatsConnection) option \<Rightarrow> 'w \<Rightarrow>
   (nerr, string \<rightharpoonup> NatsConnection) outcome \<times> (string \<rightharpoonup> NatsConnection) option \<times> 'w" where
  "GetNatsManager N managerConfig manager w =
     (case manager of
        Some m \<Rightarrow> (Returns m, manager, w)
      | None \<Rightarrow>
          (case add_configured N managerConfig Map.empty w of
             (Some e, cl, w1) \<Rightarrow> (Panics e, Some cl, w1)
           | (None, cl, w1) \<Rightarrow> (Returns cl, Some cl, w1)))"

text \<open>
  The manager's goroutines at its \<^verbatim>\<open>RWMutex\<close>. A call of \<^verbatim>\<open>StartAll\<close> takes the read lock and runs the
  clients' \<^verbatim>\<open>Start\<close> one after the other, in an order the runtime chooses; \<open>starting\<close> holds, for every
  such call in progress, the client it is in, whether that client's \<^verbatim>\<open>Start\<close> has reached its loop, and
  the clients that remain. A call of \<^verbatim>\<open>CloseAll\<close> waits for the write lock (\<open>waiting\<close> counts the waiting
  calls), which is granted when no reader is in, and a waiting writer keeps new readers out. A
  client's \<^verbatim>\<open>Start\<close> first makes sure that the stream exists; when it cannot be created, \<^verbatim>\<open>Start\<close> panics,
  and the panic passes through \<^verbatim>\<open>StartAll\<close>, whose deferred \<^verbatim>\<open>RUnlock\<close> gives the lock back (a caller
  that recovers goes on from there). From its loop it returns when the client's context is done,
  that is, after \<^verbatim>\<open>Stop\<close> was called on it.
\<close>

record NatsConnManager =
  clients :: "string list"
  client_done :: "string list"
  starting :: "(string \<times> bool \<times> string list) list"
  waiting :: nat

datatype manager_event =
    StartAllCall "string list"
  | StartLoops nat
  | StartPanics nat
  | StartReturns nat
  | CloseAllCall
  | CloseAllEnter
  | GetClientCall string
  | ClientStopCall string

definition StartAll :: "string list \<Rightarrow> NatsConnManager \<Rightarrow> NatsConnManager option" where
  "StartAll order m =
     (if waiting m > 0 \<or> set order \<noteq> set (clients m) \<or> \<not> distinct order then None
      else case order of
             [] \<Rightarrow> Some m
           | k # ks \<Rightarrow> Some (m\<lparr>starting := starting m @ [(k, False, ks)]\<rparr>))"

definition start_loops :: "nat \<Rightarrow> NatsConnManager \<Rightarrow> NatsConnManager option" where
  "start_loops i m =
     (if i < length (starting m) then
        (case starting m ! i of
           (k, False, ks) \<Rightarrow> Some (m\<lparr>starting := (starting m)[i := (k, True, ks)]\<rparr>)
         | (k, True, ks) \<Rightarrow> None)
      else None)"

definition start_panics :: "nat \<Rightarrow> NatsConnManager \<Rightarrow> NatsConnManager option" where
  "start_panics i m =
     (if i < length (starting m) \<and> \<not> fst (snd (starting m ! i)) then
        Some (m\<lparr>starting := take i (starting m) @ drop (Suc i) (starting m)\<rparr>)
      else None)"

definition start_returns :: "nat \<Rightarrow> NatsConnManager \<Rightarrow> NatsConnManager option" where
  "start_returns i m =
     (if i < length (starting m) \<and> fst (snd (starting m ! i)) \<and> fst (starting m ! i) \<in> set (client_done m) then
        Some (m\<lparr>starting :=
          (case snd (snd (starting m ! i)) of
             [] \<Rightarrow> take i (starting m) @ drop (Suc i) (starting m)
           | k # ks \<Rightarrow> (starting m)[i := (k, False, ks)])\<rparr>)
      else None)"

text \<open>\<^verbatim>\<open>CloseAll\<close> with the write lock: every client is stopped and taken out of the map.\<close>

definition CloseAll :: "NatsConnManager \<Rightarrow> NatsConnManager option" where
  "CloseAll m =
     (if waiting m > 0 \<and> starting m = []
      then Some (m\<lparr>waiting := waiting m - 1, client_done := clients m @ client_done m, clients := []\<rparr>)
      else None)"

definition GetClient :: "string \<Rightarrow> NatsConnManager \<Rightarrow> bool option" where
  "GetClient key m = (if waiting m > 0 then None else Some (key \<in> set (clients m)))"

fun manager_step :: "manager_event \<Rightarrow> NatsConnManager \<Rightarrow> NatsConnManager option" where
  "manager_step (StartAllCall order) m = StartAll order m"
| "manager_step (StartLoops i) m = start_loops i m"
| "manager_step (StartPanics i) m = start_panics i m"
| "manager_step (StartReturns i) m = start_returns i m"
| "manager_step CloseAllCall m = Some (m\<lparr>waiting := waiting m + 1\<rparr>)"
| "manager_step CloseAllEnter m = CloseAll m"
| "manager_step (GetClientCall k) m = (if GetClient k m = None then None else Some m)"
| "manager_step (ClientStopCall k) m = Some (m\<lparr>client_done := k # client_done m\<rparr>)"

section \<open>Delivery\<close>

lemma fetch_batch_spec:
  "fetch_batch subj panics ms =
     (let mine = filter (\<lambda>m. m_Subject m = subj) ms;
          bad = dropWhile (\<lambda>m. \<not> panics m) mine
      in (concat (map (\<lambda>m. [Handled m, Acked m]) (takeWhile (\<lambda>m. \<not> panics m) mine)) @
            (case bad of [] \<Rightarrow> [] | b # _ \<Rightarrow> [Handled b]),
          bad = []))"
  by (induction ms) (simp_all add: Let_def split: list.split)

lemma dropWhile_Nil_takeWhile: "dropWhile P xs = [] \<longleftrightarrow> takeWhile P xs = xs"
  by (metis append_Nil2 append_self_conv takeWhile_dropWhile_id)

fun delivered :: "fetch_round list \<Rightarrow> msg list" where
  "delivered [] = []"
| "delivered (CtxDone # rs) = []"
| "delivered (FetchErr err # rs) = delivered rs"
| "delivered (Batch ms # rs) = ms @ delivered rs"

lemma takeWhile_append_all: "takeWhile P xs = xs \<Longrightarrow> takeWhile P (xs @ ys) = xs @ takeWhile P ys"
  by (metis takeWhile_append2 takeWhile_eq_all_conv)

lemma dropWhile_append_all: "dropWhile P xs = [] \<Longrightarrow> dropWhile P (xs @ ys) = dropWhile P ys"
  by (metis dropWhile_append2 dropWhile_eq_Nil_conv)

lemma fetch_loop_spec:
  "fetch_loop subj panics rs =
     (let mine = filter (\<lambda>m. m_Subject m = subj) (delivered rs);
          ok = takeWhile (\<lambda>m. \<not> panics m) mine;
          bad = dropWhile (\<lambda>m. \<not> panics m) mine
      in (concat (map (\<lambda>m. [Handled m, Acked m]) ok) @
            (case bad of [] \<Rightarrow> [] | b # _ \<Rightarrow> [Handled b]),
          bad = [] \<and> CtxDone \<notin> set rs))"
proof (induction rs)
  case (Cons r rs)
  show ?case
  proof (cases r)
    case (Batch ms)
    let ?mine = "filter (\<lambda>m. m_Subject m = subj) ms"
    show ?thesis
    proof (cases "dropWhile (\<lambda>m. \<not> panics m) ?mine")
      case Nil
      have mine: "takeWhile (\<lambda>m. \<not> panics m) ?mine = ?mine"
        using Nil dropWhile_Nil_takeWhile by blast
      show ?thesis
        using Batch by (simp add: mine Nil Cons fetch_batch_spec Let_def takeWhile_append_all dropWhile_append_all
            del: dropWhile_eq_Nil_conv takeWhile_eq_all_conv)
    next
      case bad: (Cons b bs)
      obtain x where "x \<in> set ?mine" "\<not> \<not> panics x"
        using bad dropWhile_eq_Nil_conv by (metis list.distinct(1))
      then have "takeWhile (\<lambda>m. \<not> panics m) (?mine @ zs) = takeWhile (\<lambda>m. \<not> panics m) ?mine"
        and "dropWhile (\<lambda>m. \<not> panics m) (?mine @ zs) = dropWhile (\<lambda>m. \<not> panics m) ?mine @ zs" for zs
        using takeWhile_append1 dropWhile_append1 by metis+
      then show ?thesis
        using Batch by (simp add: bad fetch_batch_spec Let_def del: dropWhile_eq_Nil_conv)
    qed
  qed (simp_all add: Cons)
qed simp

text \<open>
  Messages of another subject are not acknowledged, although the comment in the source says they
  must be; they are delivered again.
\<close>

lemma foreign_not_acked: "m_Subject m \<noteq> subj \<Longrightarrow> Acked m \<notin> set (fst (fetch_loop subj panics rs))"
  unfolding fetch_loop_spec Let_def by (auto dest!: set_takeWhileD split: list.splits)

lemma handled_own:
  "\<forall>m \<in> set ok. m_Subject m = subj \<Longrightarrow> \<forall>m \<in> set bad. m_Subject m = subj \<Longrightarrow>
   \<forall>ev \<in> set (concat (map (\<lambda>m. [Handled m, Acked m]) ok) @ (case bad of [] \<Rightarrow> [] | b # _ \<Rightarrow> [Handled b])).
     m_Subject (ev_msg ev) = subj"
  by (cases bad) auto

lemma own_events:
  "\<forall>ev \<in> set evs. m_Subject (ev_msg ev) = subj \<Longrightarrow>
   filter (\<lambda>ev. m_Subject (ev_msg ev) = subj) evs = evs \<and>
   list_all (\<lambda>ev. case ev of Handled m \<Rightarrow> m_Subject m = subj | Acked m \<Rightarrow> True) evs"
  by (induction evs) (auto split: fetch_event.split)

text \<open>
  C13. At-least-once delivery over the whole life of a JetStream subscription's goroutine. What it
  does with the messages of its own subject, among those it fetched before its context was done
  (failed fetches are skipped), is this: those up to and including the first one whose handler
  panics are handled, in order, and each is acknowledged right after its handler returned and
  before the next is handled, so none is acknowledged unhandled and the one whose handler panicked
  is not acknowledged. No message of another subject is handled. The goroutine goes on exactly when
  no handler panicked and the context was not done.
\<close>

theorem fetch_loop_delivery:
  "(let mine = filter (\<lambda>m. m_Subject m = subj) (delivered rs);
        ok = takeWhile (\<lambda>m. \<not> panics m) mine;
        bad = dropWhile (\<lambda>m. \<not> panics m) mine
    in filter (\<lambda>ev. m_Subject (ev_msg ev) = subj) (fst (fetch_loop subj panics rs)) =
         concat (map (\<lambda>m. [Handled m, Acked m]) ok) @ (case bad of [] \<Rightarrow> [] | b # _ \<Rightarrow> [Handled b]) \<and>
       list_all (\<lambda>ev. case ev of Handled m \<Rightarrow> m_Subject m = subj | Acked m \<Rightarrow> True) (fst (fetch_loop subj panics rs)) \<and>
       (snd (fetch_loop subj panics rs) \<longleftrightarrow> bad = [] \<and> CtxDone \<notin> set rs))"
proof -
  let ?mine = "filter (\<lambda>m. m_Subject m = subj) (delivered rs)"
  let ?ok = "takeWhile (\<lambda>m. \<not> panics m) ?mine" and ?bad = "dropWhile (\<lambda>m. \<not> panics m) ?mine"
  have own: "\<forall>m \<in> set ?ok. m_Subject m = subj" "\<forall>m \<in> set ?bad. m_Subject m = subj"
    by (auto dest: set_takeWhileD set_dropWhileD)
  from own_events [OF handled_own [OF own]] show ?thesis unfolding fetch_loop_spec Let_def fst_conv snd_conv by blast
qed

text \<open>
  \<^verbatim>\<open>StopSubscription\<close> unsubscribes the first subscription of the subject and takes exactly it out of
  the list; on an error, and for an unknown subject, the list stays.
\<close>

lemma stop_subscription_loop_spec:
  "stop_subscription_loop N subj before subs w =
     (case dropWhile (\<lambda>x. sub_Subject x \<noteq> subj) subs of
        [] \<Rightarrow> (Some ErrSubjectNotFound, rev before @ subs, w)
      | x # rest \<Rightarrow>
          (case n_unsubscribe N (sub_id x) w of
             (Some err, w1) \<Rightarrow> (Some err, rev before @ subs, w1)
           | (None, w1) \<Rightarrow> (None, rev before @ takeWhile (\<lambda>x. sub_Subject x \<noteq> subj) subs @ rest, w1)))"
proof (induction subs arbitrary: before)
  case (Cons a subs)
  show ?case
    by (cases "sub_Subject a = subj") (simp_all add: Cons del: dropWhile_eq_Nil_conv split: list.split prod.split option.split)
qed simp

text \<open>
  \<^verbatim>\<open>StopAllSubscriptions\<close> cannot be repeated after a failure: the subscriptions that were already
  taken down stay in the list, and unsubscribing one again fails.
\<close>

lemma stop_all_not_resumable:
  assumes "subject s = a # b # rest" and "n_unsubscribe N (sub_id a) w = (None, w1)"
    and "n_unsubscribe N (sub_id b) w1 = (Some err, w2)"
    and "\<exists>e w3. n_unsubscribe N (sub_id a) w2 = (Some e, w3)"
  shows "StopAllSubscriptions N s w = (Some err, s, w2) \<and> (\<exists>e w3. StopAllSubscriptions N s w2 = (Some e, s, w3))"
  using assms by (auto simp: StopAllSubscriptions_def)

section \<open>The manager's lock\<close>

definition blocked_in :: "string \<times> bool \<times> string list \<Rightarrow> NatsConnManager \<Rightarrow> bool" where
  "blocked_in c m \<longleftrightarrow> c \<in> set (starting m) \<and> fst (snd c) \<and> fst c \<notin> set (client_done m)"

text \<open>The steps in which nobody calls \<^verbatim>\<open>Stop\<close> on the client.\<close>

definition hands_off :: "string \<Rightarrow> manager_event \<Rightarrow> NatsConnManager \<Rightarrow> NatsConnManager option" where
  "hands_off k e m = (if e = ClientStopCall k then None else manager_step e m)"

lemma set_take_drop_update:
  assumes "c \<in> set xs" "c \<noteq> xs ! i" "i < length xs"
  shows "c \<in> set (take i xs @ drop (Suc i) xs)" and "c \<in> set (xs[i := y])"
proof -
  obtain j where j: "j < length xs" "xs ! j = c" using assms(1) by (auto simp: in_set_conv_nth)
  then have "j \<noteq> i" using assms by auto
  then show "c \<in> set (xs[i := y])" using j by (metis length_list_update nth_list_update_neq nth_mem)
  have "xs = take i xs @ xs ! i # drop (Suc i) xs" using assms(3) by (rule id_take_nth_drop)
  then have "c \<in> set (take i xs @ xs ! i # drop (Suc i) xs)" using assms(1) by simp
  then show "c \<in> set (take i xs @ drop (Suc i) xs)" using assms(2) by auto
qed

lemma start_steps_keep_blocked:
  assumes "blocked_in c m"
    and "start_returns i m = Some t \<or> start_panics i m = Some t \<or> start_loops i m = Some t"
  shows "blocked_in c t"
proof -
  have "i < length (starting m)" "c \<noteq> starting m ! i"
    using assms by (auto simp: blocked_in_def start_returns_def start_panics_def start_loops_def split: if_splits bool.splits prod.splits)
  note set_take_drop_update [OF _ this(2,1)]
  then show ?thesis
    using assms by (auto simp: blocked_in_def start_returns_def start_panics_def start_loops_def
        simp del: set_append split: if_splits list.splits prod.splits bool.splits)
qed

lemma hands_off_keeps_blocked:
  assumes "blocked_in c m" and "hands_off (fst c) e m = Some t" shows "blocked_in c t"
proof (cases "\<exists>i. e = StartReturns i \<or> e = StartPanics i \<or> e = StartLoops i")
  case True
  then show ?thesis using assms(2) by (auto simp: hands_off_def intro: start_steps_keep_blocked [OF assms(1)])
next
  case False
  then show ?thesis using assms
    by (cases e) (auto simp: hands_off_def blocked_in_def StartAll_def CloseAll_def split: if_splits list.splits)
qed

interpretation start_blocked: event_invariant "hands_off (fst c)" "blocked_in c" for c
  by unfold_locales (rule hands_off_keeps_blocked)

interpretation writer_blocked: event_invariant "hands_off (fst c)" "\<lambda>m. blocked_in c m \<and> waiting m > 0" for c
proof unfold_locales
  fix m e t assume *: "blocked_in c m \<and> waiting m > 0" "hands_off (fst c) e m = Some t"
  then have "waiting t > 0"
    by (cases e) (auto simp: hands_off_def blocked_in_def StartAll_def CloseAll_def start_returns_def start_panics_def start_loops_def
        split: if_splits list.splits prod.splits bool.splits)
  then show "blocked_in c t \<and> waiting t > 0" using * hands_off_keeps_blocked by blast
qed

text \<open>
  C36. \<^verbatim>\<open>StartAll\<close> and \<^verbatim>\<open>CloseAll\<close> block each other. While a call of \<^verbatim>\<open>StartAll\<close> is in the loop of the
  \<^verbatim>\<open>Start\<close> of a client \<open>k\<close> (its stream exists, so this \<^verbatim>\<open>Start\<close> does not panic any more) whose context
  is not done, then in every run in which nobody stops \<open>k\<close> by itself that call stays there, whatever
  other calls do or panic, so the remaining clients are never started by it and \<^verbatim>\<open>CloseAll\<close>, which
  alone would stop \<open>k\<close>, never gets the lock; and once \<^verbatim>\<open>CloseAll\<close> was called, \<^verbatim>\<open>GetClient\<close> and
  \<^verbatim>\<open>StartAll\<close> block as well.
\<close>

theorem start_all_blocks_close:
  assumes "(k, True, ks) \<in> set (starting m)" and "k \<notin> set (client_done m)"
    and "run_events (hands_off k) es m = Some t"
  shows "(k, True, ks) \<in> set (starting t) \<and> manager_step CloseAllEnter t = None \<and>
    (waiting m > 0 \<longrightarrow> manager_step (GetClientCall key) t = None \<and> manager_step (StartAllCall order) t = None)"
proof -
  have b: "blocked_in (k, True, ks) m" using assms by (simp add: blocked_in_def)
  have r: "run_events (hands_off (fst (k, True, ks))) es m = Some t" using assms by simp
  have s: "(k, True, ks) \<in> set (starting t)" using start_blocked.run_keeps [OF b r] by (simp add: blocked_in_def)
  moreover have "manager_step CloseAllEnter t = None" using s by (auto simp: CloseAll_def)
  moreover have "manager_step (GetClientCall key) t = None \<and> manager_step (StartAllCall order) t = None" if "waiting m > 0"
    using writer_blocked.run_keeps [OF _ r] b that by (simp add: GetClient_def StartAll_def)
  ultimately show ?thesis by blast
qed

theorem start_all_blocks_close_witness:
  "\<exists>t. run_events (hands_off ''a'') [CloseAllCall, StartLoops 1, ClientStopCall ''b'', StartReturns 1, StartPanics 1]
       \<lparr>clients = [''a'', ''b''], client_done = [], starting = [(''a'', True, [''b'']), (''b'', False, [''a''])], waiting = 1\<rparr> = Some t \<and>
     (''a'', True, [''b'']) \<in> set (starting t) \<and> manager_step CloseAllEnter t = None \<and>
     manager_step (GetClientCall ''a'') t = None"
proof -
  let ?m = "\<lparr>clients = [''a'', ''b''], client_done = [], starting = [(''a'', True, [''b'']), (''b'', False, [''a''])], waiting = 1\<rparr>"
  obtain t where "run_events (hands_off ''a'') [CloseAllCall, StartLoops 1, ClientStopCall ''b'', StartReturns 1, StartPanics 1] ?m = Some t"
    by (simp add: hands_off_def start_returns_def start_loops_def start_panics_def)
  with start_all_blocks_close [OF _ _ this, of "[''b'']"] show ?thesis by auto
qed

section \<open>Reconnections\<close>

text \<open>A reconnection was reported after the loop last dealt with one.\<close>

definition unhandled :: "conn_event list \<Rightarrow> bool" where
  "unhandled es \<longleftrightarrow> Reconnected \<in> set (takeWhile (\<lambda>e. e \<noteq> LoopReconnect) (rev es))"

definition count_events :: "conn_event \<Rightarrow> conn_event list \<Rightarrow> nat" where
  "count_events e es = length (filter ((=) e) es)"

lemma Start_step_returned:
  "Start_step N e s = Some t \<Longrightarrow> st_returned t = (st_returned s \<or> e = LoopDone) \<and> (e = LoopDone \<longrightarrow> ctx_done (st_conn s))"
  by (cases e) (auto split: if_splits prod.splits)

lemma Start_step_ctx:
  "Start_step N e s = Some t \<Longrightarrow> ctx_done (st_conn t) = (ctx_done (st_conn s) \<or> e = StopCall)"
  by (cases e) (auto simp: on_reconnect_def Stop_def Let_def split: if_splits prod.splits sum.splits)

lemma Start_step_signal:
  "Start_step N e s = Some t \<Longrightarrow>
     reconnectChan t = (e = Reconnected \<or> e \<noteq> LoopReconnect \<and> reconnectChan s) \<and> (e = LoopReconnect \<longrightarrow> reconnectChan s)"
  by (cases e) (auto split: if_splits prod.splits)

lemma Start_run:
  assumes "run_events (Start_step N) es s = Some t"
    and "\<not> reconnectChan s" "\<not> ctx_done (st_conn s)" "\<not> st_returned s"
  shows "reconnectChan t = unhandled es \<and> ctx_done (st_conn t) = (StopCall \<in> set es) \<and>
     (st_returned t \<longrightarrow> StopCall \<in> set es) \<and>
     count_events LoopReconnect es + (if reconnectChan t then 1 else 0) \<le> count_events Reconnected es"
  using assms(1)
proof (induction es arbitrary: t rule: rev_induct)
  case Nil
  then show ?case using assms by (auto simp: unhandled_def count_events_def)
next
  case (snoc e es)
  then obtain u where u: "run_events (Start_step N) es s = Some u" "Start_step N e u = Some t"
    by (auto simp: run_events_append split: option.splits)
  show ?case
    using snoc.IH [OF u(1)] Start_step_returned [OF u(2)] Start_step_ctx [OF u(2)] Start_step_signal [OF u(2)]
    by (cases e) (auto simp: unhandled_def count_events_def split: if_splits)
qed

text \<open>
  C35. No reconnection is lost. In every run of \<^verbatim>\<open>Start\<close> on a connection that was not stopped: when the
  connection came back after the loop last dealt with that, the loop can do so, unless it has
  returned, and with JetStream in use it then works with the context the client library hands out
  for the connection, if it hands one out; several reports may be dealt with at once, but never
  more often than there were reports; and \<^verbatim>\<open>Start\<close> returns only after \<^verbatim>\<open>Stop\<close> was called.
\<close>

theorem reconnect_not_lost:
  assumes "Start N c w = Returns s" and "\<not> ctx_done c" and "run_events (Start_step N) es s = Some t"
  shows "(unhandled es \<and> \<not> st_returned t \<longrightarrow>
            (\<exists>t'. Start_step N LoopReconnect t = Some t' \<and>
               (useStream (st_conn t) \<longrightarrow>
                  (\<forall>j w1. n_jetStream N (conn (st_conn t)) (st_world t) = (Inr j, w1) \<longrightarrow> js (st_conn t') = Some j)))) \<and>
         count_events LoopReconnect es \<le> count_events Reconnected es \<and>
         (st_returned t \<longrightarrow> StopCall \<in> set es)"
proof -
  from assms(1,2) have "\<not> reconnectChan s" "\<not> st_returned s" "\<not> ctx_done (st_conn s)"
    by (auto simp: Start_def Start_init_def AddStream_def split: prod.splits outcome.splits if_splits option.splits)
  from Start_run [OF assms(3) this(1,3,2)] show ?thesis
    by (auto simp: on_reconnect_def Let_def split: prod.splits)
qed

text \<open>A server without streams; its world is the number of the next JetStream context.\<close>

definition demo_api :: "nat nats_api" where
  "demo_api = \<lparr>n_connect = (\<lambda>u opts w. (Inr 0, w)), n_jetStream = (\<lambda>c w. (Inr w, w + 1)),
     n_streamInfo = (\<lambda>j n w. ((None, Some (ErrNats ''no stream'')), w)), n_addStream = (\<lambda>j cfg w. ((Some 5, None), w)),
     n_consumerInfo = (\<lambda>j st d w. ((None, None), w)), n_addConsumer = (\<lambda>j st cfg w. (None, w)),
     n_pullSubscribe = (\<lambda>j su d st w. (Inr 0, w)), n_queueSubscribe = (\<lambda>c su q w. (Inr 0, w)),
     n_unsubscribe = (\<lambda>i w. (None, w)), n_publish = (\<lambda>c su b w. (None, w)), n_jsPublish = (\<lambda>c su b w. (None, w)),
     n_jsPublishAsync = (\<lambda>c su b w. (None, w)), n_isConnected = (\<lambda>c w. True), n_close = (\<lambda>c w. w)\<rparr>"

definition demo_config :: NatsConfig where
  "demo_config = \<lparr>cfg_Name = ''main'', cfg_Url = ''nats://h'', cfg_UseStream = True, cfg_StreamName = ''orders'',
     cfg_Type = [], cfg_Subject = [''o''], cfg_Username = [], cfg_Password = []\<rparr>"

theorem reconnect_not_lost_witness:
  "\<exists>c s t t'. NewNatsConnect demo_api ''main'' (Some demo_config) 1 = (Returns c, 2) \<and> Start demo_api c 2 = Returns s \<and>
     run_events (Start_step demo_api) [Reconnected, LoopReconnect, Disconnected, Reconnected, Reconnected] s = Some t \<and>
     Start_step demo_api LoopReconnect t = Some t' \<and> js (st_conn t) = Some 2 \<and> js (st_conn t') = Some 3"
proof -
  let ?es = "[Reconnected, LoopReconnect, Disconnected, Reconnected, Reconnected]"
  obtain c where c: "NewNatsConnect demo_api ''main'' (Some demo_config) 1 = (Returns c, 2)" "\<not> ctx_done c"
    "useStream c" "conn c = 0" "js c = Some 1"
    by (simp add: NewNatsConnect_def demo_api_def demo_config_def)
  obtain s where s: "Start demo_api c 2 = Returns s" "useStream (st_conn s)" "conn (st_conn s) = 0" "st_world s = 2"
    "\<not> st_returned s"
    using c by (simp add: Start_def Start_init_def AddStream_def demo_api_def)
  obtain t where t: "run_events (Start_step demo_api) ?es s = Some t" "useStream (st_conn t)" "conn (st_conn t) = 0"
    "st_world t = 3" "\<not> st_returned t" "js (st_conn t) = Some 2"
    using s by (simp add: on_reconnect_def EnsureStream_def demo_api_def)
  have "unhandled ?es" by (simp add: unhandled_def)
  moreover have "n_jetStream demo_api (conn (st_conn t)) (st_world t) = (Inr 3, 4)"
    using t by (simp add: demo_api_def)
  ultimately show ?thesis
    using reconnect_not_lost [OF s(1) c(2) t(1)] c(1) s(1) t by blast
qed

section \<open>A manager that failed to start\<close>

lemma addClient_dom:
  "addClient N k cfg cl w = (Returns cl1, w1) \<Longrightarrow> dom cl1 = insert k (dom cl)"
  by (auto simp: addClient_def split: if_splits prod.splits outcome.splits)

lemma fails_at_first:
  "\<exists>pre bad rest. x # xs = pre @ bad # rest \<and> None \<notin> set pre \<and> D = D \<union> f ` set (map the pre)"
  by (rule exI [of _ "[]"]) simp

lemma add_configured_dom:
  "add_configured N cfgs cl w = (err, cl', w') \<Longrightarrow>
     (case err of
        None \<Rightarrow> None \<notin> set cfgs \<and> dom cl' = dom cl \<union> cfg_Name ` set (map the cfgs)
      | Some e \<Rightarrow> \<exists>pre bad rest. cfgs = pre @ bad # rest \<and> None \<notin> set pre \<and> dom cl' = dom cl \<union> cfg_Name ` set (map the pre))"
proof (induction N cfgs cl w arbitrary: err rule: add_configured.induct)
  case (1 N cl w)
  then show ?case by auto
next
  case (2 N cfgs cl w)
  then have "err \<noteq> None" "cl' = cl" by auto
  then show ?case using fails_at_first by auto
next
  case (3 N cfg cfgs cl w)
  show ?case
  proof (cases "addClient N (cfg_Name cfg) (Some cfg) cl w")
    case (Pair r w1)
    show ?thesis
    proof (cases r)
      case (Panics e)
      with 3 Pair have "err = Some e" "cl' = cl" by auto
      then show ?thesis using fails_at_first by simp
    next
      case (Returns cl1)
      with Pair have d: "dom cl1 = insert (cfg_Name cfg) (dom cl)" by (simp add: addClient_dom)
      from 3(2) Pair Returns have "add_configured N cfgs cl1 w1 = (err, cl', w')" by simp
      from 3(1) [OF Pair [symmetric] Returns this] d show ?thesis
      proof (cases err)
        case (Some e)
        with 3(1) [OF Pair [symmetric] Returns \<open>add_configured N cfgs cl1 w1 = (err, cl', w')\<close>] obtain pre bad rest
          where "cfgs = pre @ bad # rest" "None \<notin> set pre" "dom cl' = dom cl1 \<union> cfg_Name ` set (map the pre)" by auto
        then have "Some cfg # cfgs = (Some cfg # pre) @ bad # rest \<and> None \<notin> set (Some cfg # pre) \<and>
            dom cl' = dom cl \<union> cfg_Name ` set (map the (Some cfg # pre))" using d by auto
        then show ?thesis using Some by (simp only: option.case) blast
      qed auto
    qed
  qed
qed

text \<open>
  A panic of the first \<^verbatim>\<open>GetNatsManager\<close> is not repeated: a caller that recovers from it gets, from
  every later call, a manager that holds only the connections made before the failing entry.
\<close>

theorem manager_after_panic:
  assumes "GetNatsManager N cfgs None w = (Panics e, m, w1)"
  shows "\<exists>cl pre bad rest. cfgs = pre @ bad # rest \<and> None \<notin> set pre \<and> dom cl = cfg_Name ` set (map the pre) \<and>
     (\<forall>w'. GetNatsManager N cfgs m w' = (Returns cl, m, w'))"
proof -
  from assms obtain cl where "add_configured N cfgs Map.empty w = (Some e, cl, w1)" "m = Some cl"
    by (auto simp: GetNatsManager_def split: prod.splits option.splits)
  from add_configured_dom [OF this(1)] this(2) show ?thesis
    by (simp add: GetNatsManager_def)
qed

end
