(* ===== verification/Net_Utils.thy ===== *)
theory Net_Utils
  imports Prelude
begin

text \<open>
  \<^verbatim>\<open>utils/system.go\<close>, \<^verbatim>\<open>utils/http.go\<close> and \<^verbatim>\<open>utils/signal.go\<close>: the test for addresses of the inner
  network, on which the access check of the HTTP server rests, the remote address of a request, a
  request with retries, and the signal channels.

  \<^verbatim>\<open>net.ParseIP\<close> is modelled as far as the sources look at its result, which is whether it is nil:
  the IPv4 parser with its octets, the IPv6 parser as a predicate. The JSON and protobuf libraries
  and the HTTP transport are parameters.
\<close>

section \<open>Decoding helpers\<close>

text \<open>
  \<open>unmarshal\<close> stands for \<^verbatim>\<open>json.Unmarshal\<close>: it fills a value and may report an error, leaving the
  value filled as far as it came; \<open>zero\<close> is the zero value of the type.
\<close>

definition Bytes2Struct :: "(bytes \<Rightarrow> 'a \<Rightarrow> 'a \<times> 'e option) \<Rightarrow> 'a \<Rightarrow> bytes \<Rightarrow> 'a \<times> 'e option" where
  "Bytes2Struct unmarshal zero data =
     (case unmarshal data zero of
        (result, Some err) \<Rightarrow> (result, Some err)
      | (result, None) \<Rightarrow> (result, None))"

definition Struct2Bytes :: "('a \<Rightarrow> 'e + bytes) \<Rightarrow> 'a \<Rightarrow> bytes \<times> 'e option" where
  "Struct2Bytes marshal data =
     (case marshal data of Inl err \<Rightarrow> ([], Some err) | Inr bs \<Rightarrow> (bs, None))"

text \<open>The protobuf variants return a nil message (\<open>None\<close>) beside an error.\<close>

definition Bytes2ProtobufStruct :: "(bytes \<Rightarrow> 'a \<Rightarrow> 'a \<times> 'e option) \<Rightarrow> 'a \<Rightarrow> bytes \<Rightarrow> 'a option \<times> 'e option" where
  "Bytes2ProtobufStruct unmarshal fresh data =
     (case unmarshal data fresh of
        (_, Some err) \<Rightarrow> (None, Some err)
      | (newResult, None) \<Rightarrow> (Some newResult, None))"

definition ProtobufStruct2Bytes :: "('a \<Rightarrow> 'e + bytes) \<Rightarrow> 'a \<Rightarrow> bytes option \<times> 'e option" where
  "ProtobufStruct2Bytes marshal data =
     (case marshal data of Inl err \<Rightarrow> (None, Some err) | Inr bs \<Rightarrow> (Some bs, None))"

section \<open>Addresses\<close>

text \<open>
  \<^verbatim>\<open>netip.parseIPv4Fields\<close>: the value and the number of digits of the current octet, and the octets
  read so far (last first). A digit after a lone zero, a value above 255, an empty octet, a fifth
  octet and any other character are errors.
\<close>

fun ipv4_fields :: "string \<Rightarrow> nat \<Rightarrow> nat \<Rightarrow> nat list \<Rightarrow> nat list option" where
  "ipv4_fields [] val digLen fs = (if length fs < 3 then None else Some (rev (val # fs)))"
| "ipv4_fields (c # cs) val digLen fs =
     (case digit_val c of
        Some d \<Rightarrow>
          if digLen = 1 \<and> val = 0 then None
          else if val * 10 + d > 255 then None
          else ipv4_fields cs (val * 10 + d) (digLen + 1) fs
      | None \<Rightarrow>
          if c = CHR ''.'' then
            if digLen = 0 \<or> cs = [] then None
            else if length fs = 3 then None
            else ipv4_fields cs 0 0 (val # fs)
          else None)"

definition parseIPv4 :: "string \<Rightarrow> nat list option" where
  "parseIPv4 s = ipv4_fields s 0 0 []"

definition is_hex :: "char \<Rightarrow> bool" where
  "is_hex c = (digit_val c \<noteq> None \<or> c \<in> set ''abcdefABCDEF'')"

text \<open>The checks of \<^verbatim>\<open>netip.parseIPv6\<close> after its loop.\<close>

definition ipv6_final :: "nat \<Rightarrow> bool \<Rightarrow> string \<Rightarrow> bool" where
  "ipv6_final i ellipsis s = (s = [] \<and> (if i < 16 then ellipsis else \<not> ellipsis))"

text \<open>The loop of \<^verbatim>\<open>netip.parseIPv6\<close>: \<open>i\<close> bytes are filled, \<open>ellipsis\<close> tells whether \<open>::\<close> was seen.\<close>

function ipv6_loop :: "nat \<Rightarrow> bool \<Rightarrow> string \<Rightarrow> bool" where
  "ipv6_loop i ellipsis s =
     (if i \<ge> 16 then ipv6_final i ellipsis s
      else
        (let hs = takeWhile is_hex s; rest = dropWhile is_hex s
         in if hs = [] \<or> length hs > 4 then False
            else case rest of
                [] \<Rightarrow> ipv6_final (i + 2) ellipsis []
              | c # s1 \<Rightarrow>
                  if c = CHR ''.'' then
                    if \<not> ellipsis \<and> i \<noteq> 12 then False
                    else if i + 4 > 16 then False
                    else parseIPv4 s \<noteq> None \<and> ipv6_final (i + 4) ellipsis []
                  else if c \<noteq> CHR '':'' then False
                  else (case s1 of
                      [] \<Rightarrow> False
                    | d # s2 \<Rightarrow>
                        if d = CHR '':'' then
                          if ellipsis then False
                          else if s2 = [] then ipv6_final (i + 2) True []
                          else ipv6_loop (i + 2) True s2
                        else ipv6_loop (i + 2) ellipsis s1)))"
  by pat_completeness auto
termination by (relation "measure (\<lambda>(i, e, s). 16 - i)") auto

declare ipv6_loop.simps [simp del]

definition parseIPv6_ok :: "string \<Rightarrow> bool" where
  "parseIPv6_ok s =
     (if prefix ''::'' s then (drop 2 s = [] \<or> ipv6_loop 0 True (drop 2 s)) else ipv6_loop 0 False s)"

text \<open>
  \<^verbatim>\<open>net.ParseIP(s) != nil\<close>: the first of the three characters decides; an address with a zone
  (a percent sign) is refused by every branch.
\<close>

definition ParseIP_ok :: "string \<Rightarrow> bool" where
  "ParseIP_ok s =
     (case dropWhile (\<lambda>c. c \<noteq> CHR ''.'' \<and> c \<noteq> CHR '':'' \<and> c \<noteq> CHR ''%'') s of
        [] \<Rightarrow> False
      | c # _ \<Rightarrow>
          if c = CHR ''.'' then parseIPv4 s \<noteq> None
          else if c = CHR '':'' then CHR ''%'' \<notin> set s \<and> parseIPv6_ok s
          else False)"

definition CheckIp :: "string \<Rightarrow> bool" where
  "CheckIp ipStr = ParseIP_ok ipStr"

text \<open>\<^verbatim>\<open>int64\<close> arithmetic: the sum wraps around, \<^verbatim>\<open>>>\<close> is the arithmetic shift.\<close>

definition wrap64 :: "int \<Rightarrow> int" where
  "wrap64 i = signed_take_bit 63 i"

definition shr :: "int \<Rightarrow> nat \<Rightarrow> int" where
  "shr i n = i div 2 ^ n"

definition NetAton :: "string \<Rightarrow> int" where
  "NetAton ipStr =
     (let bits = strings_Split ipStr ''.''
      in if length bits \<noteq> 4 then 0
         else let b0 = fst (Atoi (bits ! 0)); b1 = fst (Atoi (bits ! 1));
                  b2 = fst (Atoi (bits ! 2)); b3 = fst (Atoi (bits ! 3))
              in wrap64 (wrap64 (wrap64 (wrap64 (0 + wrap64 (b0 * 2 ^ 24)) + wrap64 (b1 * 2 ^ 16)) + wrap64 (b2 * 2 ^ 8)) + b3))"

definition IsInnerIp :: "string \<Rightarrow> bool" where
  "IsInnerIp ipStr =
     (if \<not> CheckIp ipStr then False
      else let inputIpNum = NetAton ipStr;
               innerIpA = NetAton ''10.255.255.255'';
               innerIpB = NetAton ''172.16.255.255'';
               innerIpC = NetAton ''192.168.255.255'';
               innerIpD = NetAton ''100.64.255.255'';
               innerIpF = NetAton ''127.255.255.255''
           in shr inputIpNum 24 = shr innerIpA 24 \<or> shr inputIpNum 20 = shr innerIpB 20 \<or>
              shr inputIpNum 16 = shr innerIpC 16 \<or> shr inputIpNum 22 = shr innerIpD 22 \<or>
              shr inputIpNum 24 = shr innerIpF 24)"

section \<open>Requests\<close>

text \<open>Header lookup answers the empty string for a header that is not there.\<close>

definition GetRemoteAddr :: "(string \<Rightarrow> string) \<Rightarrow> string \<Rightarrow> string" where
  "GetRemoteAddr header remoteAddr =
     (let a = header ''X-Forwarded-For'';
          b = (if a = [] then header ''X-Real-IP'' else a)
      in if b = [] then remoteAddr else b)"

text \<open>
  What \<^verbatim>\<open>client.Do\<close> answers: a response (its status) with no error, an error with a nil response, or,
  when a redirect is refused, an error beside a response.
\<close>

datatype do_result = RespOk nat | RespErr string "nat option"

datatype http_error = AttemptsError nat string | AttemptsStatus nat nat

datatype http_panic = NilResponse

definition retry_count :: "int list \<Rightarrow> nat" where
  "retry_count retryCounts =
     (case retryCounts of r # _ \<Rightarrow> if r > 0 then nat r else 3 | [] \<Rightarrow> 3)"

text \<open>
  The loop: \<open>i\<close> attempts are left, \<open>lst\<close> is what the last attempt left in \<^verbatim>\<open>resp\<close> and \<^verbatim>\<open>err\<close>; the
  result carries how many attempts were made. \<open>reply k\<close> is the transport's answer to attempt \<open>k\<close>.
\<close>

fun perform_loop ::
  "(nat \<Rightarrow> do_result) \<Rightarrow> nat \<Rightarrow> nat \<Rightarrow> nat \<Rightarrow> do_result \<Rightarrow> (http_panic, http_error + nat) outcome \<times> nat" where
  "perform_loop reply n k 0 lst =
     (Returns (Inl (case lst of
        RespErr e _ \<Rightarrow> AttemptsError n e
      | RespOk st \<Rightarrow> AttemptsStatus n st)), k)"
| "perform_loop reply n k (Suc i) lst =
     (case reply k of
        RespOk st \<Rightarrow> if st = 200 then (Returns (Inr k), k + 1) else perform_loop reply n (k + 1) i (RespOk st)
      | RespErr e None \<Rightarrow> (Panics NilResponse, k + 1)
      | RespErr e (Some st) \<Rightarrow> perform_loop reply n (k + 1) i (RespErr e (Some st)))"

text \<open>
  The retry count is never 0, so the value that \<open>lst\<close> starts with is never looked at. The
  successful result is the number of the attempt whose response is returned.
\<close>

definition PerformHTTPRequest :: "(nat \<Rightarrow> do_result) \<Rightarrow> int list \<Rightarrow> (http_panic, http_error + nat) outcome \<times> nat" where
  "PerformHTTPRequest reply retryCounts =
     perform_loop reply (retry_count retryCounts) 0 (retry_count retryCounts) (RespOk 0)"

text \<open>\<open>get\<close> is \<^verbatim>\<open>http.Get\<close> with the body read to its end (the data read so far and an error, if any).\<close>

definition Download :: "(string \<Rightarrow> 'e + (bytes \<times> 'e option)) \<Rightarrow> string \<Rightarrow> bytes \<times> 'e option" where
  "Download get url = (case get url of Inl err \<Rightarrow> ([], Some err) | Inr r \<Rightarrow> r)"

section \<open>Signals\<close>

text \<open>
  The goroutine of \<^verbatim>\<open>MakeShutdownCh\<close>: the first signal closes the result channel and ends it. A state
  is whether the goroutine is still there and how often a receiver of the channel was woken up by
  a message, together with whether the channel is closed.
\<close>

record shutdown_ch =
  sh_alive :: bool
  sh_closed :: bool

definition MakeShutdownCh :: shutdown_ch where
  "MakeShutdownCh = \<lparr>sh_alive = True, sh_closed = False\<rparr>"

definition shutdown_signal :: "shutdown_ch \<Rightarrow> shutdown_ch" where
  "shutdown_signal c = (if sh_alive c then \<lparr>sh_alive = False, sh_closed = True\<rparr> else c)"

text \<open>
  \<^verbatim>\<open>MakeSighupCh\<close>: the runtime drops a signal when the one-place channel is full; the goroutine takes
  a signal out and blocks until its message is received. \<open>hup_holds\<close> is the message it holds.
\<close>

record sighup_ch =
  hup_buf :: bool
  hup_holds :: bool

datatype hup_event = HupSignal | HupTake | HupReceive

definition MakeSighupCh :: sighup_ch where
  "MakeSighupCh = \<lparr>hup_buf = False, hup_holds = False\<rparr>"

fun sighup_step :: "hup_event \<Rightarrow> sighup_ch \<Rightarrow> sighup_ch option" where
  "sighup_step HupSignal c = Some (c\<lparr>hup_buf := True\<rparr>)"
| "sighup_step HupTake c = (if hup_buf c \<and> \<not> hup_holds c then Some \<lparr>hup_buf = False, hup_holds = True\<rparr> else None)"
| "sighup_step HupReceive c = (if hup_holds c then Some (c\<lparr>hup_holds := False\<rparr>) else None)"

section \<open>The IPv4 parser\<close>

definition dotted :: "nat list \<Rightarrow> string" where
  "dotted os = strings_Join (map nat_digits os) ''.''"

lemma nat_digits_snoc: "0 < v \<Longrightarrow> d < 10 \<Longrightarrow> nat_digits (v * 10 + d) = nat_digits v @ [char_of (48 + d)]"
  by (subst nat_digits.simps) simp

lemma nat_digits_single: "d < 10 \<Longrightarrow> nat_digits d = [char_of (48 + d)]"
  by (subst nat_digits.simps) simp

lemma digit_val_SomeD: "digit_val c = Some d \<Longrightarrow> d < 10 \<and> c = char_of (48 + d)"
  by (auto simp: digit_val_def Let_def split: if_splits)

lemma digit_val_dot [simp]: "digit_val CHR ''.'' = None" "digit_val CHR '':'' = None"
  by (simp_all add: digit_val_def)

text \<open>The digits of the current octet that were read: none, or the printed value.\<close>

definition octet_read :: "nat \<Rightarrow> nat \<Rightarrow> string" where
  "octet_read val digLen = (if digLen = 0 then [] else nat_digits val)"

definition octet_ok :: "nat \<Rightarrow> nat \<Rightarrow> bool" where
  "octet_ok val digLen \<longleftrightarrow> val < 256 \<and> (digLen = 0 \<longrightarrow> val = 0) \<and> (val = 0 \<longrightarrow> digLen \<le> 1)"

lemma octet_digit:
  assumes "octet_ok val digLen" "digit_val c = Some d" "\<not> (digLen = 1 \<and> val = 0)" "val * 10 + d \<le> 255"
  shows "octet_ok (val * 10 + d) (digLen + 1)"
    and "octet_read (val * 10 + d) (digLen + 1) = octet_read val digLen @ [c]"
  using assms digit_val_SomeD [OF assms(2)]
  by (auto simp: octet_ok_def octet_read_def nat_digits_snoc nat_digits_single le_Suc_eq)

lemma ipv4_fields_sound:
  assumes "ipv4_fields s val digLen fs = Some r" "octet_ok val digLen" "digLen = 0 \<Longrightarrow> s \<noteq> [] \<or> fs = []"
    and "length fs \<le> 3"
  shows "\<exists>os. r = rev fs @ os \<and> length r = 4 \<and> os \<noteq> [] \<and> (\<forall>x \<in> set os. x < 256) \<and>
              octet_read val digLen @ s = dotted os"
  using assms
proof (induction s val digLen fs rule: ipv4_fields.induct)
  case (1 val digLen fs)
  then show ?case
    by (intro exI [of _ "[val]"]) (auto simp: octet_ok_def octet_read_def dotted_def split: if_splits)
next
  case (2 c cs val digLen fs)
  show ?case
  proof (cases "digit_val c")
    case (Some d)
    with "2.prems"(1) have g: "\<not> (digLen = 1 \<and> val = 0)" "\<not> val * 10 + d > 255"
      and r: "ipv4_fields cs (val * 10 + d) (digLen + 1) fs = Some r"
      by (auto split: if_splits)
    with octet_digit [OF "2.prems"(2) Some] "2.IH"(2) [OF Some g r] "2.prems"(4) show ?thesis by simp
  next
    case None
    with "2.prems"(1) have c: "c = CHR ''.''" and g: "\<not> (digLen = 0 \<or> cs = [])" "length fs \<noteq> 3"
      and r: "ipv4_fields cs 0 0 (val # fs) = Some r"
      by (auto split: if_splits)
    from "2.IH"(1) [OF None c g r] g "2.prems"(4)
    obtain os where os: "r = rev (val # fs) @ os" "length r = 4" "os \<noteq> []" "\<forall>x \<in> set os. x < 256" "cs = dotted os"
      by (auto simp: octet_ok_def octet_read_def)
    with c g "2.prems"(2) show ?thesis
      by (intro exI [of _ "val # os"]) (auto simp: octet_ok_def octet_read_def dotted_def strings_Join_Cons)
  qed
qed

lemma ipv4_fields_digits:
  "v < 256 \<Longrightarrow> ipv4_fields (nat_digits v @ cs) 0 0 fs = ipv4_fields cs v (length (nat_digits v)) fs"
proof (induction v arbitrary: cs rule: nat_digits.induct)
  case (1 n)
  show ?case
  proof (cases "n < 10")
    case True
    then show ?thesis by (simp add: nat_digits_single digit_val_char_of)
  next
    case False
    define v d where "v = n div 10" and "d = n mod 10"
    have n: "n = v * 10 + d" "d < 10" "0 < v" using False by (auto simp: v_def d_def)
    with "1.IH" [OF False] "1.prems" show ?thesis
      by (simp add: nat_digits_snoc digit_val_char_of v_def [symmetric])
  qed
qed

lemma parseIPv4_dotted:
  assumes "a < 256" "b < 256" "c < 256" "d < 256"
  shows "parseIPv4 (dotted [a, b, c, d]) = Some [a, b, c, d]"
  using assms ipv4_fields_digits [of d "[]" "[c, b, a]"]
  by (simp add: parseIPv4_def dotted_def ipv4_fields_digits)

lemma parseIPv4_sound:
  assumes "parseIPv4 s = Some r"
  shows "\<exists>a b c d. r = [a, b, c, d] \<and> a < 256 \<and> b < 256 \<and> c < 256 \<and> d < 256 \<and> s = dotted r"
proof -
  obtain os where "r = os" "length r = 4" "\<forall>x \<in> set os. x < 256" "s = dotted os"
    using ipv4_fields_sound [OF assms [unfolded parseIPv4_def]] by (auto simp: octet_ok_def octet_read_def)
  then show ?thesis by (auto simp: numeral_eq_Suc length_Suc_conv)
qed

section \<open>Addresses of the inner network\<close>

lemma scan_uint_syntax:
  "digit_val c = None \<Longrightarrow> (n + 1) * 10 ^ length g \<le> m \<Longrightarrow> scan_uint m n (g @ c # r) = NumSyntax"
proof (induction g arbitrary: n)
  case (Cons a g)
  show ?case
  proof (cases "digit_val a")
    case (Some d)
    have d: "d < 10" using digit_val_SomeD [OF Some] by simp
    have "(n * 10 + d + 1) * 10 ^ length g \<le> (n + 1) * 10 ^ length (a # g)"
      using d by (simp add: algebra_simps)
    then have le: "(n * 10 + d + 1) * 10 ^ length g \<le> m" using Cons.prems(2) by simp
    moreover have "n * 10 + d \<le> (n * 10 + d + 1) * 10 ^ length g"
      by (metis le_add1 le_trans mult.right_neutral mult_le_mono2 one_le_numeral one_le_power)
    ultimately show ?thesis using Some Cons.IH [OF Cons.prems(1)] by simp
  qed simp
qed simp

text \<open>A text with a colon behind at most four characters, none of them a sign, is not a number.\<close>

lemma Atoi_colon:
  assumes "length g \<le> 4" "CHR ''-'' \<notin> set g" "CHR ''+'' \<notin> set g"
  shows "fst (Atoi (g @ CHR '':'' # r)) = 0"
proof -
  have "(0 + 1) * (10::nat) ^ length g \<le> 10 ^ 4"
    using power_increasing [OF assms(1), of "10::nat"] by simp
  also have "\<dots> \<le> 2 ^ 64 - 1" by simp
  finally have "scan_uint (2 ^ 64 - 1) 0 (g @ CHR '':'' # r) = NumSyntax"
    by (intro scan_uint_syntax) simp_all
  moreover have "hd (g @ CHR '':'' # r) \<noteq> CHR ''-''" "hd (g @ CHR '':'' # r) \<noteq> CHR ''+''"
    using assms by (cases g; auto)+
  ultimately show ?thesis by (simp add: Atoi_def ParseInt_def Let_def)
qed

lemma ipv6_loop_step:
  assumes "ipv6_loop i e s" and "i < 16"
  shows "length (takeWhile is_hex s) \<le> 4 \<and>
    (dropWhile is_hex s = [] \<and> ipv6_final (i + 2) e [] \<or>
     (\<exists>s1. dropWhile is_hex s = CHR ''.'' # s1 \<and> (e \<or> i = 12) \<and> parseIPv4 s \<noteq> None) \<or>
     (\<exists>s1 s2. dropWhile is_hex s = CHR '':'' # s1 \<and> (s1 = s2 \<or> s1 = CHR '':'' # s2) \<and>
        (s2 = [] \<or> ipv6_loop (i + 2) True s2 \<or> ipv6_loop (i + 2) e s2)))"
proof (cases "dropWhile is_hex s")
  case Nil
  with assms show ?thesis
    by (subst (asm) ipv6_loop.simps) (simp add: Let_def split: if_split_asm)
next
  case (Cons c s1)
  have len: "length (takeWhile is_hex s) \<le> 4"
    using assms by (subst (asm) ipv6_loop.simps) (simp add: Let_def Cons split: if_split_asm)
  consider "c = CHR ''.''" | "c = CHR '':''" | "c \<noteq> CHR ''.''" "c \<noteq> CHR '':''" by blast
  then show ?thesis
  proof cases
    case 1
    with assms Cons len show ?thesis
      by (subst (asm) ipv6_loop.simps) (simp add: Let_def split: if_split_asm)
  next
    case 2
    with assms Cons show ?thesis
      by (subst (asm) ipv6_loop.simps) (cases s1, auto simp add: Let_def split: if_split_asm)
  next
    case 3
    with assms Cons show ?thesis
      by (subst (asm) ipv6_loop.simps) (simp add: Let_def split: if_split_asm)
  qed
qed

text \<open>
  A valid IPv6 text starts with at most four hexadecimal digits and a colon; its dots, if any,
  belong to a dotted quad at its end.
\<close>

lemma parseIPv6_colon:
  assumes "parseIPv6_ok s"
  obtains g r where "s = g @ CHR '':'' # r" "length g \<le> 4" "\<forall>c \<in> set g. is_hex c"
proof (cases "prefix ''::'' s")
  case True
  then show thesis using that [of "[]"] by (auto elim: prefixE)
next
  case False
  with assms have "ipv6_loop 0 False s" by (simp add: parseIPv6_ok_def)
  from ipv6_loop_step [OF this] obtain r where r: "dropWhile is_hex s = CHR '':'' # r" "length (takeWhile is_hex s) \<le> 4"
    by (auto simp: ipv6_final_def)
  have "s = takeWhile is_hex s @ CHR '':'' # r"
    using takeWhile_dropWhile_id [of is_hex s] r(1) by simp
  moreover have "\<forall>c \<in> set (takeWhile is_hex s). is_hex c" by (auto dest: set_takeWhileD)
  ultimately show thesis using r(2) that by blast
qed

lemma is_hex_not: "is_hex c \<Longrightarrow> c \<noteq> CHR ''-'' \<and> c \<noteq> CHR ''+'' \<and> c \<noteq> CHR ''.''"
  by (auto simp: is_hex_def digit_val_def)

definition dots_at_end :: "string \<Rightarrow> bool" where
  "dots_at_end s \<longleftrightarrow> CHR ''.'' \<notin> set s \<or>
     (\<exists>p a b c d. s = p @ dotted [a, b, c, d] \<and> CHR ''.'' \<notin> set p \<and> a < 256 \<and> b < 256 \<and> c < 256 \<and> d < 256)"

lemma dots_at_end_append:
  assumes "dots_at_end s" and q: "CHR ''.'' \<notin> set q"
  shows "dots_at_end (q @ s)"
  using assms(1) unfolding dots_at_end_def
proof (elim disjE exE conjE)
  fix p a b c d
  assume "s = p @ dotted [a, b, c, d]" "CHR ''.'' \<notin> set p" "a < 256" "b < 256" "c < 256" "d < 256"
  then show "CHR ''.'' \<notin> set (q @ s) \<or> (\<exists>p a b c d. q @ s = p @ dotted [a, b, c, d] \<and>
      CHR ''.'' \<notin> set p \<and> a < 256 \<and> b < 256 \<and> c < 256 \<and> d < 256)"
    using q by (intro disjI2 exI [of _ "q @ p"]) auto
qed (use q in simp)

lemma dots_at_end_Nil: "dots_at_end []"
  by (simp add: dots_at_end_def)

lemma dots_at_end_quad: "parseIPv4 s = Some r \<Longrightarrow> dots_at_end s"
  using parseIPv4_sound [of s r] by (fastforce simp: dots_at_end_def intro!: exI [of _ "[]"])

lemma hex_no_dot: "CHR ''.'' \<notin> set (takeWhile is_hex s)"
  using is_hex_not by (blast dest: set_takeWhileD)

lemma ipv6_loop_dots: "ipv6_loop i e s \<Longrightarrow> dots_at_end s"
proof (induction "16 - i" arbitrary: i e s rule: less_induct)
  case less
  show ?case
  proof (cases "i < 16")
    case False
    with less.prems show ?thesis
      by (subst (asm) ipv6_loop.simps) (simp add: ipv6_final_def dots_at_end_Nil)
  next
    case True
    have s: "s = takeWhile is_hex s @ dropWhile is_hex s" by simp
    from ipv6_loop_step [OF less.prems True] consider
        "dropWhile is_hex s = []"
      | r where "parseIPv4 s = Some r"
      | s1 s2 e' where "dropWhile is_hex s = CHR '':'' # s1" "s1 = s2 \<or> s1 = CHR '':'' # s2"
          "s2 = [] \<or> ipv6_loop (i + 2) e' s2"
      by blast
    then show ?thesis
    proof cases
      case 1
      then have "\<forall>x \<in> set s. is_hex x" by simp
      then show ?thesis using is_hex_not unfolding dots_at_end_def by blast
    next
      case 2
      then show ?thesis by (rule dots_at_end_quad)
    next
      case 3
      then have "dots_at_end s2"
        using less.hyps [of "i + 2"] True dots_at_end_Nil by auto
      then have "dots_at_end (dropWhile is_hex s)"
        using 3 dots_at_end_append [of s2 "'':''"] dots_at_end_append [of s2 "''::''"] by auto
      from dots_at_end_append [OF this hex_no_dot [of s]] show ?thesis by simp
    qed
  qed
qed

lemma parseIPv6_dots: "parseIPv6_ok s \<Longrightarrow> dots_at_end s"
proof (cases "prefix ''::'' s")
  case True
  assume ok: "parseIPv6_ok s"
  from True obtain t where "s = ''::'' @ t" by (auto elim: prefixE)
  with ok True show ?thesis
    using dots_at_end_append [of t "''::''"] ipv6_loop_dots [of 0 True t] dots_at_end_Nil
    by (auto simp: parseIPv6_ok_def)
qed (simp add: parseIPv6_ok_def ipv6_loop_dots)

lemma wrap64_small [simp]: "0 \<le> i \<Longrightarrow> i < 2 ^ 63 \<Longrightarrow> wrap64 i = i"
  by (simp add: wrap64_def signed_take_bit_int_eq_self)

lemma Atoi_nat_digits: "n < 2 ^ 63 \<Longrightarrow> fst (Atoi (nat_digits n)) = int n"
  using ParseInt_Sprint_d [of 64 "int n"] by (simp add: Atoi_def Sprint_d_def)

lemma nat_digits_no_dot: "CHR ''.'' \<notin> set (nat_digits n)"
  using nat_digits_are_digits [of "CHR ''.''"] by auto

lemma NetAton_dotted:
  assumes "a < 256" "b < 256" "c < 256" "d < 256"
  shows "NetAton (dotted [a, b, c, d]) = int a * 2 ^ 24 + int b * 2 ^ 16 + int c * 2 ^ 8 + int d"
proof -
  have "strings_Split (dotted [a, b, c, d]) ''.'' = map nat_digits [a, b, c, d]"
    unfolding dotted_def by (intro strings_Split_char_Join) (auto simp: nat_digits_no_dot)
  then show ?thesis
    using assms by (simp add: NetAton_def Let_def Atoi_nat_digits)
qed

text \<open>Read as a dotted quad, an IPv6 text is a number below \<open>2 ^ 24\<close>.\<close>

lemma split_quad_suffix:
  assumes "CHR ''.'' \<notin> set p"
  shows "strings_Split (p @ dotted [a, b, c, d]) ''.'' = [p @ nat_digits a, nat_digits b, nat_digits c, nat_digits d]"
proof -
  have "strings_Split (dotted [a, b, c, d]) ''.'' = map nat_digits [a, b, c, d]"
    unfolding dotted_def by (intro strings_Split_char_Join) (auto simp: nat_digits_no_dot)
  then show ?thesis using strings_Split_char_append [OF assms] by simp
qed

lemma colon_before_quad:
  assumes "p @ dotted [a, b, c, d] = g @ CHR '':'' # r"
  obtains r' where "p = g @ CHR '':'' # r'"
proof -
  have "CHR '':'' \<notin> set (dotted [a, b, c, d])"
    using nat_digits_are_digits [of "CHR '':''"] by (auto simp: dotted_def)
  moreover have "\<exists>us. p = g @ us \<and> us @ dotted [a, b, c, d] = CHR '':'' # r \<or>
      p @ us = g \<and> dotted [a, b, c, d] = us @ CHR '':'' # r"
    using assms by (simp only: append_eq_append_conv2)
  ultimately obtain us where us: "p = g @ us" "us @ dotted [a, b, c, d] = CHR '':'' # r"
    by auto
  moreover have "us \<noteq> []"
    using us(2) \<open>CHR '':'' \<notin> set (dotted [a, b, c, d])\<close> by auto
  ultimately show thesis using that by (cases us) auto
qed

lemma NetAton_IPv6:
  assumes "parseIPv6_ok s"
  shows "0 \<le> NetAton s" and "NetAton s < 2 ^ 24"
proof -
  obtain g r where s: "s = g @ CHR '':'' # r" "length g \<le> 4" "\<forall>c \<in> set g. is_hex c"
    using assms by (rule parseIPv6_colon)
  have "0 \<le> NetAton s \<and> NetAton s < 2 ^ 24"
  proof (cases "CHR ''.'' \<in> set s")
    case False
    then show ?thesis by (simp add: NetAton_def)
  next
    case True
    with parseIPv6_dots [OF assms] obtain p a b c d where q: "s = p @ dotted [a, b, c, d]" "CHR ''.'' \<notin> set p"
      "a < 256" "b < 256" "c < 256" "d < 256"
      by (auto simp: dots_at_end_def)
    obtain r' where "p = g @ CHR '':'' # r'" using q(1) s(1) colon_before_quad by metis
    then have "fst (Atoi (p @ nat_digits a)) = 0"
      using Atoi_colon [of g "r' @ nat_digits a"] s is_hex_not by fastforce
    with q show ?thesis
      by (simp add: NetAton_def Let_def split_quad_suffix Atoi_nat_digits)
  qed
  then show "0 \<le> NetAton s" and "NetAton s < 2 ^ 24" by simp_all
qed

lemma inner_constants:
  "NetAton ''10.255.255.255'' = 10 * 2 ^ 24 + 16777215"
  "NetAton ''172.16.255.255'' = 172 * 2 ^ 24 + 16 * 2 ^ 16 + 65535"
  "NetAton ''192.168.255.255'' = 192 * 2 ^ 24 + 168 * 2 ^ 16 + 65535"
  "NetAton ''100.64.255.255'' = 100 * 2 ^ 24 + 64 * 2 ^ 16 + 65535"
  "NetAton ''127.255.255.255'' = 127 * 2 ^ 24 + 16777215"
proof -
  have "dotted [10, 255, 255, 255] = ''10.255.255.255''" "dotted [172, 16, 255, 255] = ''172.16.255.255''"
    "dotted [192, 168, 255, 255] = ''192.168.255.255''" "dotted [100, 64, 255, 255] = ''100.64.255.255''"
    "dotted [127, 255, 255, 255] = ''127.255.255.255''"
    by code_simp+
  note this [symmetric]
  then show "NetAton ''10.255.255.255'' = 10 * 2 ^ 24 + 16777215"
    "NetAton ''172.16.255.255'' = 172 * 2 ^ 24 + 16 * 2 ^ 16 + 65535"
    "NetAton ''192.168.255.255'' = 192 * 2 ^ 24 + 168 * 2 ^ 16 + 65535"
    "NetAton ''100.64.255.255'' = 100 * 2 ^ 24 + 64 * 2 ^ 16 + 65535"
    "NetAton ''127.255.255.255'' = 127 * 2 ^ 24 + 16777215"
    by (simp_all add: NetAton_dotted)
qed

definition inner_quad :: "nat \<Rightarrow> nat \<Rightarrow> bool" where
  "inner_quad a b \<longleftrightarrow> a = 10 \<or> a = 127 \<or> (a = 172 \<and> 16 \<le> b \<and> b \<le> 31) \<or> (a = 192 \<and> b = 168) \<or> (a = 100 \<and> 64 \<le> b \<and> b \<le> 127)"

definition inner_number :: "int \<Rightarrow> bool" where
  "inner_number n \<longleftrightarrow> n div 2 ^ 24 = 10 \<or> n div 2 ^ 20 = 2753 \<or> n div 2 ^ 16 = 49320 \<or> n div 2 ^ 22 = 401 \<or> n div 2 ^ 24 = 127"

lemma IsInnerIp_number: "IsInnerIp s \<longleftrightarrow> CheckIp s \<and> inner_number (NetAton s)"
  unfolding IsInnerIp_def Let_def inner_constants by (simp add: inner_number_def shr_def)

lemma div_eq_range: "0 < m \<Longrightarrow> (x::int) div m = k \<longleftrightarrow> k * m \<le> x \<and> x < k * m + m"
proof
  assume m: "0 < m" "x div m = k"
  have "k * m + x mod m = x" using div_mult_mod_eq [of x m] m(2) by simp
  then show "k * m \<le> x \<and> x < k * m + m"
    using pos_mod_bound [OF m(1), of x] pos_mod_sign [OF m(1), of x] by linarith
next
  assume m: "0 < m" "k * m \<le> x \<and> x < k * m + m"
  then show "x div m = k"
    by (intro int_div_pos_eq [of x m k "x - k * m"]) (auto simp: algebra_simps)
qed

text \<open>An octet and the upper part of the next one, as digits of a mixed base.\<close>

lemma octet_and_part:
  assumes "0 \<le> q" "q < m" "0 \<le> j" "j < m"
  shows "int a * m + q = int k * m + j \<longleftrightarrow> a = k \<and> q = j"
proof
  assume e: "int a * m + q = int k * m + j"
  have "(int a * m + q) div m = int a" "(int k * m + j) div m = int k"
    using assms by (simp_all add: div_eq_range)
  then show "a = k \<and> q = j" using e by simp
qed simp

lemma inner_number_quad:
  assumes "a < 256" "b < 256" "c < 256" "d < 256"
  shows "inner_number (int a * 2 ^ 24 + int b * 2 ^ 16 + int c * 2 ^ 8 + int d) \<longleftrightarrow> inner_quad a b"
proof -
  let ?n = "int a * 2 ^ 24 + int b * 2 ^ 16 + int c * 2 ^ 8 + int d"
  have "?n div 2 ^ 24 = int a" "?n div 2 ^ 16 = int a * 256 + int b"
    and "?n div 2 ^ 20 = int a * 16 + int b div 16" "?n div 2 ^ 22 = int a * 4 + int b div 64"
    using assms by simp_all
  note this [simplified]
  moreover have "int a * 16 + int b div 16 = 2753 \<longleftrightarrow> a = 172 \<and> 16 \<le> b \<and> b \<le> 31"
    "int a * 256 + int b = 49320 \<longleftrightarrow> a = 192 \<and> b = 168"
    "int a * 4 + int b div 64 = 401 \<longleftrightarrow> a = 100 \<and> 64 \<le> b \<and> b \<le> 127"
    using assms octet_and_part [of "int b div 16" 16 1 a 172] octet_and_part [of "int b div 64" 4 1 a 100]
      octet_and_part [of "int b" 256 168 a 192]
    by (auto simp: div_eq_range)
  ultimately show ?thesis unfolding inner_number_def inner_quad_def by (simp add: disj_ac)
qed

lemma first_mark:
  assumes "dropWhile (\<lambda>c. c \<noteq> CHR ''.'' \<and> c \<noteq> CHR '':'' \<and> c \<noteq> CHR ''%'') s = c # r"
  shows "c = CHR ''.'' \<or> c = CHR '':'' \<or> c = CHR ''%''"
  using assms by (induction s) (auto split: if_splits)

lemma CheckIp_cases: "CheckIp s \<Longrightarrow> (\<exists>r. parseIPv4 s = Some r) \<or> parseIPv6_ok s"
  by (auto simp: CheckIp_def ParseIP_ok_def split: list.splits if_splits)

lemma CheckIp_dotted:
  assumes "a < 256" "b < 256" "c < 256" "d < 256"
  shows "CheckIp (dotted [a, b, c, d])"
proof -
  let ?P = "\<lambda>c. c \<noteq> CHR ''.'' \<and> c \<noteq> CHR '':'' \<and> c \<noteq> CHR ''%''"
  have "\<forall>x \<in> set (nat_digits a). ?P x"
    by (auto dest!: nat_digits_are_digits simp: digit_val_def)
  then have "dropWhile ?P (nat_digits a @ CHR ''.'' # t) = CHR ''.'' # t" for t
    by (subst dropWhile_append2) auto
  moreover have "dotted [a, b, c, d] = nat_digits a @ CHR ''.'' # dotted [b, c, d]"
    by (simp add: dotted_def)
  ultimately show ?thesis
    using parseIPv4_dotted [OF assms] by (simp add: CheckIp_def ParseIP_ok_def)
qed

lemma IsInnerIp_quad:
  "IsInnerIp s \<longleftrightarrow>
     (\<exists>a b c d. s = dotted [a, b, c, d] \<and> a < 256 \<and> b < 256 \<and> c < 256 \<and> d < 256 \<and> inner_quad a b)"
    (is "_ \<longleftrightarrow> ?quad")
proof
  assume i: "IsInnerIp s"
  then have "(\<exists>r. parseIPv4 s = Some r) \<or> parseIPv6_ok s"
    using CheckIp_cases by (simp add: IsInnerIp_number)
  then show ?quad
  proof
    assume "\<exists>r. parseIPv4 s = Some r"
    then obtain a b c d where q: "s = dotted [a, b, c, d]" "a < 256" "b < 256" "c < 256" "d < 256"
      using parseIPv4_sound by blast
    with i have "inner_quad a b"
      unfolding IsInnerIp_number q(1) NetAton_dotted [OF q(2-5)] inner_number_quad [OF q(2-5)] by simp
    with q show ?quad by blast
  next
    assume "parseIPv6_ok s"
    from NetAton_IPv6 [OF this] have "\<not> inner_number (NetAton s)"
      unfolding inner_number_def by (simp add: div_eq_range)
    with i show ?quad by (simp add: IsInnerIp_number)
  qed
next
  assume ?quad
  then obtain a b c d where q: "s = dotted [a, b, c, d]" "a < 256" "b < 256" "c < 256" "d < 256" "inner_quad a b"
    by blast
  then show "IsInnerIp s"
    unfolding IsInnerIp_number q(1) NetAton_dotted [OF q(2-5)] inner_number_quad [OF q(2-5)]
    using CheckIp_dotted [OF q(2-5)] by simp
qed

text \<open>
  C16. The inner network. A text is taken for an inner address exactly when it is the canonical
  dotted quad \<open>a.b.c.d\<close> of an IPv4 address in 10.0.0.0/8, 127.0.0.0/8, 172.16.0.0/12,
  192.168.0.0/16 or 100.64.0.0/10. No IPv6 text passes, not even one that ends in such a quad, and
  no other spelling does (leading zeros, signs, blanks, missing or extra octets).
\<close>

theorem inner_ip_exact:
  "IsInnerIp s \<longleftrightarrow>
     (\<exists>a b c d. s = dotted [a, b, c, d] \<and> a < 256 \<and> b < 256 \<and> c < 256 \<and> d < 256 \<and>
        (a = 10 \<or> a = 127 \<or> (a = 172 \<and> 16 \<le> b \<and> b \<le> 31) \<or> (a = 192 \<and> b = 168) \<or> (a = 100 \<and> 64 \<le> b \<and> b \<le> 127)))"
  by (simp add: IsInnerIp_quad inner_quad_def)

section \<open>Retried requests\<close>

definition retryable :: "do_result \<Rightarrow> bool" where
  "retryable r \<longleftrightarrow> (case r of RespOk st \<Rightarrow> st \<noteq> 200 | RespErr _ resp \<Rightarrow> resp \<noteq> None)"

lemma perform_loop_skip:
  assumes "\<forall>j < m. retryable (reply (k + j))" and "0 < m"
  shows "perform_loop reply n k (m + i) l = perform_loop reply n (k + m) i (reply (k + m - 1))"
  using assms
proof (induction m arbitrary: k l)
  case (Suc m)
  from Suc.prems(1) have r: "retryable (reply k)" by force
  have "perform_loop reply n k (Suc m + i) l = perform_loop reply n (k + 1) (m + i) (reply k)"
    using r by (auto simp: retryable_def split: do_result.splits)
  also have "\<dots> = perform_loop reply n (k + Suc m) i (reply (k + Suc m - 1))"
  proof (cases "m = 0")
    case False
    have "\<forall>j < m. retryable (reply (k + 1 + j))" using Suc.prems(1) by force
    from Suc.IH [OF this, of "reply k"] False show ?thesis by simp
  qed simp
  finally show ?case .
qed simp

lemma retry_count_pos: "0 < retry_count rc"
  by (cases rc) (auto simp: retry_count_def)

text \<open>
  C34. What a retried request comes to. Let \<open>n\<close> be the number of attempts. If the attempts before
  the \<open>k\<close>-th brought a response that is not \<^verbatim>\<open>200\<close> and the \<open>k\<close>-th brings \<^verbatim>\<open>200\<close>, that response is
  returned after exactly \<open>k + 1\<close> attempts. If the \<open>k\<close>-th attempt fails in the transport, so that the
  response is nil, the call panics: the body of the nil response is closed before the error is
  looked at, and no further attempt is made. If none of the \<open>n\<close> attempts succeeds or fails so, the
  call returns an error after exactly \<open>n\<close> attempts, with the last status or error.
\<close>

theorem perform_request_outcome:
  assumes "n = retry_count retryCounts"
  shows "(\<forall>k < n. (\<forall>j < k. retryable (reply j)) \<longrightarrow>
            (reply k = RespOk 200 \<longrightarrow> PerformHTTPRequest reply retryCounts = (Returns (Inr k), k + 1)) \<and>
            (\<forall>e. reply k = RespErr e None \<longrightarrow> PerformHTTPRequest reply retryCounts = (Panics NilResponse, k + 1))) \<and>
         ((\<forall>j < n. retryable (reply j)) \<longrightarrow>
            PerformHTTPRequest reply retryCounts =
              (Returns (Inl (case reply (n - 1) of RespErr e _ \<Rightarrow> AttemptsError n e | RespOk st \<Rightarrow> AttemptsStatus n st)), n))"
proof (intro conjI allI impI)
  have skip: "\<exists>l'. perform_loop reply n 0 n l = perform_loop reply n k (Suc (n - k - 1)) l'"
    if "k < n" "\<forall>j < k. retryable (reply j)" for l k
    using perform_loop_skip [of k reply 0 n "n - k"] that by (cases "k = 0") (auto simp: Suc_diff_Suc)
  fix k assume k: "k < n" "\<forall>j < k. retryable (reply j)"
  show "PerformHTTPRequest reply retryCounts = (Returns (Inr k), k + 1)" if "reply k = RespOk 200"
    using skip [OF k, of "RespOk 0"] that assms by (auto simp: PerformHTTPRequest_def)
  show "PerformHTTPRequest reply retryCounts = (Panics NilResponse, k + 1)" if "reply k = RespErr e None" for e
    using skip [OF k, of "RespOk 0"] that assms by (auto simp: PerformHTTPRequest_def)
next
  assume "\<forall>j < n. retryable (reply j)"
  then show "PerformHTTPRequest reply retryCounts =
      (Returns (Inl (case reply (n - 1) of RespErr e _ \<Rightarrow> AttemptsError n e | RespOk st \<Rightarrow> AttemptsStatus n st)), n)"
    using perform_loop_skip [of n reply 0 n 0] retry_count_pos [of retryCounts]
    unfolding PerformHTTPRequest_def assms [symmetric] by simp
qed

theorem perform_request_outcome_witness:
  "PerformHTTPRequest (\<lambda>j. if j = 0 then RespOk 503 else RespOk 200) [] = (Returns (Inr 1), 2) \<and>
   PerformHTTPRequest (\<lambda>j. if j = 0 then RespOk 503 else RespErr ''refused'' None) [5] = (Panics NilResponse, 2) \<and>
   PerformHTTPRequest (\<lambda>j. RespOk 503) [2] = (Returns (Inl (AttemptsStatus 2 503)), 2)"
proof (intro conjI)
  show "PerformHTTPRequest (\<lambda>j. if j = 0 then RespOk 503 else RespOk 200) [] = (Returns (Inr 1), 2)"
    using perform_request_outcome [of 3 "[]" "\<lambda>j. if j = 0 then RespOk 503 else RespOk 200"]
    by (auto simp: retry_count_def retryable_def dest!: spec [of _ 1])
  show "PerformHTTPRequest (\<lambda>j. if j = 0 then RespOk 503 else RespErr ''refused'' None) [5] = (Panics NilResponse, 2)"
    using perform_request_outcome [of 5 "[5]" "\<lambda>j. if j = 0 then RespOk 503 else RespErr ''refused'' None"]
    by (auto simp: retry_count_def retryable_def dest!: spec [of _ 1])
  show "PerformHTTPRequest (\<lambda>j. RespOk 503) [2] = (Returns (Inl (AttemptsStatus 2 503)), 2)"
    using perform_request_outcome [of 2 "[2]" "\<lambda>j. RespOk 503"]
    by (simp add: retry_count_def retryable_def)
qed

section \<open>Signal channels\<close>

text \<open>
  The channel of \<^verbatim>\<open>MakeShutdownCh\<close> is closed by the first signal and carries no message for a later
  one: all signals after the first leave it as it is.
\<close>

lemma shutdown_once:
  "(shutdown_signal ^^ Suc n) MakeShutdownCh = \<lparr>sh_alive = False, sh_closed = True\<rparr>"
  by (induction n) (simp_all add: shutdown_signal_def MakeShutdownCh_def)

text \<open>Two signals that come while the goroutine holds a message are one.\<close>

lemma sighup_merged:
  "run_events sighup_step [HupSignal, HupTake, HupSignal, HupSignal, HupReceive, HupTake, HupReceive] MakeSighupCh = Some MakeSighupCh"
  by (simp add: MakeSighupCh_def)

end
