(* ===== verification/App_Config.thy ===== *)
theory App_Config
  imports Prelude
begin

text \<open>
  \<^verbatim>\<open>libs/conf\<close> (the configuration file and the environment variables it sets), the token keys of
  \<^verbatim>\<open>libs/jwt/keysutils.go\<close> and the tokens of \<^verbatim>\<open>libs/jwt/jwt.go\<close>.

  The TOML, JSON and JWT libraries are parameters. The environment is a function from names to
  values (an unset variable reads as the empty string).
\<close>

section \<open>The configuration\<close>

datatype cval = CStr string | CInt int | CBool bool | CTable "(string \<times> cval) list"

datatype conf_panic = DecodeError string | GlobalMissing | AppNameMissing | AppVersionMissing | RedisPrefixMissing

type_synonym table = "(string \<times> cval) list"
type_synonym environment = "string \<Rightarrow> string"

record conf_state =
  config :: "table option"
  env :: environment

text \<open>\<^verbatim>\<open>os.Setenv\<close>: a value with a zero byte is refused; the sources drop that error.\<close>

definition Setenv :: "string \<Rightarrow> string \<Rightarrow> environment \<Rightarrow> environment" where
  "Setenv name' val e = (if char_of (0::nat) \<in> set val then e else e(name' := val))"

definition as_table :: "cval option \<Rightarrow> table option" where
  "as_table v = (case v of Some (CTable t) \<Rightarrow> Some t | _ \<Rightarrow> None)"

definition as_string :: "cval option \<Rightarrow> string option" where
  "as_string v = (case v of Some (CStr s) \<Rightarrow> Some s | _ \<Rightarrow> None)"

text \<open>
  \<open>decode path\<close> is \<^verbatim>\<open>toml.DecodeFile\<close>: what it put into the map, and an error. The package's variable
  holds the map from then on, also when \<^verbatim>\<open>Init\<close> panics.
\<close>

definition Init :: "(string \<Rightarrow> table \<times> string option) \<Rightarrow> conf_state \<Rightarrow> (conf_panic, unit) outcome \<times> conf_state" where
  "Init decode st =
     (case decode (env st ''runConfig'') of
        (t, Some err) \<Rightarrow> (Panics (DecodeError err), st\<lparr>config := Some t\<rparr>)
      | (t, None) \<Rightarrow>
          (let st1 = st\<lparr>config := Some t\<rparr>
           in case as_table (map_of t ''global'') of
                None \<Rightarrow> (Panics GlobalMissing, st1)
              | Some g \<Rightarrow>
                  (case as_string (map_of g ''app_name'') of
                     None \<Rightarrow> (Panics AppNameMissing, st1)
                   | Some appName \<Rightarrow>
                       (case as_string (map_of g ''app_version'') of
                          None \<Rightarrow> (Panics AppVersionMissing, st1)
                        | Some appVersion \<Rightarrow>
                            (case as_string (map_of g ''redis_key_prefix'') of
                               None \<Rightarrow> (Panics RedisPrefixMissing, st1)
                             | Some redisKeyPrefix \<Rightarrow>
                                 (Returns (),
                                  st1\<lparr>env := Setenv ''REDIS_KEY_PREFIX'' redisKeyPrefix
                                             (Setenv ''APP_VERSION'' appVersion (Setenv ''APP_NAME'' appName (env st1)))\<rparr>))))))"

text \<open>\<^verbatim>\<open>Get\<close>: \<open>None\<close> is the nil slice.\<close>

definition Get ::
  "(string \<Rightarrow> table \<times> string option) \<Rightarrow> (cval \<Rightarrow> bytes option) \<Rightarrow> string \<Rightarrow> conf_state \<Rightarrow>
   (conf_panic, bytes option) outcome \<times> conf_state" where
  "Get decode marshal key st =
     (case (if config st = None then Init decode st else (Returns (), st)) of
        (Panics e, st1) \<Rightarrow> (Panics e, st1)
      | (Returns _, st1) \<Rightarrow>
          (Returns (case config st1 of
             None \<Rightarrow> None
           | Some t \<Rightarrow> (case map_of t key of None \<Rightarrow> None | Some v \<Rightarrow> marshal v)), st1))"

section \<open>Token keys\<close>

text \<open>
  The package variables of \<^verbatim>\<open>libs/jwt/keysutils.go\<close> are read from the environment when the program
  starts, before \<^verbatim>\<open>main\<close> runs.
\<close>

record key_vars =
  appName :: string
  appVersion :: string

definition init_key_vars :: "environment \<Rightarrow> key_vars" where
  "init_key_vars e = \<lparr>appName = e ''APP_NAME'', appVersion = e ''APP_VERSION''\<rparr>"

definition AdminTokenKey :: "key_vars \<Rightarrow> string \<Rightarrow> string" where
  "AdminTokenKey v id' = appName v @ '':admin:token:'' @ id'"

definition UserTokenKey :: "key_vars \<Rightarrow> string \<Rightarrow> string" where
  "UserTokenKey v id' = appName v @ '':user:token:'' @ id'"

definition NodeUserTokenKey :: "key_vars \<Rightarrow> string \<Rightarrow> string" where
  "NodeUserTokenKey v id' = appName v @ '':node:token:'' @ id'"

definition NodeAccesslKey :: "key_vars \<Rightarrow> string \<Rightarrow> string" where
  "NodeAccesslKey v nodeId = appName v @ '':node:access:'' @ nodeId"

definition NodeModeKey :: "key_vars \<Rightarrow> string \<Rightarrow> string" where
  "NodeModeKey v nodeId = appName v @ '':node:mode:'' @ nodeId"

section \<open>Tokens\<close>

text \<open>
  A claim's value; a claim that is absent and one that is JSON null both read as nil. \<open>parse\<close> is
  \<^verbatim>\<open>jwt.Parse\<close>: it is given the function that chooses the key by the token's signing method (\<open>None\<close>
  refuses the token) and yields the claims (\<open>None\<close> if they are not a claims map) and whether the token is valid.
\<close>

datatype claim = ClaimNil | ClaimStr string | ClaimOther string

type_synonym claims = "(string \<times> claim) list"

datatype signing_method = HMAC string | OtherMethod string

type_synonym jwt_parser = "string \<Rightarrow> (signing_method \<Rightarrow> string option) \<Rightarrow> string + (claims option \<times> bool)"

definition hmac_key :: "string \<Rightarrow> signing_method \<Rightarrow> string option" where
  "hmac_key secret m = (case m of HMAC _ \<Rightarrow> Some secret | OtherMethod _ \<Rightarrow> None)"

definition JWTDecrypt :: "jwt_parser \<Rightarrow> string \<Rightarrow> string \<Rightarrow> claims option" where
  "JWTDecrypt parse tokenString secret =
     (case parse tokenString (hmac_key secret) of
        Inl err \<Rightarrow> None
      | Inr (Some cl, True) \<Rightarrow> Some cl
      | Inr _ \<Rightarrow> None)"

text \<open>\<open>sign\<close> is the signing with HS256: the claims in their order and the key.\<close>

definition JWTEncrypt :: "(claims \<Rightarrow> string \<Rightarrow> string) \<Rightarrow> string \<Rightarrow> string \<Rightarrow> string \<Rightarrow> string" where
  "JWTEncrypt sign id' mytoken key =
     sign [(''id'', ClaimStr id'), (''token'', ClaimStr mytoken), (''iss'', ClaimStr ''admin'')] key"

definition claim_of :: "claims \<Rightarrow> string \<Rightarrow> claim" where
  "claim_of cl k = (case map_of cl k of None \<Rightarrow> ClaimNil | Some v \<Rightarrow> v)"

section \<open>What the configuration sets\<close>

lemma Init_env:
  assumes "Init decode st = (Returns u, st')"
  shows "\<exists>t g a v p. config st' = Some t \<and> map_of t ''global'' = Some (CTable g) \<and>
     map_of g ''app_name'' = Some (CStr a) \<and> map_of g ''app_version'' = Some (CStr v) \<and>
     map_of g ''redis_key_prefix'' = Some (CStr p) \<and>
     env st' = Setenv ''REDIS_KEY_PREFIX'' p (Setenv ''APP_VERSION'' v (Setenv ''APP_NAME'' a (env st)))"
  using assms
  by (auto simp: Init_def as_table_def as_string_def Let_def
      split: prod.splits option.splits cval.splits)

text \<open>A panicking \<^verbatim>\<open>Init\<close> leaves the environment alone, but its map stays, and \<^verbatim>\<open>Get\<close> no longer fails.\<close>

lemma Init_panic:
  assumes "Init decode st = (Panics e, st')"
  shows "env st' = env st" and "config st' \<noteq> None"
    and "\<exists>v. Get decode' marshal key st' = (Returns v, st')"
proof -
  show "env st' = env st" and c: "config st' \<noteq> None"
    using assms by (auto simp: Init_def Let_def split: prod.splits option.splits)
  show "\<exists>v. Get decode' marshal key st' = (Returns v, st')" using c by (auto simp: Get_def)
qed

lemma Setenv_other: "n \<noteq> m \<Longrightarrow> Setenv m v e n = e n"
  by (simp add: Setenv_def)

lemma Setenv_same: "char_of (0::nat) \<notin> set v \<Longrightarrow> Setenv n v e n = v"
  by (simp add: Setenv_def)

text \<open>
  The configured application name is not in the token keys. When a configuration is loaded without a
  panic, the variable \<^verbatim>\<open>APP_NAME\<close>, from which the access check builds the secret of the tokens,
  holds the configured name; but the token keys are built from the value the variable had when the
  program started: two applications with different configured names that are started with the same
  value (none, say) and share a Redis server use the same key for the same user.
\<close>

lemma Init_sets_app_name:
  assumes "Init decode st = (Returns (), st')" and "decode (env st ''runConfig'') = (t, None)"
    and "map_of t ''global'' = Some (CTable g)" and "map_of g ''app_name'' = Some (CStr a)"
    and "char_of (0::nat) \<notin> set a"
  shows "env st' ''APP_NAME'' = a"
  using assms
  by (auto simp: Init_def as_table_def as_string_def Let_def Setenv_other Setenv_same
      split: option.splits cval.splits)

lemma token_keys_ignore_config:
  assumes "Init decode \<lparr>config = None, env = e1\<rparr> = (Returns (), st1)" "decode (e1 ''runConfig'') = (t1, None)"
    and "map_of t1 ''global'' = Some (CTable g1)" "map_of g1 ''app_name'' = Some (CStr a1)" "char_of (0::nat) \<notin> set a1"
    and "Init decode \<lparr>config = None, env = e2\<rparr> = (Returns (), st2)" "decode (e2 ''runConfig'') = (t2, None)"
    and "map_of t2 ''global'' = Some (CTable g2)" "map_of g2 ''app_name'' = Some (CStr a2)" "char_of (0::nat) \<notin> set a2"
    and "a1 \<noteq> a2" and "e1 ''APP_NAME'' = e2 ''APP_NAME''"
  shows "env st1 ''APP_NAME'' \<noteq> env st2 ''APP_NAME'' \<and>
     UserTokenKey (init_key_vars e1) id' = UserTokenKey (init_key_vars e2) id'"
  using Init_sets_app_name [OF assms(1)] Init_sets_app_name [OF assms(6)] assms
  by (simp add: UserTokenKey_def init_key_vars_def)

text \<open>The five families of keys never meet: a key names its family.\<close>

lemma token_key_families:
  "AdminTokenKey v i \<noteq> UserTokenKey v j" "UserTokenKey v i \<noteq> NodeUserTokenKey v j"
  "NodeUserTokenKey v i \<noteq> NodeAccesslKey v j" "NodeAccesslKey v i \<noteq> NodeModeKey v j"
  by (simp_all add: AdminTokenKey_def UserTokenKey_def NodeUserTokenKey_def NodeAccesslKey_def NodeModeKey_def)

end
