(* ===== verification/Http_Server.thy ===== *)
theory Http_Server
  imports Redis_View Net_Utils App_Config
begin

text \<open>
  \<^verbatim>\<open>libs/server\<close>: the HTTP server on top of the echo framework: its middlewares (\<^verbatim>\<open>cors.go\<close>,
  \<^verbatim>\<open>access.go\<close>, \<^verbatim>\<open>logger.go\<close>), the typed handlers (\<^verbatim>\<open>handler.go\<close>), the server with its groups and routes
  and its shutdown (\<^verbatim>\<open>server_http.go\<close>), and the backend facade (\<^verbatim>\<open>backend_http.go\<close>).

  Echo is a parameter: what the server asks of the engine is the list of calls it made on it, and a
  request is a record of what the middlewares read of it; \<open>r_xff_ip\<close> is the address that echo's
  extractor for the \<^verbatim>\<open>X-Forwarded-For\<close> header answers. Logging is left out.
\<close>

section \<open>Requests and middlewares\<close>

record http_request =
  r_method :: string
  r_header :: "string \<Rightarrow> string"
  r_remoteAddr :: string
  r_xff_ip :: string
  r_body :: bytes
  r_query :: "(string \<times> string) list"

datatype denial = JwtParseError | UserInfoError | TokenFetchError | LoggedInElsewhere | ServerBusy

text \<open>An answer: a refusal (status, error code, message), no content, or what a handler answers.\<close>

datatype 'd reply = Denied nat nat denial | NoContent nat | Answer 'd

record ('d, 'db) ctx =
  c_req :: http_request
  c_headers :: "(string \<times> string) list"
  c_reply :: "'d reply option"
  c_db :: 'db

datatype 'e hresult = HOk | HErr 'e | HPanic

type_synonym ('d, 'db, 'e) handler_fn = "('d, 'db) ctx \<Rightarrow> 'e hresult \<times> ('d, 'db) ctx"
type_synonym ('d, 'db, 'e) middleware = "('d, 'db, 'e) handler_fn \<Rightarrow> ('d, 'db, 'e) handler_fn"

text \<open>\<^verbatim>\<open>Header().Set\<close> replaces the values of the header.\<close>

definition set_header :: "string \<Rightarrow> string \<Rightarrow> ('d, 'db) ctx \<Rightarrow> ('d, 'db) ctx" where
  "set_header k v c = c\<lparr>c_headers := (k, v) # filter (\<lambda>(k', _). k' \<noteq> k) (c_headers c)\<rparr>"

definition cors_headers :: "('d, 'db) ctx \<Rightarrow> ('d, 'db) ctx" where
  "cors_headers c =
     set_header ''Access-Control-Expose-Headers''
       ''Content-Length, Access-Control-Allow-Origin, Access-Control-Allow-Headers, Cache-Control, Content-Language, Content-Type''
     (set_header ''Access-Control-Allow-Headers'' ''*''
     (set_header ''Access-Control-Allow-Methods'' ''POST, GET, OPTIONS, PUT, DELETE, UPDATE''
     (set_header ''Access-Control-Allow-Origin'' ''*'' c)))"

definition Cors :: "('d, 'db, 'e) middleware" where
  "Cors next c =
     (let c1 = cors_headers c
      in if r_method (c_req c) = ''OPTIONS'' then (HOk, c1\<lparr>c_reply := Some (NoContent 204)\<rparr>) else next c1)"

fun SetHeaders :: "(string \<times> string) list \<Rightarrow> ('d, 'db, 'e) middleware" where
  "SetHeaders [] next c = next c"
| "SetHeaders ((k, v) # hs) next c = SetHeaders hs next (set_header k v c)"

text \<open>
  \<^verbatim>\<open>Request\<close> logs the request and its answer. \<open>readAll\<close> is what reading the body to its end comes to:
  the bytes, which are put back, or an error, after which \<open>rest\<close> is left of it. For the rest the
  middleware only passes on.
\<close>

definition Request :: "(bytes \<Rightarrow> bytes + bytes) \<Rightarrow> ('d, 'db, 'e) middleware" where
  "Request readAll next c =
     (case readAll (r_body (c_req c)) of
        Inl rest \<Rightarrow> next (c\<lparr>c_req := (c_req c)\<lparr>r_body := rest\<rparr>\<rparr>)
      | Inr b \<Rightarrow> next (c\<lparr>c_req := (c_req c)\<lparr>r_body := b\<rparr>\<rparr>))"

text \<open>
  The writer \<^verbatim>\<open>Request\<close> puts in place of the response's writer \<open>out\<close> (which answers how many bytes it
  took and its error): every write goes to \<open>out\<close> first and then, unless \<open>out\<close> reported an error or
  took too little (\<^verbatim>\<open>io.MultiWriter\<close>), to the buffer from which the answer is logged.
\<close>

definition bodyDump_Write ::
  "(bytes \<Rightarrow> 'w \<Rightarrow> (nat \<times> string option) \<times> 'w) \<Rightarrow> bytes \<Rightarrow> 'w \<times> bytes \<Rightarrow> (nat \<times> string option) \<times> 'w \<times> bytes" where
  "bodyDump_Write out b s =
     (case out b (fst s) of
        ((n, Some err), w) \<Rightarrow> ((n, Some err), w, snd s)
      | ((n, None), w) \<Rightarrow>
          if n \<noteq> length b then ((n, Some ''short write''), w, snd s)
          else ((length b, None), w, snd s @ b))"

fun dump_writes ::
  "(bytes \<Rightarrow> 'w \<Rightarrow> (nat \<times> string option) \<times> 'w) \<Rightarrow> bytes list \<Rightarrow> 'w \<times> bytes \<Rightarrow> (bytes \<times> string option) list \<times> 'w \<times> bytes" where
  "dump_writes out [] s = ([], s)"
| "dump_writes out (b # bs) s =
     (case bodyDump_Write out b s of
        ((n, err), t) \<Rightarrow> (case dump_writes out bs t of (rs, u) \<Rightarrow> ((b, err) # rs, u)))"

text \<open>The logged answer is, in order, the writes that the handler saw succeed, in full.\<close>

lemma dump_is_what_was_written:
  "dump_writes out bs (w, buf) = (rs, w', buf') \<Longrightarrow> buf' = buf @ concat (map fst (filter (\<lambda>r. snd r = None) rs))"
proof (induction bs arbitrary: w buf rs)
  case (Cons b bs)
  from Cons.prems Cons.IH show ?case
    by (force simp: bodyDump_Write_def split: prod.splits option.splits if_splits)
qed simp

section \<open>The access check\<close>

text \<open>
  The process state the check reads: the environment, the variables of the key functions, the Redis
  client (\<open>None\<close> before the connection was made) and the JWT library.
\<close>

record 'db access_env =
  a_env :: environment
  a_keys :: key_vars
  a_redis :: "'db RedisCmd option"
  a_parse :: jwt_parser

definition jwt_secret :: "environment \<Rightarrow> string" where
  "jwt_secret e = e ''APP_NAME'' @ ''-'' @ e ''APP_VERSION''"

definition deny :: "denial \<Rightarrow> ('d, 'db) ctx \<Rightarrow> 'e hresult \<times> ('d, 'db) ctx" where
  "deny d c = (HOk, c\<lparr>c_reply := Some (Denied 401 2 d)\<rparr>)"

definition add_id :: "string \<Rightarrow> ('d, 'db) ctx \<Rightarrow> ('d, 'db) ctx" where
  "add_id id' c = c\<lparr>c_req := (c_req c)\<lparr>r_query := r_query (c_req c) @ [(''id'', id')]\<rparr>\<rparr>"

definition Access :: "'db access_env \<Rightarrow> ('d, 'db, 'e) middleware" where
  "Access A next c =
     (let jwtstr = r_header (c_req c) ''jwt''
      in if jwtstr \<noteq> [] then
           (case JWTDecrypt (a_parse A) jwtstr (jwt_secret (a_env A)) of
              None \<Rightarrow> deny JwtParseError c
            | Some jwtobj \<Rightarrow>
                if claim_of jwtobj ''token'' = ClaimNil \<or> claim_of jwtobj ''id'' = ClaimNil then deny JwtParseError c
                else (case claim_of jwtobj ''id'' of
                    ClaimStr id' \<Rightarrow>
                      if a_env A ''DEBUG'' \<noteq> ''true'' then
                        (case a_redis A of
                           None \<Rightarrow> (HPanic, c)
                         | Some redisCmd \<Rightarrow>
                             (case stringCmd redisCmd (Req ''GET'' [UserTokenKey (a_keys A) id'] []) (c_db c) of
                                ((oldToken, Some err1), db1) \<Rightarrow> deny TokenFetchError (c\<lparr>c_db := db1\<rparr>)
                              | ((oldToken, None), db1) \<Rightarrow>
                                  if claim_of jwtobj ''token'' \<noteq> ClaimStr oldToken
                                  then deny LoggedInElsewhere (c\<lparr>c_db := db1\<rparr>)
                                  else next (add_id id' (c\<lparr>c_db := db1\<rparr>))))
                      else next (add_id id' c)
                  | _ \<Rightarrow> deny UserInfoError c))
         else if \<not> IsInnerIp (r_xff_ip (c_req c)) then deny ServerBusy c
         else next c)"

section \<open>Typed handlers\<close>

text \<open>
  \<^verbatim>\<open>Handler\<close> keeps one request and one response value for all calls. \<open>bind\<close> is echo's binding, which
  writes the fields it finds in a request into the value it is given, \<open>validate\<close> the validator
  (\<^verbatim>\<open>validator.go\<close>, which wraps every error as one of status 400).
\<close>

record ('req, 'resp) Handler =
  h_Path :: string
  h_Name :: string
  h_Tags :: "string list"
  h_req :: 'req
  h_resp :: 'resp

definition NewHandler :: "string \<Rightarrow> string list \<Rightarrow> 'req \<Rightarrow> 'resp \<Rightarrow> ('req, 'resp) Handler" where
  "NewHandler name' tags zero_req zero_resp =
     \<lparr>h_Path = [], h_Name = name', h_Tags = tags, h_req = zero_req, h_resp = zero_resp\<rparr>"

definition GetName :: "('req, 'resp) Handler \<Rightarrow> string" where "GetName h = h_Name h"
definition GetTags :: "('req, 'resp) Handler \<Rightarrow> string list" where "GetTags h = h_Tags h"

datatype 'e herr = BindErr 'e | HTTPError nat 'e | FuncErr 'e

definition CustomValidator :: "('req \<Rightarrow> 'e option) \<Rightarrow> 'req \<Rightarrow> 'e herr option" where
  "CustomValidator struct' i = (case struct' i of Some err \<Rightarrow> Some (HTTPError 400 err) | None \<Rightarrow> None)"

definition GetFunc ::
  "('b \<Rightarrow> 'req \<Rightarrow> 'req \<times> 'e option) \<Rightarrow> ('req \<Rightarrow> 'e herr option) \<Rightarrow> ('b \<Rightarrow> 'req \<Rightarrow> 'resp \<Rightarrow> 'e option) \<Rightarrow>
   ('req, 'resp) Handler \<Rightarrow> 'b \<Rightarrow> 'e herr option \<times> ('req, 'resp) Handler" where
  "GetFunc bind validate func h c =
     (case bind c (h_req h) of
        (req1, Some err) \<Rightarrow> (Some (BindErr err), h\<lparr>h_req := req1\<rparr>)
      | (req1, None) \<Rightarrow>
          (let h1 = h\<lparr>h_req := req1\<rparr>
           in case validate (h_req h1) of
                Some err \<Rightarrow> (Some err, h1)
              | None \<Rightarrow> (map_option FuncErr (func c (h_req h1) (h_resp h1)), h1)))"

text \<open>
  The requests of a route that are handled one after the other: each with its result and the handler
  it leaves. (The server runs the function in one goroutine per request, without a lock; requests
  handled at the same time race on the fields of the one request value, which Go leaves undefined
  and which is not modelled.)
\<close>

fun serve_all ::
  "('b \<Rightarrow> 'req \<Rightarrow> 'req \<times> 'e option) \<Rightarrow> ('req \<Rightarrow> 'e herr option) \<Rightarrow> ('b \<Rightarrow> 'req \<Rightarrow> 'resp \<Rightarrow> 'e option) \<Rightarrow>
   ('req, 'resp) Handler \<Rightarrow> 'b list \<Rightarrow> ('e herr option \<times> ('req, 'resp) Handler) list" where
  "serve_all bind validate func h [] = []"
| "serve_all bind validate func h (c # cs) =
     (case GetFunc bind validate func h c of (e, h1) \<Rightarrow> (e, h1) # serve_all bind validate func h1 cs)"

text \<open>The list of handlers.\<close>

definition NewHandlers :: "'h list" where "NewHandlers = []"
definition GetHandlers :: "'h list \<Rightarrow> 'h list" where "GetHandlers hs = hs"
definition AddHandlers :: "'h \<Rightarrow> 'h list \<Rightarrow> 'h list" where "AddHandlers handler hs = hs @ [handler]"
definition GetHandlersLen :: "'h list \<Rightarrow> nat" where "GetHandlersLen hs = length hs"

section \<open>The server\<close>

record HttpServerConfig =
  hc_Port :: int
  hc_Address :: string
  hc_Path :: string
  hc_Cors :: bool
  hc_RequestLog :: bool
  hc_Access :: bool

datatype builtin = UseCors | UseRequest | UseAccess

text \<open>
  The calls on the engine: \<open>EUse\<close> installs a middleware of the library, \<open>EUseExt\<close> one of the caller,
  \<open>EGroup\<close> makes a group under a prefix, \<open>EAdd\<close> and \<open>EGroupAdd\<close> register a route. Handlers and the
  caller's middlewares are known by a number.
\<close>

datatype engine_call =
    EUse builtin
  | EUseExt nat
  | EGroup string "nat list"
  | EAdd string string nat
  | EGroupAdd string string string nat

record StarDustGroup =
  g_Prefix :: string
  g_Group :: string

record HttpServer =
  hs_addr :: string
  hs_path :: string
  hs_engine :: "engine_call list"
  hs_group :: "string \<rightharpoonup> StarDustGroup"

definition NewStarDustGroup :: "string \<Rightarrow> string \<Rightarrow> StarDustGroup" where
  "NewStarDustGroup p g = \<lparr>g_Prefix = p, g_Group = g\<rparr>"

datatype http_err = PathMustStartWithSlash

datatype srv_panic = ConfigParse string

definition NewHttpServer ::
  "(bytes \<Rightarrow> HttpServerConfig \<times> string option) \<Rightarrow> bytes \<Rightarrow> (srv_panic, http_err + HttpServer) outcome" where
  "NewHttpServer parse configByte =
     (case parse configByte of
        (_, Some err) \<Rightarrow> Panics (ConfigParse err)
      | (cfg, None) \<Rightarrow>
          (let addr = hc_Address cfg @ '':'' @ Sprint_d (hc_Port cfg);
               uses = (if hc_Cors cfg then [EUse UseCors] else []) @
                      (if hc_RequestLog cfg then [EUse UseRequest] else []) @
                      (if hc_Access cfg then [EUse UseAccess] else [])
           in if hc_Path cfg \<noteq> [] \<and> hd (hc_Path cfg) \<noteq> CHR ''/'' then Returns (Inl PathMustStartWithSlash)
              else Returns (Inr \<lparr>hs_addr = addr, hs_path = hc_Path cfg, hs_engine = uses, hs_group = Map.empty\<rparr>)))"

definition Use :: "nat list \<Rightarrow> HttpServer \<Rightarrow> HttpServer" where
  "Use ms m = m\<lparr>hs_engine := hs_engine m @ map EUseExt ms\<rparr>"

text \<open>
  \<^verbatim>\<open>path.Clean\<close> of a rooted path, by its segments: empty and dot segments go, a double dot takes the
  segment before it along. \<^verbatim>\<open>url.JoinPath\<close> is modelled for texts of characters that stand for
  themselves in the path of a URL (no percent sign, question mark, hash or blank).
\<close>

fun clean_segments :: "string list \<Rightarrow> string list \<Rightarrow> string list" where
  "clean_segments out [] = rev out"
| "clean_segments out (s # ss) =
     (if s = [] \<or> s = ''.'' then clean_segments out ss
      else if s = ''..'' then clean_segments (tl out) ss
      else clean_segments (s # out) ss)"

definition path_Clean :: "string \<Rightarrow> string" where
  "path_Clean p = ''/'' @ strings_Join (clean_segments [] (strings_Split p ''/'')) ''/''"

definition url_JoinPath :: "string \<Rightarrow> string list \<Rightarrow> string" where
  "url_JoinPath base elem =
     (let elems = base # elem;
          rooted = base \<noteq> [] \<and> hd base = CHR ''/'';
          full = path_Clean (strings_Join (filter (\<lambda>e. e \<noteq> []) ((if rooted then base else ''/'' @ base) # elem)) ''/'');
          p = (if rooted then full else tl full);
          l = List.last elems
      in if l \<noteq> [] \<and> List.last l = CHR ''/'' \<and> \<not> (p \<noteq> [] \<and> List.last p = CHR ''/'') then p @ ''/'' else p)"

definition Handle :: "string \<Rightarrow> string \<Rightarrow> nat \<Rightarrow> HttpServer \<Rightarrow> HttpServer" where
  "Handle method path handler m =
     m\<lparr>hs_engine := hs_engine m @ [EAdd method (url_JoinPath (hs_path m) [''api'', path]) handler]\<rparr>"

definition Internal :: "string \<Rightarrow> string \<Rightarrow> nat \<Rightarrow> HttpServer \<Rightarrow> HttpServer" where
  "Internal method path handler m =
     m\<lparr>hs_engine := hs_engine m @ [EAdd method (url_JoinPath (hs_path m) [''internal'', path]) handler]\<rparr>"

definition AddGroup :: "string \<Rightarrow> nat list \<Rightarrow> HttpServer \<Rightarrow> HttpServer" where
  "AddGroup path middleware' m =
     (let urlPath = url_JoinPath (hs_path m) [''api'', path]
      in m\<lparr>hs_engine := hs_engine m @ [EGroup urlPath middleware'],
           hs_group := (hs_group m)(path \<mapsto> NewStarDustGroup path urlPath)\<rparr>)"

definition group_route :: "string \<Rightarrow> string \<Rightarrow> string \<Rightarrow> nat \<Rightarrow> HttpServer \<Rightarrow> HttpServer" where
  "group_route method path grp handler m =
     (if grp \<noteq> [] then
        (case hs_group m grp of
           None \<Rightarrow> m
         | Some g \<Rightarrow> m\<lparr>hs_engine := hs_engine m @ [EGroupAdd (g_Group g) method (''/'' @ path) handler]\<rparr>)
      else Handle method path handler m)"

definition Server_Get :: "string \<Rightarrow> string \<Rightarrow> nat \<Rightarrow> HttpServer \<Rightarrow> HttpServer" where
  "Server_Get path grp handler m = group_route ''GET'' path grp handler m"

definition Server_Post :: "string \<Rightarrow> string \<Rightarrow> nat \<Rightarrow> HttpServer \<Rightarrow> HttpServer" where
  "Server_Post path grp handler m = group_route ''POST'' path grp handler m"

definition AddNativeHandler :: "string \<Rightarrow> string \<Rightarrow> nat \<Rightarrow> HttpServer \<Rightarrow> HttpServer" where
  "AddNativeHandler method path handler m =
     m\<lparr>hs_engine := hs_engine m @ [EAdd method (url_JoinPath (hs_path m) [''api'', path]) handler]\<rparr>"

section \<open>Start and shutdown\<close>

datatype serve_err = ErrServerClosed | ServeErr string

text \<open>How a call ends: it returns an error or nil, or the logger's \<^verbatim>\<open>Fatal\<close> ends the process with status 1.\<close>

datatype ending = Return "serve_err option" | Exit nat

definition Startup :: "serve_err option \<Rightarrow> ending" where
  "Startup err = (if err \<noteq> None \<and> err \<noteq> Some ErrServerClosed then Exit 1 else Return None)"

text \<open>
  \<^verbatim>\<open>Stop\<close> and \<^verbatim>\<open>GracefulStop\<close>. The engine's shutdown is a parameter; it is given the time limit in
  seconds of its context, which \<^verbatim>\<open>Stop\<close> leaves open. Only \<^verbatim>\<open>GracefulStop\<close> reports the error.
\<close>

definition Server_Stop :: "(nat option \<Rightarrow> 'w \<Rightarrow> serve_err option \<times> 'w) \<Rightarrow> 'w \<Rightarrow> 'w" where
  "Server_Stop shutdown w = (case shutdown None w of (Some err, w1) \<Rightarrow> w1 | (None, w1) \<Rightarrow> w1)"

definition GracefulStop :: "(nat option \<Rightarrow> 'w \<Rightarrow> serve_err option \<times> 'w) \<Rightarrow> 'w \<Rightarrow> ending \<times> 'w" where
  "GracefulStop shutdown w =
     (case shutdown (Some 30) w of (Some err, w1) \<Rightarrow> (Return (Some err), w1) | (None, w1) \<Rightarrow> (Return None, w1))"

text \<open>
  \<^verbatim>\<open>StartWithGracefulShutdown\<close>: a goroutine runs the engine, the caller waits for a signal and then
  shuts the engine down (\<^verbatim>\<open>WaitForShutdown\<close>). Meanwhile anybody may call \<^verbatim>\<open>Stop\<close> or \<^verbatim>\<open>GracefulStop\<close>,
  which shut the engine down as well. As \<^verbatim>\<open>net/http\<close> documents, the engine's \<^verbatim>\<open>Start\<close> answers
  \<^verbatim>\<open>ErrServerClosed\<close> only once a shutdown has begun (\<open>gs_shut\<close>); any other error can come at any time.
\<close>

datatype shutdown_phase = WaitSignal | Signalled | Draining | Ended "serve_err option"

record graceful =
  gs_serving :: bool
  gs_shut :: bool
  gs_phase :: shutdown_phase
  gs_exit :: "nat option"

datatype graceful_event =
    ServerReturns serve_err
  | SignalComes
  | ShutdownBegins
  | ShutdownReturns "serve_err option"
  | StopCalled

definition StartWithGracefulShutdown :: graceful where
  "StartWithGracefulShutdown = \<lparr>gs_serving = True, gs_shut = False, gs_phase = WaitSignal, gs_exit = None\<rparr>"

definition server_returns :: "serve_err \<Rightarrow> graceful \<Rightarrow> graceful option" where
  "server_returns err s =
     (if gs_serving s \<and> (err = ErrServerClosed \<longrightarrow> gs_shut s)
      then Some (s\<lparr>gs_serving := False, gs_exit := (if err = ErrServerClosed then Some 1 else None)\<rparr>)
      else None)"

fun WaitForShutdown :: "graceful_event \<Rightarrow> graceful \<Rightarrow> graceful option" where
  "WaitForShutdown SignalComes s = (if gs_phase s = WaitSignal then Some (s\<lparr>gs_phase := Signalled\<rparr>) else None)"
| "WaitForShutdown ShutdownBegins s =
     (if gs_phase s = Signalled then Some (s\<lparr>gs_phase := Draining, gs_shut := True\<rparr>) else None)"
| "WaitForShutdown (ShutdownReturns err) s = (if gs_phase s = Draining then Some (s\<lparr>gs_phase := Ended err\<rparr>) else None)"
| "WaitForShutdown StopCalled s = Some (s\<lparr>gs_shut := True\<rparr>)"
| "WaitForShutdown (ServerReturns err) s = server_returns err s"

text \<open>Nothing happens in a process that has ended.\<close>

definition graceful_step :: "graceful_event \<Rightarrow> graceful \<Rightarrow> graceful option" where
  "graceful_step e s = (if gs_exit s \<noteq> None then None else WaitForShutdown e s)"

section \<open>The backend\<close>

record Backend =
  b_config :: HttpServerConfig
  b_server :: HttpServer

definition NewBackend ::
  "(bytes \<Rightarrow> HttpServerConfig \<times> string option) \<Rightarrow> bytes \<Rightarrow> (srv_panic, http_err + Backend) outcome" where
  "NewBackend parse cfg =
     (case NewHttpServer parse cfg of
        Panics e \<Rightarrow> Panics e
      | Returns (Inl err) \<Rightarrow> Returns (Inl err)
      | Returns (Inr srv) \<Rightarrow>
          (case parse cfg of
             (_, Some err) \<Rightarrow> Panics (ConfigParse err)
           | (configStruct, None) \<Rightarrow> Returns (Inr \<lparr>b_config = configStruct, b_server = srv\<rparr>)))"

definition on_server :: "(HttpServer \<Rightarrow> HttpServer) \<Rightarrow> Backend \<Rightarrow> Backend" where
  "on_server f m = m\<lparr>b_server := f (b_server m)\<rparr>"

definition Backend_AddGroup :: "string \<Rightarrow> nat list \<Rightarrow> Backend \<Rightarrow> Backend" where
  "Backend_AddGroup grp middleware' = on_server (AddGroup grp middleware')"

text \<open>A handler is passed with its number; its name is the path.\<close>

definition AddPostHandler :: "string \<Rightarrow> ('req, 'resp) Handler \<Rightarrow> nat \<Rightarrow> Backend \<Rightarrow> Backend" where
  "AddPostHandler grp h i = on_server (Server_Post (GetName h) grp i)"

definition AddGetHandler :: "string \<Rightarrow> ('req, 'resp) Handler \<Rightarrow> nat \<Rightarrow> Backend \<Rightarrow> Backend" where
  "AddGetHandler grp h i = on_server (Server_Get (GetName h) grp i)"

definition AddHandler :: "string \<Rightarrow> string \<Rightarrow> nat \<Rightarrow> Backend \<Rightarrow> Backend" where
  "AddHandler method path i = on_server (Handle method path i)"

definition Backend_AddNativeHandler :: "string \<Rightarrow> string \<Rightarrow> nat \<Rightarrow> Backend \<Rightarrow> Backend" where
  "Backend_AddNativeHandler method path i = on_server (AddNativeHandler method path i)"

definition Backend_Start :: "serve_err option \<Rightarrow> ending" where
  "Backend_Start err = Startup err"

text \<open>
  \<^verbatim>\<open>Stop\<close> of the backend waits for the signal and drops the error of the shutdown; the engine runs in
  the goroutine that called \<^verbatim>\<open>Start\<close>, where \<^verbatim>\<open>Startup\<close> decides what its return means.
\<close>

fun Backend_Stop :: "graceful_event \<Rightarrow> graceful \<Rightarrow> graceful option" where
  "Backend_Stop SignalComes s = WaitForShutdown SignalComes s"
| "Backend_Stop ShutdownBegins s = WaitForShutdown ShutdownBegins s"
| "Backend_Stop StopCalled s = WaitForShutdown StopCalled s"
| "Backend_Stop (ShutdownReturns err) s =
     map_option (\<lambda>t. t\<lparr>gs_phase := Ended None\<rparr>) (WaitForShutdown (ShutdownReturns err) s)"
| "Backend_Stop (ServerReturns err) s =
     map_option (\<lambda>t. t\<lparr>gs_exit := (case Backend_Start (Some err) of Exit n \<Rightarrow> Some n | Return _ \<Rightarrow> None)\<rparr>) (server_returns err s)"

definition backend_step :: "graceful_event \<Rightarrow> graceful \<Rightarrow> graceful option" where
  "backend_step e s = (if gs_exit s \<noteq> None then None else Backend_Stop e s)"

text \<open>What the handlers are given of a request.\<close>

record http_context =
  x_RemoteAddr :: string
  x_ClientId :: string
  x_Header :: "string \<Rightarrow> string"

definition NewContext :: "http_request \<Rightarrow> http_context" where
  "NewContext r =
     \<lparr>x_RemoteAddr = GetRemoteAddr (r_header r) (r_remoteAddr r), x_ClientId = r_header r ''X-Client-ID'', x_Header = r_header r\<rparr>"

text \<open>
  The engine runs the installed middlewares in the order of their installation around the route of
  the request.
\<close>

definition builtin_mw ::
  "(bytes \<Rightarrow> bytes + bytes) \<Rightarrow> 'db access_env \<Rightarrow> builtin \<Rightarrow> ('d, 'db, 'e) middleware" where
  "builtin_mw readAll A b = (case b of UseCors \<Rightarrow> Cors | UseRequest \<Rightarrow> Request readAll | UseAccess \<Rightarrow> Access A)"

fun serve ::
  "(bytes \<Rightarrow> bytes + bytes) \<Rightarrow> 'db access_env \<Rightarrow> (nat \<Rightarrow> ('d, 'db, 'e) middleware) \<Rightarrow> engine_call list \<Rightarrow>
   ('d, 'db, 'e) handler_fn \<Rightarrow> ('d, 'db, 'e) handler_fn" where
  "serve readAll A ext [] route = route"
| "serve readAll A ext (EUse b # cs) route = builtin_mw readAll A b (serve readAll A ext cs route)"
| "serve readAll A ext (EUseExt i # cs) route = ext i (serve readAll A ext cs route)"
| "serve readAll A ext (EGroup _ _ # cs) route = serve readAll A ext cs route"
| "serve readAll A ext (EAdd _ _ _ # cs) route = serve readAll A ext cs route"
| "serve readAll A ext (EGroupAdd _ _ _ _ # cs) route = serve readAll A ext cs route"

section \<open>Who is let in\<close>

text \<open>
  The requests the access check lets through, without its order of tests: a token that the JWT
  library accepts for the secret, with a text for \<^verbatim>\<open>id\<close> and some value for \<^verbatim>\<open>token\<close>, and, unless the
  process runs in debug mode, the same text as token in Redis; or no token and an inner address.
\<close>

definition admitted_as :: "'db access_env \<Rightarrow> http_request \<Rightarrow> 'db \<Rightarrow> string option \<Rightarrow> 'db \<Rightarrow> bool" where
  "admitted_as A r db who db' \<longleftrightarrow>
     (\<exists>id' cl. who = Some id' \<and> r_header r ''jwt'' \<noteq> [] \<and>
        JWTDecrypt (a_parse A) (r_header r ''jwt'') (jwt_secret (a_env A)) = Some cl \<and>
        claim_of cl ''id'' = ClaimStr id' \<and> claim_of cl ''token'' \<noteq> ClaimNil \<and>
        (if a_env A ''DEBUG'' = ''true'' then db' = db
         else \<exists>R tok. a_redis A = Some R \<and> claim_of cl ''token'' = ClaimStr tok \<and>
                stringCmd R (Req ''GET'' [UserTokenKey (a_keys A) id'] []) db = ((tok, None), db'))) \<or>
     (who = None \<and> r_header r ''jwt'' = [] \<and> db' = db \<and>
        (\<exists>a b c d. r_xff_ip r = dotted [a, b, c, d] \<and> a < 256 \<and> b < 256 \<and> c < 256 \<and> d < 256 \<and> inner_quad a b))"

definition identified :: "string option \<Rightarrow> ('d, 'db) ctx \<Rightarrow> ('d, 'db) ctx" where
  "identified who c = (case who of None \<Rightarrow> c | Some id' \<Rightarrow> add_id id' c)"

lemma Access_admits:
  assumes "admitted_as A (c_req c) (c_db c) who db'"
  shows "Access A nxt c = nxt (identified who (c\<lparr>c_db := db'\<rparr>))"
  using assms
  by (auto simp: admitted_as_def Access_def Let_def identified_def IsInnerIp_quad split: if_splits)

text \<open>A result that does not depend on what comes behind the check, and is a refusal.\<close>

definition refused ::
  "'db access_env \<Rightarrow> ('d, 'db) ctx \<Rightarrow> (('d, 'db, 'e) handler_fn \<Rightarrow> 'e hresult \<times> ('d, 'db) ctx) \<Rightarrow> bool" where
  "refused A c f \<longleftrightarrow> (\<exists>res c'. (\<forall>nxt. f nxt = (res, c')) \<and>
     (res = HPanic \<and> a_redis A = None \<or> res = HOk \<and> (\<exists>d. c_reply c' = Some (Denied 401 2 d))))"

lemma refused_deny: "refused A c (\<lambda>nxt. deny d c')"
  by (simp add: refused_def deny_def)

lemma Access_refuses:
  assumes "\<nexists>who db'. admitted_as A (c_req c) (c_db c) who db'"
  shows "refused A c (\<lambda>nxt. Access A nxt c)"
proof (cases "r_header (c_req c) ''jwt'' = []")
  case True
  then have "\<not> IsInnerIp (r_xff_ip (c_req c))"
    using assms by (auto simp: admitted_as_def IsInnerIp_quad)
  with True show ?thesis by (simp add: Access_def refused_deny)
next
  case jwt: False
  show ?thesis
  proof (cases "JWTDecrypt (a_parse A) (r_header (c_req c) ''jwt'') (jwt_secret (a_env A))")
    case None
    with jwt show ?thesis by (simp add: Access_def refused_deny)
  next
    case (Some cl)
    show ?thesis
    proof (cases "claim_of cl ''token'' = ClaimNil \<or> (\<forall>id'. claim_of cl ''id'' \<noteq> ClaimStr id')")
      case True
      with jwt Some show ?thesis
        by (cases "claim_of cl ''token'' = ClaimNil"; cases "claim_of cl ''id''") (auto simp: Access_def intro: refused_deny)
    next
      case False
      then obtain id' where tok: "claim_of cl ''token'' \<noteq> ClaimNil" and id': "claim_of cl ''id'' = ClaimStr id'" by blast
      with jwt Some assms have dbg: "a_env A ''DEBUG'' \<noteq> ''true''"
        by (auto simp: admitted_as_def)
      show ?thesis
      proof (cases "a_redis A")
        case None
        with jwt Some tok id' dbg show ?thesis by (simp add: Access_def refused_def)
      next
        case (Some R)
        obtain old err db' where R: "stringCmd R (Req ''GET'' [UserTokenKey (a_keys A) id'] []) (c_db c) = ((old, err), db')"
          by (metis surj_pair)
        have "err \<noteq> None \<or> claim_of cl ''token'' \<noteq> ClaimStr old"
          using assms jwt \<open>JWTDecrypt _ _ _ = Some cl\<close> tok id' dbg Some R by (fastforce simp: admitted_as_def)
        with jwt \<open>JWTDecrypt _ _ _ = Some cl\<close> tok id' dbg Some R
        show ?thesis by (cases err) (auto simp: Access_def intro: refused_deny)
      qed
    qed
  qed
qed

text \<open>What the middlewares in front of the check do to a request.\<close>

definition before_access :: "(bytes \<Rightarrow> bytes + bytes) \<Rightarrow> HttpServerConfig \<Rightarrow> ('d, 'db) ctx \<Rightarrow> ('d, 'db) ctx" where
  "before_access readAll cfg c =
     (let c1 = (if hc_Cors cfg then cors_headers c else c)
      in if hc_RequestLog cfg
         then c1\<lparr>c_req := (c_req c1)\<lparr>r_body := (case readAll (r_body (c_req c1)) of Inl rest \<Rightarrow> rest | Inr b \<Rightarrow> b)\<rparr>\<rparr>
         else c1)"

lemma cors_headers_req [simp]: "c_req (cors_headers c) = c_req c" "c_db (cors_headers c) = c_db c"
  by (simp_all add: cors_headers_def set_header_def)

lemma before_access_db [simp]: "c_db (before_access readAll cfg c) = c_db c"
  by (simp add: before_access_def Let_def)

lemma admitted_body [simp]: "admitted_as A (r\<lparr>r_body := b\<rparr>) db = admitted_as A r db"
  by (intro ext) (simp add: admitted_as_def)

lemma before_access_admitted [simp]:
  "admitted_as A (c_req (before_access readAll cfg c)) = admitted_as A (c_req c)"
  by (intro ext) (simp add: before_access_def Let_def)

lemma serve_new_server:
  assumes "NewHttpServer parse cfgb = Returns (Inr srv)" "parse cfgb = (cfg, None)" "hc_Access cfg"
  shows "serve readAll A mws (hs_engine srv @ calls) route c =
    (if hc_Cors cfg \<and> r_method (c_req c) = ''OPTIONS''
     then (HOk, (cors_headers c)\<lparr>c_reply := Some (NoContent 204)\<rparr>)
     else Access A (serve readAll A mws calls route) (before_access readAll cfg c))"
  using assms
  by (auto simp: NewHttpServer_def Let_def builtin_mw_def Cors_def Request_def before_access_def
      split: if_splits sum.splits)

text \<open>
  C3. The access check guards every route. On a server created with the check switched on, whatever
  routes, groups and middlewares are registered later: a request that is let in (a verified token
  whose text is the one stored for the user, or in debug mode any; or no token and an address of
  the inner network) reaches them, with the user's id added to the query; every other request gets
  status 401, or ends in a panic when there is no Redis client yet, and what is registered has no
  influence on the answer. The only exception are \<^verbatim>\<open>OPTIONS\<close> requests with the CORS middleware in
  front, which are answered at once.
\<close>

theorem access_guards_routes:
  fixes c :: "('d, 'db) ctx"
  assumes "NewHttpServer parse cfgb = Returns (Inr srv)" and "parse cfgb = (cfg, None)" and "hc_Access cfg"
    and "\<not> (hc_Cors cfg \<and> r_method (c_req c) = ''OPTIONS'')"
  shows "(\<forall>who db'. admitted_as A (c_req c) (c_db c) who db' \<longrightarrow>
            (\<forall>calls mws route. serve readAll A mws (hs_engine srv @ calls) route c =
               serve readAll A mws calls route (identified who ((before_access readAll cfg c)\<lparr>c_db := db'\<rparr>)))) \<and>
         ((\<nexists>who db'. admitted_as A (c_req c) (c_db c) who db') \<longrightarrow>
            (\<exists>(res :: 'e hresult) c'. (\<forall>calls mws route. serve readAll A mws (hs_engine srv @ calls) route c = (res, c')) \<and>
               (res = HPanic \<and> a_redis A = None \<or> res = HOk \<and> (\<exists>d. c_reply c' = Some (Denied 401 2 d)))))"
proof (intro conjI allI impI)
  let ?c = "before_access readAll cfg c"
  have eq: "serve readAll A mws (hs_engine srv @ calls) route c = Access A (serve readAll A mws calls route) ?c" for mws calls route
    using assms(4) by (auto simp add: serve_new_server [OF assms(1-3)])
  fix who db' calls mws route
  assume "admitted_as A (c_req c) (c_db c) who db'"
  then have "admitted_as A (c_req ?c) (c_db ?c) who db'" by simp
  from Access_admits [OF this] show "serve readAll A mws (hs_engine srv @ calls) route c =
      serve readAll A mws calls route (identified who (?c\<lparr>c_db := db'\<rparr>))"
    unfolding eq .
next
  let ?c = "before_access readAll cfg c"
  have eq: "serve readAll A mws (hs_engine srv @ calls) route c = Access A (serve readAll A mws calls route) ?c" for mws calls route
    using assms(4) by (auto simp add: serve_new_server [OF assms(1-3)])
  assume "\<nexists>who db'. admitted_as A (c_req c) (c_db c) who db'"
  then have "\<nexists>who db'. admitted_as A (c_req ?c) (c_db ?c) who db'" by simp
  then have "refused A ?c (\<lambda>nxt :: ('d, 'db, 'e) handler_fn. Access A nxt ?c)" by (rule Access_refuses)
  then show "\<exists>(res :: 'e hresult) c'. (\<forall>calls mws route. serve readAll A mws (hs_engine srv @ calls) route c = (res, c')) \<and>
               (res = HPanic \<and> a_redis A = None \<or> res = HOk \<and> (\<exists>d. c_reply c' = Some (Denied 401 2 d)))"
    unfolding eq refused_def by blast
qed

definition demo_cfg :: HttpServerConfig where
  "demo_cfg = \<lparr>hc_Port = 80, hc_Address = ''h'', hc_Path = ''/x'', hc_Cors = True, hc_RequestLog = False, hc_Access = True\<rparr>"

definition demo_env :: "unit access_env" where
  "demo_env = \<lparr>a_env = (\<lambda>_. [])(''DEBUG'' := ''true''), a_keys = \<lparr>appName = [], appVersion = []\<rparr>, a_redis = None,
     a_parse = (\<lambda>t k. if t = ''tok'' \<and> k (HMAC ''256'') = Some ''-''
                      then Inr (Some [(''id'', ClaimStr ''7''), (''token'', ClaimStr ''s'')], True) else Inl ''bad'')\<rparr>"

definition demo_ctx :: "string \<Rightarrow> string \<Rightarrow> (unit, unit) ctx" where
  "demo_ctx jwt ip = \<lparr>c_req = \<lparr>r_method = ''GET'', r_header = (\<lambda>k. if k = ''jwt'' then jwt else []), r_remoteAddr = [],
     r_xff_ip = ip, r_body = [], r_query = []\<rparr>, c_headers = [], c_reply = None, c_db = ()\<rparr>"

lemma outer_address: "\<not> IsInnerIp ''8.8.8.8''"
proof -
  have q: "dotted [8, 8, 8, 8] = ''8.8.8.8''" by code_simp
  have "NetAton ''8.8.8.8'' = 8 * 2 ^ 24 + 8 * 2 ^ 16 + 8 * 2 ^ 8 + 8"
    using NetAton_dotted [of 8 8 8 8] by (simp add: q)
  then show ?thesis by (simp add: IsInnerIp_number inner_number_def)
qed

lemma demo_admitted:
  "admitted_as demo_env (c_req (demo_ctx ''tok'' [])) (c_db (demo_ctx ''tok'' [])) (Some ''7'') ()"
  by (simp add: admitted_as_def demo_env_def demo_ctx_def JWTDecrypt_def jwt_secret_def hmac_key_def claim_of_def)

lemma demo_refused: "\<nexists>who db'. admitted_as demo_env (c_req (demo_ctx [] ''8.8.8.8'')) (c_db (demo_ctx [] ''8.8.8.8'')) who db'"
  using outer_address by (auto simp: admitted_as_def demo_ctx_def IsInnerIp_quad)

theorem access_guards_routes_witness:
  "\<exists>srv. NewHttpServer (\<lambda>_. (demo_cfg, None)) [] = Returns (Inr srv) \<and>
     (\<forall>route :: (unit, unit, unit) handler_fn. serve Inr demo_env (\<lambda>_ h. h) (hs_engine srv) route (demo_ctx ''tok'' []) =
        route (add_id ''7'' (cors_headers (demo_ctx ''tok'' [])))) \<and>
     (\<exists>res c'. \<forall>route :: (unit, unit, unit) handler_fn. serve Inr demo_env (\<lambda>_ h. h) (hs_engine srv) route (demo_ctx [] ''8.8.8.8'') = (res, c'))"
proof -
  obtain srv where srv: "NewHttpServer (\<lambda>_. (demo_cfg, None)) [] = Returns (Inr srv)"
    by (simp add: NewHttpServer_def demo_cfg_def)
  have a: "hc_Access demo_cfg" by (simp add: demo_cfg_def)
  have m: "\<not> (hc_Cors demo_cfg \<and> r_method (c_req (demo_ctx j ip)) = ''OPTIONS'')" for j ip
    by (simp add: demo_ctx_def)
  have "serve Inr demo_env (\<lambda>_ h. h) (hs_engine srv @ []) route (demo_ctx ''tok'' []) =
      serve Inr demo_env (\<lambda>_ h. h) [] route (identified (Some ''7'') ((before_access Inr demo_cfg (demo_ctx ''tok'' []))\<lparr>c_db := ()\<rparr>))"
    for route :: "(unit, unit, unit) handler_fn"
    using access_guards_routes [OF srv refl a m [of "''tok''" "[]"], where A = demo_env and readAll = Inr, THEN conjunct1] demo_admitted by blast
  then have "serve Inr demo_env (\<lambda>_ h. h) (hs_engine srv) route (demo_ctx ''tok'' []) = route (add_id ''7'' (cors_headers (demo_ctx ''tok'' [])))"
    for route :: "(unit, unit, unit) handler_fn"
    by (simp add: identified_def before_access_def demo_cfg_def cors_headers_def set_header_def demo_ctx_def)
  moreover have "\<exists>(res :: unit hresult) c'. (\<forall>calls mws route. serve Inr demo_env mws (hs_engine srv @ calls) route (demo_ctx [] ''8.8.8.8'') = (res, c')) \<and>
      (res = HPanic \<and> a_redis demo_env = None \<or> res = HOk \<and> (\<exists>d. c_reply c' = Some (Denied 401 2 d)))"
    using access_guards_routes [OF srv refl a m [of "[]" "''8.8.8.8''"], where A = demo_env and readAll = Inr, THEN conjunct2] demo_refused by blast
  ultimately show ?thesis using srv by (metis append_Nil2)
qed

section \<open>One request value for all requests\<close>

text \<open>The value of a field after the requests: that of the last one that set it.\<close>

definition last_set :: "('b \<Rightarrow> 'f \<Rightarrow> 'v option) \<Rightarrow> 'f \<Rightarrow> 'v \<Rightarrow> 'b list \<Rightarrow> 'v" where
  "last_set sets f v cs = (case filter (\<lambda>c. sets c f \<noteq> None) (rev cs) of [] \<Rightarrow> v | c # _ \<Rightarrow> the (sets c f))"

lemma last_set_Cons: "last_set sets f v (c # cs) = last_set sets f (case sets c f of Some x \<Rightarrow> x | None \<Rightarrow> v) cs"
  by (auto simp: last_set_def split: list.split option.split)

text \<open>What a request is answered with, from the error of its binding and the bound value.\<close>

definition answer ::
  "('req \<Rightarrow> 'e herr option) \<Rightarrow> ('b \<Rightarrow> 'req \<Rightarrow> 'resp \<Rightarrow> 'e option) \<Rightarrow> 'b \<Rightarrow> 'e option \<Rightarrow> 'req \<Rightarrow> 'resp \<Rightarrow> 'e herr option" where
  "answer validate func c bind_err req resp =
     (case bind_err of
        Some err \<Rightarrow> Some (BindErr err)
      | None \<Rightarrow> (case validate req of Some err \<Rightarrow> Some err | None \<Rightarrow> map_option FuncErr (func c req resp)))"

text \<open>
  What binding a request does, as echo documents it: it writes the fields that the request has and leaves the
  others. \<open>get f r\<close> is field \<open>f\<close> of a request value, \<open>sets c f\<close> what the request \<open>c\<close> has for it (for a
  request that is rejected half-way, what was written before).
\<close>

locale request_binding =
  fixes bind :: "'b \<Rightarrow> 'req \<Rightarrow> 'req \<times> 'e option" and get :: "'f \<Rightarrow> 'req \<Rightarrow> 'v" and sets :: "'b \<Rightarrow> 'f \<Rightarrow> 'v option"
  assumes bind_get: "get f (fst (bind c r)) = (case sets c f of Some v \<Rightarrow> v | None \<Rightarrow> get f r)"
begin

lemma GetFunc_req: "h_req (snd (GetFunc bind validate func h c)) = fst (bind c (h_req h))"
  and GetFunc_resp: "h_resp (snd (GetFunc bind validate func h c)) = h_resp h"
  by (auto simp: GetFunc_def Let_def split: prod.splits option.splits)

lemma serve_all_fields:
  assumes "i < length cs"
  shows "length (serve_all bind validate func h cs) = length cs \<and>
    h_resp (snd (serve_all bind validate func h cs ! i)) = h_resp h \<and>
    get f (h_req (snd (serve_all bind validate func h cs ! i))) = last_set sets f (get f (h_req h)) (take (Suc i) cs)"
  using assms
proof (induction cs arbitrary: h i)
  case (Cons c cs)
  let ?h1 = "snd (GetFunc bind validate func h c)"
  have len: "length (serve_all bind validate func h' xs) = length xs" for h' xs
    by (induction xs arbitrary: h') (simp_all split: prod.split)
  show ?case
  proof (cases i)
    case 0
    then show ?thesis
      using len GetFunc_req [of validate func h c] GetFunc_resp [of validate func h c]
      by (auto simp: bind_get last_set_Cons split: prod.splits) (simp_all add: last_set_def)
  next
    case (Suc j)
    with Cons.IH [of j ?h1] Cons.prems GetFunc_resp [of validate func h c] GetFunc_req [of validate func h c] len
    show ?thesis by (auto simp: bind_get last_set_Cons split: prod.splits)
  qed
qed simp

lemma serve_all_result:
  assumes "i < length cs" and "serve_all bind validate func h cs ! i = (e, h1)"
  shows "let r = h_req (if i = 0 then h else snd (serve_all bind validate func h cs ! (i - 1))) in
    e = answer validate func (cs ! i) (snd (bind (cs ! i) r)) (h_req h1) (h_resp h)"
  using assms
proof (induction cs arbitrary: h i)
  case (Cons c cs)
  let ?h1 = "snd (GetFunc bind validate func h c)"
  have later: "serve_all bind validate func h (c # cs) ! Suc j = serve_all bind validate func ?h1 cs ! j" for j
    by (simp split: prod.split)
  have first: "snd (serve_all bind validate func h (c # cs) ! 0) = ?h1" by (simp split: prod.split)
  show ?case
  proof (cases i)
    case 0
    with Cons.prems show ?thesis by (auto simp: GetFunc_def Let_def answer_def split: prod.splits option.splits)
  next
    case (Suc j)
    have "serve_all bind validate func ?h1 cs ! j = (e, h1)" using Cons.prems(2) later [of j] Suc by simp
    from Cons.IH [OF _ this] Cons.prems(1) Suc GetFunc_resp [of validate func h c] later first show ?thesis
      by (cases j) (simp_all add: Let_def del: serve_all.simps)
  qed
qed simp

end

text \<open>
  C33. Requests of a route share one request value. When requests are handled one after the other and
  request number \<open>i\<close> is bound and validated, the function is called with a request value in which
  every field has the value that the last of the requests up to \<open>i\<close> which set this field gave it,
  also when that request was an earlier one, of another user, or one that was rejected; only a field
  that no request ever set has its zero value. The response value is always the zero one. An error
  of the binding or of the validator is returned without calling the function, and the function's
  own error is passed on.
\<close>

theorem handler_shares_request:
  assumes "request_binding bind get sets" and "i < length cs"
    and "serve_all bind validate func (NewHandler name tags zero resp) cs ! i = (e, h1)"
  shows "(\<forall>f. get f (h_req h1) = last_set sets f (get f zero) (take (Suc i) cs)) \<and>
    (let before = (if i = 0 then zero else h_req (snd (serve_all bind validate func (NewHandler name tags zero resp) cs ! (i - 1))))
     in e = answer validate func (cs ! i) (snd (bind (cs ! i) before)) (h_req h1) resp)"
proof -
  let ?h = "NewHandler name tags zero resp"
  have "get f (h_req h1) = last_set sets f (get f zero) (take (Suc i) cs)" for f
    using request_binding.serve_all_fields [OF assms(1,2), of validate func ?h f] assms(3) by (simp add: NewHandler_def)
  moreover have eqs: "h_resp ?h = resp" "h_req ?h = zero" by (simp_all add: NewHandler_def)
  ultimately show ?thesis
    using request_binding.serve_all_result [OF assms] unfolding Let_def if_distrib [of h_req] eqs by blast
qed

text \<open>A field map as request: a body sets the fields it has.\<close>

definition bind_fields :: "(string \<times> string) list \<Rightarrow> (string \<rightharpoonup> string) \<Rightarrow> (string \<rightharpoonup> string) \<times> string option" where
  "bind_fields body r = (r ++ map_of body, None)"

interpretation field_binding: request_binding bind_fields "\<lambda>f r. r f" "\<lambda>c f. map_option Some (map_of c f)"
  by unfold_locales (simp add: bind_fields_def map_add_def split: option.split)

theorem handler_shares_request_witness:
  "\<exists>e h. serve_all bind_fields (\<lambda>_. None) (\<lambda>c req resp. if req ''admin'' = Some ''yes'' then Some ''done as admin'' else None)
        (NewHandler ''pay'' [] Map.empty ()) [[(''user'', ''ann''), (''admin'', ''yes'')], [(''user'', ''bob'')]] ! 1 = (e, h) \<and>
     h_req h ''user'' = Some ''bob'' \<and> h_req h ''admin'' = Some ''yes'' \<and> e = Some (FuncErr ''done as admin'')"
proof -
  let ?cs = "[[(''user'', ''ann''), (''admin'', ''yes'')], [(''user'', ''bob'')]]"
  let ?func = "\<lambda>(c :: (string \<times> string) list) (req :: string \<rightharpoonup> string) (resp :: unit). if req ''admin'' = Some ''yes'' then Some ''done as admin'' else None"
  obtain e h where r: "serve_all bind_fields (\<lambda>_. None) ?func (NewHandler ''pay'' [] Map.empty ()) ?cs ! 1 = (e, h)"
    by fastforce
  have "1 < length ?cs" by simp
  note * = handler_shares_request [OF field_binding.request_binding_axioms this r]
  have admin: "h_req h ''admin'' = Some ''yes''" and user: "h_req h ''user'' = Some ''bob''"
    using conjunct1 [OF *, THEN spec, of "''admin''"] conjunct1 [OF *, THEN spec, of "''user''"] by (simp_all add: last_set_def)
  have "e = Some (FuncErr ''done as admin'')" using conjunct2 [OF *] admin by (simp add: bind_fields_def answer_def)
  with r admin user show ?thesis by blast
qed

section \<open>Shutdown\<close>

lemma graceful_step_exit:
  assumes "graceful_step e s = Some t"
  shows "gs_exit s = None" and "gs_exit t = (if e = ServerReturns ErrServerClosed then Some 1 else None)"
  using assms by (cases e; auto simp: graceful_step_def server_returns_def split: if_splits)+

lemma graceful_exit:
  "run_events graceful_step es s = Some t \<Longrightarrow> gs_exit s = None \<Longrightarrow>
   gs_exit t = (if ServerReturns ErrServerClosed \<in> set es then Some 1 else None)"
proof (induction es arbitrary: s)
  case (Cons e es)
  then obtain s' where s': "graceful_step e s = Some s'" "run_events graceful_step es s' = Some t"
    by (auto split: option.splits)
  note x = graceful_step_exit(2) [OF s'(1)]
  show ?case
  proof (cases "e = ServerReturns ErrServerClosed")
    case True
    with s'(2) x have "t = s'" by (cases es) (auto simp: graceful_step_def split: option.splits)
    with x True show ?thesis by simp
  qed (use Cons.IH [OF s'(2)] x in auto)
qed simp

text \<open>Without a signal the caller waits, and without a shutdown the engine is not closed.\<close>

lemma graceful_waits:
  "run_events graceful_step es s = Some t \<Longrightarrow> SignalComes \<notin> set es \<Longrightarrow> gs_phase s = WaitSignal \<Longrightarrow>
   gs_phase t = WaitSignal \<and> (StopCalled \<notin> set es \<and> \<not> gs_shut s \<longrightarrow> ServerReturns ErrServerClosed \<notin> set es)"
proof (induction es arbitrary: s)
  case (Cons e es)
  then obtain s' where s': "graceful_step e s = Some s'" "run_events graceful_step es s' = Some t"
    by (auto split: option.splits)
  have "gs_phase s' = WaitSignal" and "e \<noteq> StopCalled \<Longrightarrow> gs_shut s' = gs_shut s"
    and "\<not> gs_shut s \<Longrightarrow> e \<noteq> ServerReturns ErrServerClosed"
    using s'(1) Cons.prems by (cases e; auto simp: graceful_step_def server_returns_def split: if_splits)+
  with Cons.IH [OF s'(2)] Cons.prems show ?case by auto
qed simp

text \<open>
  C38. The graceful shutdown is the wrong way round. In every run of \<^verbatim>\<open>StartWithGracefulShutdown\<close>, with
  \<^verbatim>\<open>Stop\<close> and \<^verbatim>\<open>GracefulStop\<close> called at any time by others: the process is ended, with status 1,
  exactly when the engine reports that it was closed in an orderly way, and the engine can report
  this as soon as a shutdown has begun, whether or not the open connections have been served. While
  no signal comes the call does not return, even when the engine failed to start and nothing is
  being served, and while moreover nobody stops the server the process is not ended either.
\<close>

theorem graceful_shutdown_inverted:
  assumes "run_events graceful_step es StartWithGracefulShutdown = Some t"
  shows "gs_exit t = (if ServerReturns ErrServerClosed \<in> set es then Some 1 else None) \<and>
     (SignalComes \<notin> set es \<longrightarrow> gs_phase t = WaitSignal) \<and>
     (SignalComes \<notin> set es \<and> StopCalled \<notin> set es \<longrightarrow> gs_exit t = None) \<and>
     (gs_shut t \<and> gs_serving t \<and> gs_exit t = None \<longrightarrow>
        (\<exists>t'. graceful_step (ServerReturns ErrServerClosed) t = Some t' \<and> gs_exit t' = Some 1 \<and> gs_phase t' = gs_phase t))"
proof -
  have s: "gs_exit StartWithGracefulShutdown = None" "gs_phase StartWithGracefulShutdown = WaitSignal"
    "\<not> gs_shut StartWithGracefulShutdown" by (simp_all add: StartWithGracefulShutdown_def)
  have x: "gs_exit t = (if ServerReturns ErrServerClosed \<in> set es then Some 1 else None)"
    by (rule graceful_exit [OF assms s(1)])
  moreover have "gs_shut t \<and> gs_serving t \<and> gs_exit t = None \<longrightarrow>
      (\<exists>t'. graceful_step (ServerReturns ErrServerClosed) t = Some t' \<and> gs_exit t' = Some 1 \<and> gs_phase t' = gs_phase t)"
    by (simp add: graceful_step_def server_returns_def)
  ultimately show ?thesis using graceful_waits [OF assms _ s(2)] s(3) by simp
qed

theorem graceful_shutdown_inverted_witness:
  "(\<exists>t. run_events graceful_step [ServerReturns (ServeErr ''address in use'')] StartWithGracefulShutdown = Some t \<and>
      gs_phase t = WaitSignal \<and> gs_exit t = None \<and> \<not> gs_serving t) \<and>
   (\<exists>t. run_events graceful_step [SignalComes, ShutdownBegins, ServerReturns ErrServerClosed] StartWithGracefulShutdown = Some t \<and>
      gs_exit t = Some 1)"
proof (intro conjI)
  obtain t where "run_events graceful_step [ServerReturns (ServeErr ''address in use'')] StartWithGracefulShutdown = Some t"
    "\<not> gs_serving t"
    by (simp add: graceful_step_def server_returns_def StartWithGracefulShutdown_def)
  with graceful_shutdown_inverted [OF this(1)] show "\<exists>t. run_events graceful_step [ServerReturns (ServeErr ''address in use'')] StartWithGracefulShutdown = Some t \<and>
      gs_phase t = WaitSignal \<and> gs_exit t = None \<and> \<not> gs_serving t" by simp
  obtain t where "run_events graceful_step [SignalComes, ShutdownBegins, ServerReturns ErrServerClosed] StartWithGracefulShutdown = Some t"
    by (simp add: graceful_step_def server_returns_def StartWithGracefulShutdown_def)
  with graceful_shutdown_inverted [OF this] show "\<exists>t. run_events graceful_step [SignalComes, ShutdownBegins, ServerReturns ErrServerClosed] StartWithGracefulShutdown = Some t \<and>
      gs_exit t = Some 1" by simp
qed

section \<open>Where routes are registered\<close>

definition segments :: "string \<Rightarrow> string list" where
  "segments p = filter (\<lambda>s. s \<noteq> [] \<and> s \<noteq> ''.'') (strings_Split p ''/'')"

lemma clean_segments_plain:
  "''..'' \<notin> set ss \<Longrightarrow> clean_segments out ss = rev out @ filter (\<lambda>s. s \<noteq> [] \<and> s \<noteq> ''.'') ss"
  by (induction ss arbitrary: out) auto

text \<open>
  A rooted server path, the word \<^verbatim>\<open>api\<close> and the path of a route, none of them with a double dot, are
  put together segment by segment.
\<close>

lemma JoinPath_plain:
  assumes "base \<noteq> [] \<and> hd base = CHR ''/''" and "e \<noteq> []" "CHR ''/'' \<notin> set e" "e \<noteq> ''.''" "e \<noteq> ''..''"
    and "path \<noteq> []" "last path \<noteq> CHR ''/''"
    and "''..'' \<notin> set (strings_Split base ''/'')" "''..'' \<notin> set (strings_Split path ''/'')"
  shows "url_JoinPath base [e, path] = ''/'' @ strings_Join (segments base @ [e] @ segments path) ''/''"
proof -
  have "strings_Split (base @ ''/'' @ e @ ''/'' @ path) ''/'' = strings_Split base ''/'' @ [e] @ strings_Split path ''/''"
    using assms(3) strings_Split_char_app [of base "CHR ''/''" "e @ ''/'' @ path"] by simp
  then show ?thesis
    using assms by (simp add: url_JoinPath_def path_Clean_def clean_segments_plain segments_def Let_def)
qed

text \<open>A double dot in the path of a route leaves the prefix.\<close>

lemma JoinPath_escapes: "url_JoinPath ''/x'' [''api'', ''../internal/y''] = ''/x/internal/y''"
  by code_simp

text \<open>A route for an unknown group is dropped: nothing is registered.\<close>

lemma unknown_group_dropped: "grp \<noteq> [] \<Longrightarrow> hs_group m grp = None \<Longrightarrow> Server_Get path grp h m = m \<and> Server_Post path grp h m = m"
  by (simp add: Server_Get_def Server_Post_def group_route_def)

text \<open>
  The backend, which keeps the two calls apart, does not have this fault: its process is ended
  exactly by an engine that failed, and a shutdown that has begun can be brought to its end.
\<close>

lemma backend_step_exit:
  assumes "backend_step e s = Some t"
  shows "gs_exit s = None" and "gs_exit t = (if \<exists>x. e = ServerReturns (ServeErr x) then Some 1 else None)"
proof -
  show "gs_exit s = None" using assms by (simp add: backend_step_def split: if_splits)
  show "gs_exit t = (if \<exists>x. e = ServerReturns (ServeErr x) then Some 1 else None)"
  proof (cases e)
    case (ServerReturns x)
    with assms show ?thesis
      by (cases x) (auto simp: backend_step_def server_returns_def Backend_Start_def Startup_def split: if_splits)
  qed (use assms in \<open>auto simp: backend_step_def split: if_splits\<close>)
qed

theorem backend_stop_completes:
  assumes "run_events backend_step es StartWithGracefulShutdown = Some t"
  shows "(gs_exit t = Some 1 \<longleftrightarrow> (\<exists>x. ServerReturns (ServeErr x) \<in> set es)) \<and> gs_exit t \<in> {None, Some 1} \<and>
     (gs_phase t = Draining \<and> gs_exit t = None \<longrightarrow>
        (\<exists>t'. backend_step (ShutdownReturns err) t = Some t' \<and> gs_phase t' = Ended None \<and> gs_exit t' = None))"
proof -
  have "(gs_exit t = Some 1 \<longleftrightarrow> (\<exists>x. ServerReturns (ServeErr x) \<in> set es)) \<and> gs_exit t \<in> {None, Some 1}"
    if "run_events backend_step es s = Some t" "gs_exit s = None" for es s
    using that
  proof (induction es arbitrary: s)
    case (Cons e es)
    then obtain u where u: "backend_step e s = Some u" "run_events backend_step es u = Some t"
      by (auto split: option.splits)
    show ?case
    proof (cases "\<exists>x. e = ServerReturns (ServeErr x)")
      case True
      then have x: "gs_exit u = Some 1" using backend_step_exit(2) [OF u(1)] by simp
      then have "t = u" using u(2) by (cases es) (auto simp: backend_step_def split: option.splits)
      then show ?thesis using x True by auto
    next
      case False
      then show ?thesis using Cons.IH [OF u(2)] backend_step_exit(2) [OF u(1)] by auto
    qed
  qed simp
  from this [OF assms] show ?thesis
    by (auto simp: StartWithGracefulShutdown_def backend_step_def)
qed

end
