(* ===== verification/Go_Crypto.thy ===== *)
theory Go_Crypto
  imports Prelude
begin

unbundle bit_operations_syntax

text \<open>
  The parts of Go's standard library that \<^verbatim>\<open>libs/jwt/PBEWhithMD5AndDES.go\<close> and \<^verbatim>\<open>utils/security.go\<close>
  compute with: \<^verbatim>\<open>crypto/md5\<close>, \<^verbatim>\<open>crypto/des\<close> with \<^verbatim>\<open>crypto/cipher\<close>'s CBC mode, \<^verbatim>\<open>crypto/sha256\<close>,
  \<^verbatim>\<open>crypto/hmac\<close>, \<^verbatim>\<open>encoding/base64\<close> and \<^verbatim>\<open>encoding/hex\<close>, all executable. What is shown of them is what
  their callers rely on: lengths, that decoding inverts encoding, and that decryption inverts encryption.
\<close>

section \<open>Bytes and bits\<close>

text \<open>A byte as its bits, most significant first, and lists of bytes as lists of bits.\<close>

fun byte_bits :: "char \<Rightarrow> bool list" where
  "byte_bits (Char b0 b1 b2 b3 b4 b5 b6 b7) = [b7, b6, b5, b4, b3, b2, b1, b0]"

fun bits_bytes :: "bool list \<Rightarrow> bytes" where
  "bits_bytes (b7 # b6 # b5 # b4 # b3 # b2 # b1 # b0 # bs) = Char b0 b1 b2 b3 b4 b5 b6 b7 # bits_bytes bs"
| "bits_bytes _ = []"

definition bytes_bits :: "bytes \<Rightarrow> bool list" where
  "bytes_bits bs = concat (map byte_bits bs)"

definition xor_bits :: "bool list \<Rightarrow> bool list \<Rightarrow> bool list" where
  "xor_bits xs ys = map2 (\<noteq>) xs ys"

definition xor_bytes :: "bytes \<Rightarrow> bytes \<Rightarrow> bytes" where
  "xor_bytes xs ys = bits_bytes (xor_bits (bytes_bits xs) (bytes_bits ys))"

lemma length_byte_bits [simp]: "length (byte_bits c) = 8"
  by (cases c) simp

lemma bytes_bits_simps [simp]:
  "bytes_bits [] = []" "bytes_bits (c # cs) = byte_bits c @ bytes_bits cs"
  "bytes_bits (xs @ ys) = bytes_bits xs @ bytes_bits ys"
  by (simp_all add: bytes_bits_def)

lemma length_bytes_bits [simp]: "length (bytes_bits bs) = 8 * length bs"
  by (induction bs) simp_all

lemma bits_bytes_bits [simp]: "bits_bytes (bytes_bits bs) = bs"
proof (induction bs)
  case (Cons c cs)
  then show ?case by (cases c) simp
qed simp

lemma bytes_bits_bytes [simp]: "length xs = 8 * n \<Longrightarrow> bytes_bits (bits_bytes xs) = xs"
proof (induction n arbitrary: xs)
  case (Suc n)
  then obtain b7 b6 b5 b4 b3 b2 b1 b0 ys where "xs = b7 # b6 # b5 # b4 # b3 # b2 # b1 # b0 # ys" "length ys = 8 * n"
    by (auto simp: length_Suc_conv numeral_eq_Suc)
  with Suc.IH [of ys] show ?case by simp
qed simp

lemma length_bits_bytes: "length xs = 8 * n \<Longrightarrow> length (bits_bytes xs) = n"
  using length_bytes_bits [of "bits_bytes xs"] bytes_bits_bytes [of xs n] by simp

lemma length_xor_bits [simp]: "length (xor_bits xs ys) = min (length xs) (length ys)"
  by (simp add: xor_bits_def)

lemma xor_bits_cancel: "length xs = length ys \<Longrightarrow> xor_bits (xor_bits xs ys) ys = xs"
  by (induction xs ys rule: list_induct2) (auto simp: xor_bits_def)

lemma length_xor_bytes: "length xs = length ys \<Longrightarrow> length (xor_bytes xs ys) = length ys"
  by (simp add: xor_bytes_def length_bits_bytes)

lemma xor_bytes_cancel: "length xs = length ys \<Longrightarrow> xor_bytes (xor_bytes xs ys) ys = xs"
  by (simp add: xor_bytes_def xor_bits_cancel)

section \<open>DES\<close>

definition des_IP :: "nat list" where
  "des_IP =
     [58, 50, 42, 34, 26, 18, 10, 2, 60, 52, 44, 36, 28, 20, 12, 4,
      62, 54, 46, 38, 30, 22, 14, 6, 64, 56, 48, 40, 32, 24, 16, 8,
      57, 49, 41, 33, 25, 17, 9, 1, 59, 51, 43, 35, 27, 19, 11, 3,
      61, 53, 45, 37, 29, 21, 13, 5, 63, 55, 47, 39, 31, 23, 15, 7]"

definition des_FP :: "nat list" where
  "des_FP =
     [40, 8, 48, 16, 56, 24, 64, 32, 39, 7, 47, 15, 55, 23, 63, 31,
      38, 6, 46, 14, 54, 22, 62, 30, 37, 5, 45, 13, 53, 21, 61, 29,
      36, 4, 44, 12, 52, 20, 60, 28, 35, 3, 43, 11, 51, 19, 59, 27,
      34, 2, 42, 10, 50, 18, 58, 26, 33, 1, 41, 9, 49, 17, 57, 25]"

definition des_E :: "nat list" where
  "des_E =
     [32, 1, 2, 3, 4, 5, 4, 5, 6, 7, 8, 9, 8, 9, 10, 11,
      12, 13, 12, 13, 14, 15, 16, 17, 16, 17, 18, 19, 20, 21, 20, 21,
      22, 23, 24, 25, 24, 25, 26, 27, 28, 29, 28, 29, 30, 31, 32, 1]"

definition des_P :: "nat list" where
  "des_P =
     [16, 7, 20, 21, 29, 12, 28, 17, 1, 15, 23, 26, 5, 18, 31, 10,
      2, 8, 24, 14, 32, 27, 3, 9, 19, 13, 30, 6, 22, 11, 4, 25]"

definition des_PC1 :: "nat list" where
  "des_PC1 =
     [57, 49, 41, 33, 25, 17, 9, 1, 58, 50, 42, 34, 26, 18, 10, 2,
      59, 51, 43, 35, 27, 19, 11, 3, 60, 52, 44, 36, 63, 55, 47, 39,
      31, 23, 15, 7, 62, 54, 46, 38, 30, 22, 14, 6, 61, 53, 45, 37,
      29, 21, 13, 5, 28, 20, 12, 4]"

definition des_PC2 :: "nat list" where
  "des_PC2 =
     [14, 17, 11, 24, 1, 5, 3, 28, 15, 6, 21, 10, 23, 19, 12, 4,
      26, 8, 16, 7, 27, 20, 13, 2, 41, 52, 31, 37, 47, 55, 30, 40,
      51, 45, 33, 48, 44, 49, 39, 56, 34, 53, 46, 42, 50, 36, 29, 32]"

definition des_rotations :: "nat list" where
  "des_rotations =
     [1, 1, 2, 2, 2, 2, 2, 2, 1, 2, 2, 2, 2, 2, 2, 1]"

definition des_S :: "nat list list" where
  "des_S =
    [[14, 4, 13, 1, 2, 15, 11, 8, 3, 10, 6, 12, 5, 9, 0, 7,
      0, 15, 7, 4, 14, 2, 13, 1, 10, 6, 12, 11, 9, 5, 3, 8,
      4, 1, 14, 8, 13, 6, 2, 11, 15, 12, 9, 7, 3, 10, 5, 0,
      15, 12, 8, 2, 4, 9, 1, 7, 5, 11, 3, 14, 10, 0, 6, 13],
     [15, 1, 8, 14, 6, 11, 3, 4, 9, 7, 2, 13, 12, 0, 5, 10,
      3, 13, 4, 7, 15, 2, 8, 14, 12, 0, 1, 10, 6, 9, 11, 5,
      0, 14, 7, 11, 10, 4, 13, 1, 5, 8, 12, 6, 9, 3, 2, 15,
      13, 8, 10, 1, 3, 15, 4, 2, 11, 6, 7, 12, 0, 5, 14, 9],
     [10, 0, 9, 14, 6, 3, 15, 5, 1, 13, 12, 7, 11, 4, 2, 8,
      13, 7, 0, 9, 3, 4, 6, 10, 2, 8, 5, 14, 12, 11, 15, 1,
      13, 6, 4, 9, 8, 15, 3, 0, 11, 1, 2, 12, 5, 10, 14, 7,
      1, 10, 13, 0, 6, 9, 8, 7, 4, 15, 14, 3, 11, 5, 2, 12],
     [7, 13, 14, 3, 0, 6, 9, 10, 1, 2, 8, 5, 11, 12, 4, 15,
      13, 8, 11, 5, 6, 15, 0, 3, 4, 7, 2, 12, 1, 10, 14, 9,
      10, 6, 9, 0, 12, 11, 7, 13, 15, 1, 3, 14, 5, 2, 8, 4,
      3, 15, 0, 6, 10, 1, 13, 8, 9, 4, 5, 11, 12, 7, 2, 14],
     [2, 12, 4, 1, 7, 10, 11, 6, 8, 5, 3, 15, 13, 0, 14, 9,
      14, 11, 2, 12, 4, 7, 13, 1, 5, 0, 15, 10, 3, 9, 8, 6,
      4, 2, 1, 11, 10, 13, 7, 8, 15, 9, 12, 5, 6, 3, 0, 14,
      11, 8, 12, 7, 1, 14, 2, 13, 6, 15, 0, 9, 10, 4, 5, 3],
     [12, 1, 10, 15, 9, 2, 6, 8, 0, 13, 3, 4, 14, 7, 5, 11,
      10, 15, 4, 2, 7, 12, 9, 5, 6, 1, 13, 14, 0, 11, 3, 8,
      9, 14, 15, 5, 2, 8, 12, 3, 7, 0, 4, 10, 1, 13, 11, 6,
      4, 3, 2, 12, 9, 5, 15, 10, 11, 14, 1, 7, 6, 0, 8, 13],
     [4, 11, 2, 14, 15, 0, 8, 13, 3, 12, 9, 7, 5, 10, 6, 1,
      13, 0, 11, 7, 4, 9, 1, 10, 14, 3, 5, 12, 2, 15, 8, 6,
      1, 4, 11, 13, 12, 3, 7, 14, 10, 15, 6, 8, 0, 5, 9, 2,
      6, 11, 13, 8, 1, 4, 10, 7, 9, 5, 0, 15, 14, 2, 3, 12],
     [13, 2, 8, 4, 6, 15, 11, 1, 10, 9, 3, 14, 5, 0, 12, 7,
      1, 15, 13, 8, 10, 3, 7, 4, 12, 5, 6, 11, 0, 14, 9, 2,
      7, 11, 4, 1, 9, 12, 14, 2, 0, 6, 10, 13, 15, 3, 5, 8,
      2, 1, 14, 7, 4, 10, 8, 13, 15, 12, 9, 0, 3, 5, 6, 11]]"

definition permute :: "nat list \<Rightarrow> bool list \<Rightarrow> bool list" where
  "permute table xs = map (\<lambda>i. xs ! (i - 1)) table"

definition rotate_left :: "nat \<Rightarrow> bool list \<Rightarrow> bool list" where
  "rotate_left n xs = drop n xs @ take n xs"

fun des_schedule :: "nat list \<Rightarrow> bool list \<Rightarrow> bool list \<Rightarrow> bool list list" where
  "des_schedule [] c d = []"
| "des_schedule (r # rs) c d =
     (let c1 = rotate_left r c; d1 = rotate_left r d in permute des_PC2 (c1 @ d1) # des_schedule rs c1 d1)"

definition des_keys :: "bytes \<Rightarrow> bool list list" where
  "des_keys key = (let k = permute des_PC1 (bytes_bits key) in des_schedule des_rotations (take 28 k) (drop 28 k))"

definition bits_nat :: "bool list \<Rightarrow> nat" where
  "bits_nat bs = foldl (\<lambda>n b. 2 * n + of_bool b) 0 bs"

definition nibble_bits :: "nat \<Rightarrow> bool list" where
  "nibble_bits n = [n div 8 mod 2 = 1, n div 4 mod 2 = 1, n div 2 mod 2 = 1, n mod 2 = 1]"

text \<open>A substitution box takes its row from the outer two of six bits.\<close>

definition des_sbox :: "nat list \<Rightarrow> bool list \<Rightarrow> bool list" where
  "des_sbox s b = nibble_bits (s ! (16 * bits_nat [b ! 0, b ! 5] + bits_nat [b ! 1, b ! 2, b ! 3, b ! 4]))"

fun des_substitute :: "nat list list \<Rightarrow> bool list \<Rightarrow> bool list" where
  "des_substitute [] xs = []"
| "des_substitute (s # ss) xs = des_sbox s (take 6 xs) @ des_substitute ss (drop 6 xs)"

definition des_f :: "bool list \<Rightarrow> bool list \<Rightarrow> bool list" where
  "des_f r k = permute des_P (des_substitute des_S (xor_bits (permute des_E r) k))"

fun feistel :: "bool list list \<Rightarrow> bool list \<times> bool list \<Rightarrow> bool list \<times> bool list" where
  "feistel [] lr = lr"
| "feistel (k # ks) (l, r) = feistel ks (r, xor_bits l (des_f r k))"

definition des_block :: "bool list list \<Rightarrow> bytes \<Rightarrow> bytes" where
  "des_block ks b =
     (let x = permute des_IP (bytes_bits b);
          (l, r) = feistel ks (take 32 x, drop 32 x)
      in bits_bytes (permute des_FP (r @ l)))"

definition des_Encrypt :: "bytes \<Rightarrow> bytes \<Rightarrow> bytes" where
  "des_Encrypt key b = des_block (des_keys key) b"

definition des_Decrypt :: "bytes \<Rightarrow> bytes \<Rightarrow> bytes" where
  "des_Decrypt key b = des_block (rev (des_keys key)) b"

text \<open>The rounds are undone by the rounds with the keys reversed on the halves exchanged.\<close>

lemma length_permute [simp]: "length (permute t xs) = length t"
  by (simp add: permute_def)

lemma length_des_f [simp]: "length (des_f r k) = 32"
  by (simp add: des_f_def des_P_def)

lemma feistel_append: "feistel (ks @ ks') lr = feistel ks' (feistel ks lr)"
  by (induction ks lr rule: feistel.induct) simp_all

lemma feistel_length:
  "length l = 32 \<Longrightarrow> length r = 32 \<Longrightarrow> length (fst (feistel ks (l, r))) = 32 \<and> length (snd (feistel ks (l, r))) = 32"
  by (induction ks arbitrary: l r) simp_all

lemma feistel_inverse:
  "length l = 32 \<Longrightarrow> length r = 32 \<Longrightarrow> feistel (rev ks) (prod.swap (feistel ks (l, r))) = (r, l)"
proof (induction ks arbitrary: l r)
  case (Cons k ks)
  then have "feistel (rev ks) (prod.swap (feistel ks (r, xor_bits l (des_f r k)))) = (xor_bits l (des_f r k), r)"
    by simp
  with Cons.prems show ?case by (simp add: feistel_append xor_bits_cancel)
qed simp

lemma permute_permute:
  assumes "\<forall>i \<in> set t. 0 < i \<and> i \<le> length u"
  shows "permute t (permute u xs) = permute (map (\<lambda>i. u ! (i - 1)) t) xs"
  using assms by (auto simp: permute_def)

lemma permute_id: "length xs = 64 \<Longrightarrow> permute [Suc 0..<65] xs = xs"
  by (rule nth_equalityI) (auto simp: permute_def)

lemma des_tables_inverse:
  "map (\<lambda>i. des_IP ! (i - 1)) des_FP = [1..<65]" "map (\<lambda>i. des_FP ! (i - 1)) des_IP = [1..<65]"
  "list_all (\<lambda>i. 0 < i \<and> i \<le> length des_IP) des_FP" "list_all (\<lambda>i. 0 < i \<and> i \<le> length des_FP) des_IP"
  by code_simp+

lemma permute_FP_IP: "length xs = 64 \<Longrightarrow> permute des_FP (permute des_IP xs) = xs"
  using des_tables_inverse by (simp add: permute_permute permute_id list_all_iff)

lemma permute_IP_FP: "length xs = 64 \<Longrightarrow> permute des_IP (permute des_FP xs) = xs"
  using des_tables_inverse by (simp add: permute_permute permute_id list_all_iff)

lemma length_IP_FP [simp]: "length des_IP = 64" "length des_FP = 64"
  by (simp_all add: des_IP_def des_FP_def)

lemma length_des_block: "length (des_block ks b) = 8"
  by (simp add: des_block_def Let_def length_bits_bytes split: prod.split)

lemma des_block_inverse:
  assumes "length b = 8"
  shows "des_block (rev ks) (des_block ks b) = b"
proof -
  define x where "x = permute des_IP (bytes_bits b)"
  obtain l r where lr: "feistel ks (take 32 x, drop 32 x) = (l, r)" by (metis surj_pair)
  have len: "length l = 32" "length r = 32"
    using feistel_length [of "take 32 x" "drop 32 x" ks] lr by (simp_all add: x_def)
  have "des_block ks b = bits_bytes (permute des_FP (r @ l))"
    using lr by (simp add: des_block_def Let_def x_def)
  then have "permute des_IP (bytes_bits (des_block ks b)) = r @ l"
    using len by (simp add: permute_IP_FP bytes_bits_bytes [of _ 8])
  moreover have "feistel (rev ks) (r, l) = (drop 32 x, take 32 x)"
    using feistel_inverse [of "take 32 x" "drop 32 x" ks] lr by (simp add: x_def)
  ultimately have "des_block (rev ks) (des_block ks b) = bits_bytes (permute des_FP (take 32 x @ drop 32 x))"
    using len by (simp add: des_block_def [of "rev ks"] Let_def)
  also have "\<dots> = b" using assms by (simp add: x_def permute_FP_IP)
  finally show ?thesis .
qed

lemma des_Decrypt_Encrypt: "length b = 8 \<Longrightarrow> des_Decrypt key (des_Encrypt key b) = b"
  by (simp add: des_Decrypt_def des_Encrypt_def des_block_inverse)

section \<open>Cipher block chaining\<close>

text \<open>\<^verbatim>\<open>CryptBlocks\<close> on a text whose length is a multiple of the block size; it panics on any other.\<close>

function cbc_Encrypt :: "(bytes \<Rightarrow> bytes) \<Rightarrow> bytes \<Rightarrow> bytes \<Rightarrow> bytes" where
  "cbc_Encrypt E iv p =
     (if p = [] then [] else let c = E (xor_bytes (take 8 p) iv) in c @ cbc_Encrypt E c (drop 8 p))"
  by pat_completeness auto
termination by (relation "measure (\<lambda>(E, iv, p). length p)") auto

function cbc_Decrypt :: "(bytes \<Rightarrow> bytes) \<Rightarrow> bytes \<Rightarrow> bytes \<Rightarrow> bytes" where
  "cbc_Decrypt D iv c =
     (if c = [] then [] else xor_bytes (D (take 8 c)) iv @ cbc_Decrypt D (take 8 c) (drop 8 c))"
  by pat_completeness auto
termination by (relation "measure (\<lambda>(D, iv, c). length c)") auto

declare cbc_Encrypt.simps [simp del] cbc_Decrypt.simps [simp del]

lemma cbc_Encrypt_Nil [simp]: "cbc_Encrypt E iv [] = []"
  by (simp add: cbc_Encrypt.simps)

lemma cbc_Decrypt_Nil [simp]: "cbc_Decrypt D iv [] = []"
  by (simp add: cbc_Decrypt.simps)

lemma cbc_Encrypt_block:
  "length b = 8 \<Longrightarrow> cbc_Encrypt E iv (b @ p) = E (xor_bytes b iv) @ cbc_Encrypt E (E (xor_bytes b iv)) p"
  by (subst cbc_Encrypt.simps) (auto simp: Let_def)

lemma cbc_Decrypt_block:
  "length b = 8 \<Longrightarrow> cbc_Decrypt D iv (b @ c) = xor_bytes (D b) iv @ cbc_Decrypt D b c"
  by (subst cbc_Decrypt.simps) auto

text \<open>
  The chaining for any block cipher: the block operations are the interface, and the laws that
  encryption keeps the block size and that decryption undoes it are what the chaining relies on.
\<close>

locale block_cipher =
  fixes E D :: "bytes \<Rightarrow> bytes"
  assumes E_length: "length b = 8 \<Longrightarrow> length (E b) = 8"
    and D_E: "length b = 8 \<Longrightarrow> D (E b) = b"
begin

lemma cbc_inverse:
  "length iv = 8 \<Longrightarrow> length p = 8 * n \<Longrightarrow>
     cbc_Decrypt D iv (cbc_Encrypt E iv p) = p \<and> length (cbc_Encrypt E iv p) = 8 * n"
proof (induction n arbitrary: iv p)
  case (Suc n)
  define b q where "b = take 8 p" and "q = drop 8 p"
  have p: "p = b @ q" and b: "length b = 8" and q: "length q = 8 * n"
    using Suc.prems by (auto simp: b_def q_def)
  define c where "c = E (xor_bytes b iv)"
  have c: "length c = 8" and D: "D c = xor_bytes b iv"
    using Suc.prems b by (simp_all add: c_def E_length D_E length_xor_bytes)
  have "cbc_Encrypt E iv p = c @ cbc_Encrypt E c q"
    by (simp add: p cbc_Encrypt_block b c_def)
  with Suc.IH [OF c q] c D b Suc.prems p show ?case
    by (simp add: cbc_Decrypt_block xor_bytes_cancel)
qed simp

end

interpretation des: block_cipher "des_Encrypt key" "des_Decrypt key" for key
proof unfold_locales
  show "length (des_Encrypt key b) = 8" for b by (simp add: des_Encrypt_def length_des_block)
qed (rule des_Decrypt_Encrypt)

section \<open>MD5\<close>

definition md5_K :: "32 word list" where
  "md5_K =
     [0xd76aa478, 0xe8c7b756, 0x242070db, 0xc1bdceee, 0xf57c0faf, 0x4787c62a, 0xa8304613, 0xfd469501,
      0x698098d8, 0x8b44f7af, 0xffff5bb1, 0x895cd7be, 0x6b901122, 0xfd987193, 0xa679438e, 0x49b40821,
      0xf61e2562, 0xc040b340, 0x265e5a51, 0xe9b6c7aa, 0xd62f105d, 0x2441453, 0xd8a1e681, 0xe7d3fbc8,
      0x21e1cde6, 0xc33707d6, 0xf4d50d87, 0x455a14ed, 0xa9e3e905, 0xfcefa3f8, 0x676f02d9, 0x8d2a4c8a,
      0xfffa3942, 0x8771f681, 0x6d9d6122, 0xfde5380c, 0xa4beea44, 0x4bdecfa9, 0xf6bb4b60, 0xbebfbc70,
      0x289b7ec6, 0xeaa127fa, 0xd4ef3085, 0x4881d05, 0xd9d4d039, 0xe6db99e5, 0x1fa27cf8, 0xc4ac5665,
      0xf4292244, 0x432aff97, 0xab9423a7, 0xfc93a039, 0x655b59c3, 0x8f0ccc92, 0xffeff47d, 0x85845dd1,
      0x6fa87e4f, 0xfe2ce6e0, 0xa3014314, 0x4e0811a1, 0xf7537e82, 0xbd3af235, 0x2ad7d2bb, 0xeb86d391]"

definition md5_shift :: "nat list" where
  "md5_shift =
     [7, 12, 17, 22, 7, 12, 17, 22, 7, 12, 17, 22, 7, 12, 17, 22,
      5, 9, 14, 20, 5, 9, 14, 20, 5, 9, 14, 20, 5, 9, 14, 20,
      4, 11, 16, 23, 4, 11, 16, 23, 4, 11, 16, 23, 4, 11, 16, 23,
      6, 10, 15, 21, 6, 10, 15, 21, 6, 10, 15, 21, 6, 10, 15, 21]"

text \<open>Four bytes and a word, least significant byte first.\<close>

definition byte_word :: "char \<Rightarrow> 32 word" where
  "byte_word c = word_of_int (of_char c)"

definition word_byte :: "32 word \<Rightarrow> char" where
  "word_byte w = char_of (uint w)"

fun le_words :: "bytes \<Rightarrow> 32 word list" where
  "le_words (a # b # c # d # bs) =
     (byte_word a OR push_bit 8 (byte_word b) OR push_bit 16 (byte_word c) OR push_bit 24 (byte_word d)) # le_words bs"
| "le_words _ = []"

definition le_bytes :: "32 word \<Rightarrow> bytes" where
  "le_bytes w = [word_byte w, word_byte (drop_bit 8 w), word_byte (drop_bit 16 w), word_byte (drop_bit 24 w)]"

text \<open>The padding: a one bit, zeros up to eight bytes before the end of a block, and the number of bits.\<close>

fun nat_le_bytes :: "nat \<Rightarrow> nat \<Rightarrow> bytes" where
  "nat_le_bytes 0 n = []"
| "nat_le_bytes (Suc k) n = char_of (n mod 256) # nat_le_bytes k (n div 256)"

definition pad_zeros :: "nat \<Rightarrow> nat" where
  "pad_zeros n = (119 - n mod 64) mod 64"

definition md5_pad :: "bytes \<Rightarrow> bytes" where
  "md5_pad m = m @ [char_of (128::nat)] @ replicate (pad_zeros (length m)) (char_of (0::nat)) @
     nat_le_bytes 8 (8 * length m)"

definition md5_round :: "32 word list \<Rightarrow> nat \<Rightarrow> 32 word \<times> 32 word \<times> 32 word \<times> 32 word \<Rightarrow> 32 word \<times> 32 word \<times> 32 word \<times> 32 word" where
  "md5_round M i = (\<lambda>(a, b, c, d).
     let (f, g) =
           (if i < 16 then ((b AND c) OR (NOT b AND d), i)
            else if i < 32 then ((d AND b) OR (NOT d AND c), (5 * i + 1) mod 16)
            else if i < 48 then (b XOR c XOR d, (3 * i + 5) mod 16)
            else (c XOR (b OR NOT d), (7 * i) mod 16))
     in (d, b + word_rotl (md5_shift ! i) (f + a + md5_K ! i + M ! g), b, c))"

definition md5_block :: "32 word list \<Rightarrow> 32 word \<times> 32 word \<times> 32 word \<times> 32 word \<Rightarrow> 32 word \<times> 32 word \<times> 32 word \<times> 32 word" where
  "md5_block M = (\<lambda>(a0, b0, c0, d0).
     case fold (md5_round M) [0..<64] (a0, b0, c0, d0) of (a, b, c, d) \<Rightarrow> (a0 + a, b0 + b, c0 + c, d0 + d))"

function md5_blocks :: "32 word list \<Rightarrow> 32 word \<times> 32 word \<times> 32 word \<times> 32 word \<Rightarrow> 32 word \<times> 32 word \<times> 32 word \<times> 32 word" where
  "md5_blocks ws st = (if ws = [] then st else md5_blocks (drop 16 ws) (md5_block (take 16 ws) st))"
  by pat_completeness auto
termination by (relation "measure (\<lambda>(ws, st). length ws)") auto

declare md5_blocks.simps [simp del]

definition md5_Sum :: "bytes \<Rightarrow> bytes" where
  "md5_Sum m =
     (case md5_blocks (le_words (md5_pad m)) (0x67452301, 0xefcdab89, 0x98badcfe, 0x10325476) of
        (a, b, c, d) \<Rightarrow> le_bytes a @ le_bytes b @ le_bytes c @ le_bytes d)"

lemma length_md5_Sum [simp]: "length (md5_Sum m) = 16"
  by (simp add: md5_Sum_def le_bytes_def split: prod.split)

section \<open>SHA-256 and HMAC\<close>

definition sha_K :: "32 word list" where
  "sha_K =
     [1116352408, 1899447441, 3049323471, 3921009573, 961987163, 1508970993, 2453635748, 2870763221,
      3624381080, 310598401, 607225278, 1426881987, 1925078388, 2162078206, 2614888103, 3248222580,
      3835390401, 4022224774, 264347078, 604807628, 770255983, 1249150122, 1555081692, 1996064986,
      2554220882, 2821834349, 2952996808, 3210313671, 3336571891, 3584528711, 113926993, 338241895,
      666307205, 773529912, 1294757372, 1396182291, 1695183700, 1986661051, 2177026350, 2456956037,
      2730485921, 2820302411, 3259730800, 3345764771, 3516065817, 3600352804, 4094571909, 275423344,
      430227734, 506948616, 659060556, 883997877, 958139571, 1322822218, 1537002063, 1747873779,
      1955562222, 2024104815, 2227730452, 2361852424, 2428436474, 2756734187, 3204031479, 3329325298]"

definition sha_H :: "32 word list" where
  "sha_H =
     [1779033703, 3144134277, 1013904242, 2773480762, 1359893119, 2600822924, 528734635, 1541459225]"

fun be_words :: "bytes \<Rightarrow> 32 word list" where
  "be_words (a # b # c # d # bs) =
     (push_bit 24 (byte_word a) OR push_bit 16 (byte_word b) OR push_bit 8 (byte_word c) OR byte_word d) # be_words bs"
| "be_words _ = []"

definition be_bytes :: "32 word \<Rightarrow> bytes" where
  "be_bytes w = [word_byte (drop_bit 24 w), word_byte (drop_bit 16 w), word_byte (drop_bit 8 w), word_byte w]"

definition sha_pad :: "bytes \<Rightarrow> bytes" where
  "sha_pad m = m @ [char_of (128::nat)] @ replicate (pad_zeros (length m)) (char_of (0::nat)) @
     rev (nat_le_bytes 8 (8 * length m))"

text \<open>The schedule, latest word first.\<close>

definition sha_extend :: "32 word list \<Rightarrow> 32 word list" where
  "sha_extend ws =
     (let w15 = ws ! 14; w2 = ws ! 1;
          s0 = word_rotr 7 w15 XOR word_rotr 18 w15 XOR drop_bit 3 w15;
          s1 = word_rotr 17 w2 XOR word_rotr 19 w2 XOR drop_bit 10 w2
      in (ws ! 15 + s0 + ws ! 6 + s1) # ws)"

definition sha_schedule :: "32 word list \<Rightarrow> 32 word list" where
  "sha_schedule M = rev ((sha_extend ^^ 48) (rev M))"

fun sha_round :: "32 word \<Rightarrow> 32 word list \<Rightarrow> 32 word list" where
  "sha_round kw [a, b, c, d, e, f, g, h] =
     (let S1 = word_rotr 6 e XOR word_rotr 11 e XOR word_rotr 25 e;
          ch = (e AND f) XOR (NOT e AND g);
          t1 = h + S1 + ch + kw;
          S0 = word_rotr 2 a XOR word_rotr 13 a XOR word_rotr 22 a;
          maj = (a AND b) XOR (a AND c) XOR (b AND c)
      in [t1 + S0 + maj, a, b, c, d + t1, e, f, g])"
| "sha_round kw st = st"

definition sha_block :: "32 word list \<Rightarrow> 32 word list \<Rightarrow> 32 word list" where
  "sha_block M H = map2 (+) H (fold sha_round (map2 (+) sha_K (sha_schedule M)) H)"

function sha_blocks :: "32 word list \<Rightarrow> 32 word list \<Rightarrow> 32 word list" where
  "sha_blocks ws st = (if ws = [] then st else sha_blocks (drop 16 ws) (sha_block (take 16 ws) st))"
  by pat_completeness auto
termination by (relation "measure (\<lambda>(ws, st). length ws)") auto

declare sha_blocks.simps [simp del]

definition sha256_Sum :: "bytes \<Rightarrow> bytes" where
  "sha256_Sum m = concat (map be_bytes (sha_blocks (be_words (sha_pad m)) sha_H))"

lemma length_sha_round: "length (sha_round kw st) = length st"
  by (induction kw st rule: sha_round.induct) (simp_all add: Let_def)

lemma length_sha_fold: "length (fold sha_round kws st) = length st"
  by (induction kws arbitrary: st) (simp_all add: length_sha_round)

lemma length_sha_blocks: "length (sha_blocks ws st) = length st"
proof (induction ws st rule: sha_blocks.induct)
  case (1 ws st)
  then show ?case by (subst sha_blocks.simps) (simp add: sha_block_def length_sha_fold)
qed

lemma length_concat_bytes: "length (concat (map be_bytes ws)) = 4 * length ws"
  by (induction ws) (simp_all add: be_bytes_def)

lemma length_sha256_Sum [simp]: "length (sha256_Sum m) = 32"
  by (simp add: sha256_Sum_def length_concat_bytes length_sha_blocks sha_H_def)

text \<open>\<^verbatim>\<open>hmac.New(sha256.New, key)\<close>, written and summed.\<close>

definition hmac_block_key :: "bytes \<Rightarrow> bytes" where
  "hmac_block_key key =
     (let k = (if length key > 64 then sha256_Sum key else key) in k @ replicate (64 - length k) (char_of (0::nat)))"

definition hmac_sha256 :: "bytes \<Rightarrow> bytes \<Rightarrow> bytes" where
  "hmac_sha256 key m =
     (let k = hmac_block_key key
      in sha256_Sum (xor_bytes k (replicate 64 (char_of (0x5c::nat))) @
           sha256_Sum (xor_bytes k (replicate 64 (char_of (0x36::nat))) @ m)))"

lemma length_hmac_sha256 [simp]: "length (hmac_sha256 key m) = 32"
  by (simp add: hmac_sha256_def Let_def)

section \<open>Hexadecimal and base 64\<close>

definition hex_digits :: string where "hex_digits = ''0123456789abcdef''"

definition hex_EncodeToString :: "bytes \<Rightarrow> string" where
  "hex_EncodeToString bs =
     concat (map (\<lambda>c. [hex_digits ! (of_char c div 16), hex_digits ! (of_char c mod 16)]) bs)"

lemma length_hex_EncodeToString: "length (hex_EncodeToString bs) = 2 * length bs"
  by (induction bs) (simp_all add: hex_EncodeToString_def)

definition b64_alphabet :: string where
  "b64_alphabet = ''ABCDEFGHIJKLMNOPQRSTUVWXYZabcdefghijklmnopqrstuvwxyz0123456789+/''"

fun sextets :: "bool list \<Rightarrow> bool list list" where
  "sextets (b5 # b4 # b3 # b2 # b1 # b0 # bs) = [b5, b4, b3, b2, b1, b0] # sextets bs"
| "sextets _ = []"

definition b64_chars :: "bool list \<Rightarrow> string" where
  "b64_chars bs = map (\<lambda>x. b64_alphabet ! bits_nat x) (sextets bs)"

text \<open>Three bytes are four characters; a shorter rest is filled up with zero bits and equal signs.\<close>

fun b64_encode :: "bytes \<Rightarrow> string" where
  "b64_encode [] = []"
| "b64_encode [a] = b64_chars (bytes_bits [a] @ [False, False, False, False]) @ ''==''"
| "b64_encode [a, b] = b64_chars (bytes_bits [a, b] @ [False, False]) @ ''=''"
| "b64_encode (a # b # c # cs) = b64_chars (bytes_bits [a, b, c]) @ b64_encode cs"

definition b64_EncodeToString :: "bytes \<Rightarrow> string" where
  "b64_EncodeToString bs = b64_encode bs"

text \<open>
  Decoding: line breaks are skipped; the text is read in groups of four, the last of which may be
  padded with one or two equal signs. The bits that padding cuts off are not looked at.
\<close>

fun index_of :: "'a \<Rightarrow> 'a list \<Rightarrow> nat option" where
  "index_of x [] = None"
| "index_of x (y # ys) = (if x = y then Some 0 else map_option Suc (index_of x ys))"

definition sextet :: "nat \<Rightarrow> bool list" where
  "sextet n = [n div 32 mod 2 = 1, n div 16 mod 2 = 1, n div 8 mod 2 = 1, n div 4 mod 2 = 1, n div 2 mod 2 = 1, n mod 2 = 1]"

definition b64_value :: "char \<Rightarrow> bool list option" where
  "b64_value c = map_option sextet (index_of c b64_alphabet)"

fun b64_groups :: "string \<Rightarrow> bytes option" where
  "b64_groups [] = Some []"
| "b64_groups (p # q # r # s # cs) =
     (case (b64_value p, b64_value q) of
        (Some w, Some x) \<Rightarrow>
          (case b64_value r of
             None \<Rightarrow> if r = CHR ''='' \<and> s = CHR ''='' \<and> cs = [] then Some (take 1 (bits_bytes (w @ x))) else None
           | Some y \<Rightarrow>
               (case b64_value s of
                  None \<Rightarrow> if s = CHR ''='' \<and> cs = [] then Some (take 2 (bits_bytes (w @ x @ y))) else None
                | Some z \<Rightarrow> map_option (\<lambda>bs. bits_bytes (w @ x @ y @ z) @ bs) (b64_groups cs)))
      | _ \<Rightarrow> None)"
| "b64_groups _ = None"

definition is_break :: "char \<Rightarrow> bool" where
  "is_break c = (c = CHR 0x0A \<or> c = CHR 0x0D)"

definition b64_DecodeString :: "string \<Rightarrow> bytes option" where
  "b64_DecodeString s = b64_groups (filter (\<lambda>c. \<not> is_break c) s)"

lemma b64_alphabet_facts:
  "list_all (\<lambda>n. b64_value (b64_alphabet ! n) = Some (sextet n) \<and> \<not> is_break (b64_alphabet ! n)) [0..<64]"
  by code_simp

lemma sextet_bits_nat: "sextet (bits_nat [a, b, c, d, e, f]) = [a, b, c, d, e, f]"
  by (cases a; cases b; cases c; cases d; cases e; cases f) (simp_all add: sextet_def bits_nat_def)

lemma bits_nat_less: "bits_nat [a, b, c, d, e, f] < 64"
  by (simp add: bits_nat_def of_bool_def)

lemma b64_char:
  "b64_value (b64_alphabet ! bits_nat [a, b, c, d, e, f]) = Some [a, b, c, d, e, f]"
  "\<not> is_break (b64_alphabet ! bits_nat [a, b, c, d, e, f])"
  using b64_alphabet_facts bits_nat_less [of a b c d e f] by (simp_all add: list_all_iff sextet_bits_nat)

lemma b64_value_pad [simp]: "b64_value CHR ''='' = None"
  by code_simp

lemma b64_groups_encode: "b64_groups (b64_encode bs) = Some bs"
proof (induction bs rule: b64_encode.induct)
  case (2 a)
  show ?case by (cases a) (simp add: b64_chars_def b64_char)
next
  case (3 a b)
  show ?case by (cases a; cases b) (simp add: b64_chars_def b64_char)
next
  case (4 a b c cs)
  then show ?case by (cases a; cases b; cases c) (simp add: b64_chars_def b64_char)
qed simp

lemma b64_no_breaks: "\<forall>c \<in> set (b64_encode bs). \<not> is_break c"
proof (induction bs rule: b64_encode.induct)
  case (2 a)
  show ?case by (cases a) (simp add: b64_chars_def b64_char, simp add: is_break_def)
next
  case (3 a b)
  show ?case by (cases a; cases b) (simp add: b64_chars_def b64_char, simp add: is_break_def)
next
  case (4 a b c cs)
  then show ?case by (cases a; cases b; cases c) (simp add: b64_chars_def b64_char)
qed simp

lemma b64_Decode_Encode: "b64_DecodeString (b64_EncodeToString bs) = Some bs"
  by (simp add: b64_DecodeString_def b64_EncodeToString_def b64_no_breaks b64_groups_encode)

end
