(* ===== verification/Pbe_Crypto.thy ===== *)
theory Pbe_Crypto
  imports Go_Crypto
begin

text \<open>
  \<^verbatim>\<open>libs/jwt/PBEWhithMD5AndDES.go\<close> (password based encryption with MD5 and DES) and
  \<^verbatim>\<open>utils/security.go\<close> (message authentication codes). The random salt is an argument: what
  \<^verbatim>\<open>rand.Read\<close> delivers, or its error.
\<close>

section \<open>Password based encryption\<close>

datatype pbe_error = RandError string | Base64Error | KeySizeError

datatype pbe_panic = SliceOutOfRange | NotFullBlocks

fun md5_again :: "nat \<Rightarrow> bytes \<Rightarrow> bytes" where
  "md5_again 0 key = key"
| "md5_again (Suc n) key = md5_again n (md5_Sum key)"

definition getDerivedKey :: "string \<Rightarrow> string \<Rightarrow> int \<Rightarrow> bytes \<times> bytes" where
  "getDerivedKey password salt count =
     (let key = md5_again (nat (count - 1)) (md5_Sum (password @ salt)) in (take 8 key, drop 8 key))"

text \<open>\<^verbatim>\<open>des.NewCipher\<close> refuses a key that is not of eight bytes, \<^verbatim>\<open>CryptBlocks\<close> panics on a partial block.\<close>

definition NewCipher_ok :: "bytes \<Rightarrow> bool" where
  "NewCipher_ok key = (length key = 8)"

definition pad_plain :: "string \<Rightarrow> string" where
  "pad_plain plainText =
     (let padNum = 8 - length plainText mod 8 in plainText @ replicate padNum (char_of padNum))"

definition doEncrypt :: "string \<Rightarrow> string \<Rightarrow> bytes \<Rightarrow> int \<Rightarrow> (pbe_panic, pbe_error + bytes) outcome" where
  "doEncrypt password plainText salt obtenationIterations =
     (let plain = pad_plain plainText;
          (dk, iv) = getDerivedKey password salt obtenationIterations
      in if \<not> NewCipher_ok dk then Returns (Inl KeySizeError)
         else if length plain mod 8 \<noteq> 0 then Panics NotFullBlocks
         else Returns (Inr (cbc_Encrypt (des_Encrypt dk) iv plain)))"

text \<open>\<^verbatim>\<open>strings.TrimRight\<close> with the eight padding characters.\<close>

definition is_pad :: "char \<Rightarrow> bool" where
  "is_pad c = (let n = of_char c :: nat in 1 \<le> n \<and> n \<le> 8)"

definition trim_pad :: "string \<Rightarrow> string" where
  "trim_pad s = rev (dropWhile is_pad (rev s))"

definition doDecrypt :: "string \<Rightarrow> bytes \<Rightarrow> bytes \<Rightarrow> int \<Rightarrow> (pbe_panic, pbe_error + string) outcome" where
  "doDecrypt password encText salt obtenationIterations =
     (let (dk, iv) = getDerivedKey password salt obtenationIterations
      in if \<not> NewCipher_ok dk then Returns (Inl KeySizeError)
         else if length encText mod 8 \<noteq> 0 then Panics NotFullBlocks
         else Returns (Inr (trim_pad (cbc_Decrypt (des_Decrypt dk) iv encText))))"

definition Encrypt :: "(string + bytes) \<Rightarrow> string \<Rightarrow> int \<Rightarrow> string \<Rightarrow> (pbe_panic, pbe_error + string) outcome" where
  "Encrypt rand password obtenationIterations plainText =
     (case rand of
        Inl err \<Rightarrow> Returns (Inl (RandError err))
      | Inr salt \<Rightarrow>
          (case doEncrypt password plainText salt obtenationIterations of
             Panics p \<Rightarrow> Panics p
           | Returns (Inl err) \<Rightarrow> Returns (Inl err)
           | Returns (Inr encText) \<Rightarrow> Returns (Inr (b64_EncodeToString (salt @ encText)))))"

definition Decrypt :: "string \<Rightarrow> int \<Rightarrow> string \<Rightarrow> (pbe_panic, pbe_error + string) outcome" where
  "Decrypt password obtenationIterations cipherText =
     (case b64_DecodeString cipherText of
        None \<Rightarrow> Returns (Inl Base64Error)
      | Some msgBytes \<Rightarrow>
          if length msgBytes < 8 then Panics SliceOutOfRange
          else doDecrypt password (drop 8 msgBytes) (take 8 msgBytes) obtenationIterations)"

text \<open>\<^verbatim>\<open>copy\<close> into eight zero bytes.\<close>

definition fixed_salt :: "string \<Rightarrow> bytes" where
  "fixed_salt fixedSalt = take 8 fixedSalt @ replicate (8 - length fixedSalt) (char_of (0::nat))"

definition EncryptWithFixedSalt :: "string \<Rightarrow> int \<Rightarrow> string \<Rightarrow> string \<Rightarrow> (pbe_panic, pbe_error + string) outcome" where
  "EncryptWithFixedSalt password obtenationIterations plainText fixedSalt =
     (case doEncrypt password plainText (fixed_salt fixedSalt) obtenationIterations of
        Panics p \<Rightarrow> Panics p
      | Returns (Inl err) \<Rightarrow> Returns (Inl err)
      | Returns (Inr encText) \<Rightarrow> Returns (Inr (b64_EncodeToString encText)))"

definition DecryptWithFixedSalt :: "string \<Rightarrow> int \<Rightarrow> string \<Rightarrow> string \<Rightarrow> (pbe_panic, pbe_error + string) outcome" where
  "DecryptWithFixedSalt password obtenationIterations cipherText fixedSalt =
     (case b64_DecodeString cipherText of
        None \<Rightarrow> Returns (Inl Base64Error)
      | Some msgBytes \<Rightarrow> doDecrypt password msgBytes (fixed_salt fixedSalt) obtenationIterations)"

section \<open>Message authentication codes\<close>

definition GenerateHMAC :: "string \<Rightarrow> string \<Rightarrow> string" where
  "GenerateHMAC message secret = hex_EncodeToString (hmac_sha256 secret message)"

definition VerifyHMAC :: "string \<Rightarrow> string \<Rightarrow> string \<Rightarrow> bool" where
  "VerifyHMAC message secret sign =
     (let expectedSign = hex_EncodeToString (hmac_sha256 secret message) in expectedSign = sign)"

section \<open>Decryption undoes encryption\<close>

lemma length_md5_again: "length key = 16 \<Longrightarrow> length (md5_again n key) = 16"
  by (induction n key rule: md5_again.induct) simp_all

lemma derived_lengths:
  "length (fst (getDerivedKey pw salt n)) = 8" "length (snd (getDerivedKey pw salt n)) = 8"
  by (simp_all add: getDerivedKey_def Let_def length_md5_again)

lemma length_pad_plain: "length (pad_plain p) mod 8 = 0"
proof -
  have "(n + (8 - n mod 8)) mod 8 = 0" for n :: nat by presburger
  then show ?thesis by (simp add: pad_plain_def Let_def)
qed

lemma is_pad_char: "1 \<le> n \<Longrightarrow> n \<le> 8 \<Longrightarrow> is_pad (char_of (n::nat))"
  by (simp add: is_pad_def of_char_of take_bit_eq_mod)

lemma trim_pad_plain: "trim_pad (pad_plain p) = trim_pad p"
proof -
  define k where "k = 8 - length p mod 8"
  have "is_pad (char_of k)" by (rule is_pad_char) (auto simp: k_def)
  then have "dropWhile is_pad (replicate k (char_of k) @ rev p) = dropWhile is_pad (rev p)"
    by (intro dropWhile_append2) auto
  then show ?thesis by (simp add: trim_pad_def pad_plain_def Let_def k_def)
qed

lemma trim_pad_id: "trim_pad p = p \<longleftrightarrow> p = [] \<or> \<not> is_pad (last p)"
proof (cases p rule: rev_cases)
  case (snoc q c)
  have "length (dropWhile is_pad (rev q)) < length (q @ [c])"
    using length_dropWhile_le [of is_pad "rev q"] by simp
  then have "rev (dropWhile is_pad (rev q)) \<noteq> q @ [c]"
    by (metis length_rev less_irrefl)
  then show ?thesis by (simp add: snoc trim_pad_def)
qed (simp add: trim_pad_def)

lemma doDecrypt_doEncrypt:
  "\<exists>enc. doEncrypt pw p salt n = Returns (Inr enc) \<and> doDecrypt pw enc salt n = Returns (Inr (trim_pad p))"
proof -
  obtain dk iv where d: "getDerivedKey pw salt n = (dk, iv)" by (metis surj_pair)
  have len: "length dk = 8" "length iv = 8" using derived_lengths [of pw salt n] d by simp_all
  obtain m where m: "length (pad_plain p) = 8 * m"
    using length_pad_plain [of p] by (metis dvd_def mod_0_imp_dvd)
  from des.cbc_inverse [OF len(2) m, of dk] show ?thesis
    by (simp add: doEncrypt_def doDecrypt_def Let_def d NewCipher_ok_def len m trim_pad_plain)
qed

text \<open>
  C15. Password based encryption never fails once the salt is drawn, and decrypting with the same
  password and count gives back the plain text without the characters \<^verbatim>\<open>\x01\<close> to \<^verbatim>\<open>\x08\<close> at its end,
  whatever the password, the count, the plain text and the eight bytes of salt are; so the plain
  text itself comes back exactly when its last byte is not one of these. The same holds with a fixed salt.
\<close>

theorem pbe_roundtrip:
  assumes "length salt = 8"
  shows "\<exists>c c'. Encrypt (Inr salt) password n p = Returns (Inr c) \<and>
      EncryptWithFixedSalt password n p fixedSalt = Returns (Inr c') \<and>
      Decrypt password n c = Returns (Inr (trim_pad p)) \<and>
      DecryptWithFixedSalt password n c' fixedSalt = Returns (Inr (trim_pad p)) \<and>
      (trim_pad p = p \<longleftrightarrow> p = [] \<or> \<not> is_pad (last p))"
proof -
  obtain e e' where e: "doEncrypt password p salt n = Returns (Inr e)" "doDecrypt password e salt n = Returns (Inr (trim_pad p))"
    and e': "doEncrypt password p (fixed_salt fixedSalt) n = Returns (Inr e')"
      "doDecrypt password e' (fixed_salt fixedSalt) n = Returns (Inr (trim_pad p))"
    using doDecrypt_doEncrypt by metis
  show ?thesis
    using e e' assms by (simp add: trim_pad_id Encrypt_def EncryptWithFixedSalt_def Decrypt_def DecryptWithFixedSalt_def b64_Decode_Encode)
qed

theorem pbe_roundtrip_witness:
  "\<exists>c c'. Encrypt (Inr ''saltsalt'') ''pw'' 1000 ''secret'' = Returns (Inr c) \<and>
      EncryptWithFixedSalt ''pw'' 1000 ''secret'' ''fix'' = Returns (Inr c') \<and>
      Decrypt ''pw'' 1000 c = Returns (Inr ''secret'') \<and> DecryptWithFixedSalt ''pw'' 1000 c' ''fix'' = Returns (Inr ''secret'')"
  using pbe_roundtrip [of "''saltsalt''" "''pw''" 1000 "''secret''" "''fix''"]
  by (auto simp: trim_pad_def is_pad_def)

text \<open>
  What a cipher text from elsewhere can do: a text that is not base 64 is an error, but one that
  decodes to fewer than eight bytes, or to a number of bytes that is not a multiple of eight,
  makes the call panic.
\<close>

lemma Decrypt_panics_iff:
  "(\<exists>q. Decrypt password n c = Panics q) \<longleftrightarrow>
     (\<exists>m. b64_DecodeString c = Some m \<and> (length m < 8 \<or> length m mod 8 \<noteq> 0))"
proof (cases "b64_DecodeString c")
  case (Some m)
  have "(length m - 8) mod 8 = length m mod 8" if "\<not> length m < 8"
    using that by (simp add: le_mod_geq)
  moreover obtain dk iv where "getDerivedKey password (take 8 m) n = (dk, iv)" "length dk = 8"
    using derived_lengths(1) [of password "take 8 m" n] by (metis fst_conv surj_pair)
  ultimately show ?thesis
    using Some by (auto simp: Decrypt_def doDecrypt_def NewCipher_ok_def)
qed (simp add: Decrypt_def)

lemma VerifyHMAC_iff: "VerifyHMAC m secret sign \<longleftrightarrow> sign = GenerateHMAC m secret"
  by (auto simp: VerifyHMAC_def GenerateHMAC_def)

text \<open>A signature is 64 lower case hexadecimal digits; no other text is ever accepted.\<close>

lemma VerifyHMAC_shape:
  assumes "VerifyHMAC m secret sign"
  shows "length sign = 64 \<and> set sign \<subseteq> set hex_digits"
proof -
  have "length hex_digits = 16" by (simp add: hex_digits_def)
  then have "\<forall>n < 16. hex_digits ! n \<in> set hex_digits" by (metis nth_mem)
  moreover have "of_char c div 16 < (16::nat)" for c
    using nat_of_char_less_256 [of c] by (simp add: div_less_iff_less_mult)
  ultimately have "set (hex_EncodeToString bs) \<subseteq> set hex_digits" for bs
    by (auto simp: hex_EncodeToString_def)
  then show ?thesis
    using assms by (simp add: VerifyHMAC_iff GenerateHMAC_def length_hex_EncodeToString)
qed

end
