(* ===== verification/Ws_Client.thy ===== *)
theory Ws_Client
  imports Message_Queue
begin

text \<open>
  \<^verbatim>\<open>libs/ws_client/ws_client.go\<close>: the client side of a websocket connection, with a goroutine that
  reads, one that writes and one that sends pings. The connection is the environment: it decides
  what is read and whether a write succeeds. The client is started once, with a logger.

  The websocket library allows one writer at a time, and the writer and the ping goroutine do not
  exclude each other. When both are in a write at the same time the library may mix up the frames or
  panic (it notices some of these cases): the state is marked (\<open>w_raced\<close>), and the panic is a step.
\<close>

section \<open>State\<close>

text \<open>
  Where the goroutines are: \<open>RTop\<close> at the \<^verbatim>\<open>select\<close> of \<^verbatim>\<open>readPump\<close>, \<open>RRead\<close> in \<^verbatim>\<open>ReadMessage\<close>; \<open>WSelect\<close> at
  the \<^verbatim>\<open>select\<close> of \<^verbatim>\<open>writePump\<close>; \<open>WMsg\<close>, \<open>WFrame\<close> and \<open>WFilled\<close> before its \<^verbatim>\<open>NextWriter\<close>, \<^verbatim>\<open>Write\<close> and \<^verbatim>\<open>Close\<close>
  for a message, \<open>WTickPing\<close> and \<open>WCloseFrame\<close> in its write of a ping or a close frame; \<open>GSelect\<close> and \<open>GPing\<close>
  in \<^verbatim>\<open>pingPump\<close>. \<open>calls_cancelled\<close> and \<open>calls_closed\<close> count the calls of \<^verbatim>\<open>Close\<close> that have cancelled the
  context and those that have closed the channel but not yet the connection. \<open>w_accepted\<close> and
  \<open>w_taken\<close> record what was put into the channel and what the writer took out.
\<close>

datatype reader_at = RIdle | RTop | RRead | RGone
datatype writer_at = WIdle | WSelect | WMsg bytes | WFrame bytes | WFilled bytes | WTickPing | WCloseFrame | WGone
datatype pinger_at = GIdle | GSelect | GPing | GGone

datatype ws_panic = SendOnClosed | CloseOfClosed | HandlerPanics | ConcurrentWrite

record WSClient =
  w_sendChan :: "bytes chan"
  w_done :: bool
  w_cancelled :: bool
  w_conn_closed :: bool
  w_reader :: reader_at
  w_writer :: writer_at
  w_pinger :: pinger_at
  w_wire :: "wire_frame list"
  w_handled :: "Message list"
  calls_cancelled :: nat
  calls_closed :: nat
  w_panic :: "ws_panic option"
  w_accepted :: "bytes list"
  w_taken :: "bytes list"
  w_raced :: bool

text \<open>
  \<open>dial\<close> is the parsing of the address and the connection to the server; the headers become lists
  of one value.
\<close>

datatype ws_error = InvalidURL string | DialFailed string | MarshalError string | ClientClosed

definition NewWSClient ::
  "(string \<Rightarrow> string + 'u) \<Rightarrow> ('u \<Rightarrow> (string \<times> string list) list \<Rightarrow> string option) \<Rightarrow> string \<Rightarrow> (string \<times> string) list \<Rightarrow>
   ws_error + WSClient" where
  "NewWSClient parse dial serverURL headers =
     (case parse serverURL of
        Inl err \<Rightarrow> Inl (InvalidURL err)
      | Inr u \<Rightarrow>
          (case dial u (map (\<lambda>(k, v). (k, [v])) headers) of
             Some err \<Rightarrow> Inl (DialFailed err)
           | None \<Rightarrow>
               Inr \<lparr>w_sendChan = make_chan 256, w_done = False, w_cancelled = False, w_conn_closed = False,
                    w_reader = RIdle, w_writer = WIdle, w_pinger = GIdle, w_wire = [], w_handled = [],
                    calls_cancelled = 0, calls_closed = 0, w_panic = None, w_accepted = [], w_taken = [], w_raced = False\<rparr>))"

definition ws_Start :: "WSClient \<Rightarrow> WSClient" where
  "ws_Start c = c\<lparr>w_reader := RTop, w_writer := WSelect, w_pinger := GSelect\<rparr>"

section \<open>Operations\<close>

text \<open>
  The message is decoded and given to the handler, whose result and error have no further effect;
  \<open>unmarshal\<close> is \<^verbatim>\<open>utils.Bytes2Struct\<close>. The handler may panic (\<open>hpanics\<close>), as a nil one does.
\<close>

definition handleMessage :: "(bytes \<Rightarrow> Message option) \<Rightarrow> (Message \<Rightarrow> bool) \<Rightarrow> bytes \<Rightarrow> WSClient \<Rightarrow> WSClient" where
  "handleMessage unmarshal hpanics data c =
     (case unmarshal data of
        None \<Rightarrow> c
      | Some msg \<Rightarrow>
          if hpanics msg then c\<lparr>w_panic := Some HandlerPanics\<rparr> else c\<lparr>w_handled := w_handled c @ [msg]\<rparr>)"

text \<open>The deferred function of \<^verbatim>\<open>readPump\<close>.\<close>

definition reader_exit :: "WSClient \<Rightarrow> WSClient" where
  "reader_exit c =
     (if w_done c then c\<lparr>w_conn_closed := True, w_reader := RGone, w_panic := Some CloseOfClosed\<rparr>
      else c\<lparr>w_conn_closed := True, w_reader := RGone, w_done := True\<rparr>)"

datatype read_case = ReadCheck | ReadMsg bytes | ReadError

definition readPump ::
  "(bytes \<Rightarrow> Message option) \<Rightarrow> (Message \<Rightarrow> bool) \<Rightarrow> read_case \<Rightarrow> WSClient \<Rightarrow> WSClient option" where
  "readPump unmarshal hpanics r c =
     (case (w_reader c, r) of
        (RTop, ReadCheck) \<Rightarrow> Some (if w_cancelled c then reader_exit c else c\<lparr>w_reader := RRead\<rparr>)
      | (RRead, ReadMsg data) \<Rightarrow>
          if w_conn_closed c then None else Some (handleMessage unmarshal hpanics data (c\<lparr>w_reader := RTop\<rparr>))
      | (RRead, ReadError) \<Rightarrow> Some (reader_exit c)
      | _ \<Rightarrow> None)"

text \<open>
  For a message \<^verbatim>\<open>NextWriter\<close> gives a writer (\<open>Opened\<close>) or fails and ends the goroutine (\<open>NoWriter\<close>);
  then the message is written into it (\<open>Wrote\<close>), and the frame goes out when it is closed (\<open>Written\<close>)
  or is lost (\<open>WriteLost\<close>): the errors of these two calls go unnoticed. A ping or a close frame is
  written by one call, which succeeds (\<open>Written\<close>) or fails (\<open>NoWriter\<close>).
\<close>

datatype write_result = Opened | Wrote | Written | WriteLost | NoWriter

datatype write_case = WriteTake | WriteTick | WriteDone | WriteResult write_result

definition writer_exit :: "WSClient \<Rightarrow> WSClient" where
  "writer_exit c = c\<lparr>w_conn_closed := True, w_writer := WGone\<rparr>"

definition put_frame :: "wire_frame \<Rightarrow> WSClient \<Rightarrow> WSClient" where
  "put_frame f c = c\<lparr>w_wire := w_wire c @ [f]\<rparr>"

definition writePump :: "write_case \<Rightarrow> WSClient \<Rightarrow> WSClient option" where
  "writePump w c =
     (case (w_writer c, w) of
        (WSelect, WriteTake) \<Rightarrow>
          (case chan_recv (w_sendChan c) of
             Received m ch \<Rightarrow> Some (c\<lparr>w_sendChan := ch, w_writer := WMsg m, w_taken := w_taken c @ [m]\<rparr>)
           | RecvClosed \<Rightarrow> Some (c\<lparr>w_writer := WCloseFrame\<rparr>)
           | RecvBlocks \<Rightarrow> None)
      | (WSelect, WriteTick) \<Rightarrow> Some (c\<lparr>w_writer := WTickPing\<rparr>)
      | (WSelect, WriteDone) \<Rightarrow> if w_cancelled c then Some (writer_exit c) else None
      | (WMsg m, WriteResult Opened) \<Rightarrow> Some (c\<lparr>w_writer := WFrame m\<rparr>)
      | (WMsg m, WriteResult NoWriter) \<Rightarrow> Some (writer_exit c)
      | (WFrame m, WriteResult Wrote) \<Rightarrow> Some (c\<lparr>w_writer := WFilled m\<rparr>)
      | (WFilled m, WriteResult Written) \<Rightarrow> Some (put_frame (WText m) (c\<lparr>w_writer := WSelect\<rparr>))
      | (WFilled m, WriteResult WriteLost) \<Rightarrow> Some (c\<lparr>w_writer := WSelect\<rparr>)
      | (WTickPing, WriteResult Written) \<Rightarrow> Some (put_frame WPing (c\<lparr>w_writer := WSelect\<rparr>))
      | (WTickPing, WriteResult NoWriter) \<Rightarrow> Some (writer_exit c)
      | (WCloseFrame, WriteResult Written) \<Rightarrow> Some (writer_exit (put_frame WClose c))
      | (WCloseFrame, WriteResult NoWriter) \<Rightarrow> Some (writer_exit c)
      | _ \<Rightarrow> None)"

datatype ping_case = PingTick | PingDone | PingResult bool

definition pingPump :: "ping_case \<Rightarrow> WSClient \<Rightarrow> WSClient option" where
  "pingPump p c =
     (case (w_pinger c, p) of
        (GSelect, PingTick) \<Rightarrow> Some (c\<lparr>w_pinger := GPing\<rparr>)
      | (GSelect, PingDone) \<Rightarrow> if w_cancelled c then Some (c\<lparr>w_pinger := GGone\<rparr>) else None
      | (GPing, PingResult True) \<Rightarrow> Some (put_frame WPing (c\<lparr>w_pinger := GSelect\<rparr>))
      | (GPing, PingResult False) \<Rightarrow> Some (c\<lparr>w_pinger := GGone\<rparr>)
      | _ \<Rightarrow> None)"

text \<open>
  \<^verbatim>\<open>SendMessage\<close> by the case its \<^verbatim>\<open>select\<close> takes: \<open>True\<close> for the channel. A send on the closed channel
  can be chosen and panics. \<open>Some None\<close> is the nil error.
\<close>

definition ws_SendMessage ::
  "(Message \<Rightarrow> string + bytes) \<Rightarrow> string \<Rightarrow> string \<Rightarrow> string \<Rightarrow> bool \<Rightarrow> WSClient \<Rightarrow> (ws_error option \<times> WSClient) option" where
  "ws_SendMessage marshal main sub payload' chan_case c =
     (case marshal \<lparr>Main = main, Sub = sub, Payload = payload'\<rparr> of
        Inl err \<Rightarrow> Some (Some (MarshalError err), c)
      | Inr data \<Rightarrow>
          if chan_case then
            (case chan_send data (w_sendChan c) of
               Sent ch \<Rightarrow> Some (None, c\<lparr>w_sendChan := ch, w_accepted := w_accepted c @ [data]\<rparr>)
             | SendPanics \<Rightarrow> Some (None, c\<lparr>w_panic := Some SendOnClosed\<rparr>)
             | SendBlocks \<Rightarrow> None)
          else if w_cancelled c then Some (Some ClientClosed, c) else None)"

text \<open>The three statements of \<^verbatim>\<open>Close\<close>.\<close>

datatype close_case = CancelCtx | CloseChan | CloseConn

definition ws_Close :: "close_case \<Rightarrow> WSClient \<Rightarrow> WSClient option" where
  "ws_Close k c =
     (case k of
        CancelCtx \<Rightarrow> Some (c\<lparr>w_cancelled := True, calls_cancelled := Suc (calls_cancelled c)\<rparr>)
      | CloseChan \<Rightarrow>
          if calls_cancelled c = 0 then None
          else (case chan_close (w_sendChan c) of
                  None \<Rightarrow> Some (c\<lparr>calls_cancelled := calls_cancelled c - 1, w_panic := Some CloseOfClosed\<rparr>)
                | Some ch \<Rightarrow> Some (c\<lparr>calls_cancelled := calls_cancelled c - 1, w_sendChan := ch, calls_closed := Suc (calls_closed c)\<rparr>))
      | CloseConn \<Rightarrow>
          if calls_closed c = 0 then None else Some (c\<lparr>calls_closed := calls_closed c - 1, w_conn_closed := True\<rparr>))"

text \<open>
  Two goroutines in a write at the same time; the library may notice it and panic.
\<close>

definition both_writing :: "WSClient \<Rightarrow> bool" where
  "both_writing c \<longleftrightarrow> w_pinger c = GPing \<and>
     (case w_writer c of WIdle \<Rightarrow> False | WSelect \<Rightarrow> False | WGone \<Rightarrow> False | _ \<Rightarrow> True)"

definition write_race :: "WSClient \<Rightarrow> WSClient option" where
  "write_race c = (if both_writing c then Some (c\<lparr>w_panic := Some ConcurrentWrite\<rparr>) else None)"

definition mark_race :: "WSClient \<Rightarrow> WSClient" where
  "mark_race c = c\<lparr>w_raced := w_raced c \<or> both_writing c\<rparr>"

datatype ws_event =
    ReadEv read_case
  | WriteEv write_case
  | PingEv ping_case
  | SendEv string string string bool
  | CloseEv close_case
  | RaceEv

definition ws_do ::
  "(bytes \<Rightarrow> Message option) \<Rightarrow> (Message \<Rightarrow> string + bytes) \<Rightarrow> (Message \<Rightarrow> bool) \<Rightarrow> ws_event \<Rightarrow> WSClient \<Rightarrow> WSClient option" where
  "ws_do unmarshal marshal hpanics e c =
     (case e of
        ReadEv r \<Rightarrow> readPump unmarshal hpanics r c
      | WriteEv w \<Rightarrow> writePump w c
      | PingEv p \<Rightarrow> pingPump p c
      | SendEv m s p b \<Rightarrow> map_option snd (ws_SendMessage marshal m s p b c)
      | CloseEv k \<Rightarrow> ws_Close k c
      | RaceEv \<Rightarrow> write_race c)"

text \<open>A panic ends the process.\<close>

definition ws_step ::
  "(bytes \<Rightarrow> Message option) \<Rightarrow> (Message \<Rightarrow> string + bytes) \<Rightarrow> (Message \<Rightarrow> bool) \<Rightarrow> ws_event \<Rightarrow> WSClient \<Rightarrow> WSClient option" where
  "ws_step unmarshal marshal hpanics e c =
     (if w_panic c \<noteq> None then None else map_option mark_race (ws_do unmarshal marshal hpanics e c))"

lemma ws_stepE:
  assumes "ws_step unmarshal marshal hpanics e c = Some t"
  obtains u where "w_panic c = None" and "ws_do unmarshal marshal hpanics e c = Some u" and "t = mark_race u"
  using assms by (auto simp: ws_step_def split: if_splits)

lemma mark_race_simps [simp]:
  "w_sendChan (mark_race c) = w_sendChan c" "w_taken (mark_race c) = w_taken c" "w_accepted (mark_race c) = w_accepted c"
  "w_wire (mark_race c) = w_wire c" "w_writer (mark_race c) = w_writer c" "w_panic (mark_race c) = w_panic c"
  "w_done (mark_race c) = w_done c" "w_reader (mark_race c) = w_reader c" "w_pinger (mark_race c) = w_pinger c"
  by (simp_all add: mark_race_def)

section \<open>Order on the wire\<close>

definition texts :: "wire_frame list \<Rightarrow> bytes list" where
  "texts fs = concat (map (\<lambda>f. case f of WText m \<Rightarrow> [m] | _ \<Rightarrow> []) fs)"

definition in_hand :: "writer_at \<Rightarrow> bytes list" where
  "in_hand w = (case w of WMsg m \<Rightarrow> [m] | WFrame m \<Rightarrow> [m] | WFilled m \<Rightarrow> [m] | _ \<Rightarrow> [])"

definition order_inv :: "WSClient \<Rightarrow> bool" where
  "order_inv c \<longleftrightarrow> w_taken c @ chan_buf (w_sendChan c) = w_accepted c \<and>
     subseq (texts (w_wire c) @ in_hand (w_writer c)) (w_taken c)"

lemma texts_simps [simp]: "texts [] = []" "texts (fs @ gs) = texts fs @ texts gs"
  "texts [WText m] = [m]" "texts [WPing] = []" "texts [WClose] = []"
  by (simp_all add: texts_def)

lemma in_hand_simps [simp]: "in_hand (WMsg m) = [m]" "in_hand (WFrame m) = [m]" "in_hand (WFilled m) = [m]" "in_hand WSelect = []" "in_hand WTickPing = []"
  "in_hand WCloseFrame = []" "in_hand WGone = []" "in_hand WIdle = []"
  by (simp_all add: in_hand_def)

text \<open>What a step changes of the fields the invariant looks at.\<close>

definition ws_same_traffic :: "WSClient \<Rightarrow> WSClient \<Rightarrow> bool" where
  "ws_same_traffic c t \<longleftrightarrow> w_taken t = w_taken c \<and> chan_buf (w_sendChan t) = chan_buf (w_sendChan c) \<and>
     w_accepted t = w_accepted c \<and> texts (w_wire t) = texts (w_wire c) \<and> w_writer t = w_writer c"

lemma ws_same_traffic_inv: "ws_same_traffic c t \<Longrightarrow> order_inv c \<Longrightarrow> order_inv t"
  by (simp add: ws_same_traffic_def order_inv_def)

lemma readPump_traffic: "readPump unmarshal hpanics r c = Some t \<Longrightarrow> ws_same_traffic c t"
  by (auto simp: readPump_def ws_same_traffic_def reader_exit_def handleMessage_def
      split: reader_at.splits read_case.splits option.splits if_splits)

lemma pingPump_traffic: "pingPump p c = Some t \<Longrightarrow> ws_same_traffic c t"
  by (auto simp: pingPump_def ws_same_traffic_def put_frame_def
      split: pinger_at.splits ping_case.splits bool.splits if_splits)

lemma ws_Close_traffic: "ws_Close k c = Some t \<Longrightarrow> ws_same_traffic c t"
  by (auto simp: ws_Close_def ws_same_traffic_def chan_close_def split: close_case.splits if_splits)

lemma subseq_dropped: "subseq (xs @ [m]) ys \<Longrightarrow> subseq xs ys"
  by (metis append_Nil2 list_emb_append_mono list_emb_Nil subseq_order.refl subseq_order.trans)

lemma writePump_inv:
  assumes "order_inv c" and "writePump w c = Some t"
  shows "order_inv t"
proof (cases "w_writer c")
  case WSelect
  with assms show ?thesis
    by (cases w) (auto simp: writePump_def order_inv_def writer_exit_def chan_recv_def
        split: list.splits if_splits)
next
  case (WMsg m)
  with assms show ?thesis
    by (cases w) (auto simp: writePump_def order_inv_def writer_exit_def
        split: write_result.splits intro: subseq_dropped)
next
  case (WFilled m)
  with assms show ?thesis
    by (cases w) (auto simp: writePump_def order_inv_def put_frame_def
        split: write_result.splits intro: subseq_dropped)
qed (use assms in \<open>auto simp: writePump_def order_inv_def writer_exit_def put_frame_def
        split: write_case.splits write_result.splits\<close>)

lemma mark_race_inv: "order_inv (mark_race c) = order_inv c"
  by (simp add: order_inv_def)

lemma write_race_traffic: "write_race c = Some t \<Longrightarrow> ws_same_traffic c t"
  by (auto simp: write_race_def ws_same_traffic_def split: if_splits)

lemma ws_Send_inv:
  assumes "order_inv c" and "ws_SendMessage marshal m s p b c = Some (r, t)"
  shows "order_inv t"
  using assms
  by (auto simp: ws_SendMessage_def order_inv_def chan_send_def split: sum.splits if_splits)

lemma ws_do_inv:
  assumes inv: "order_inv c" and step: "ws_do unmarshal marshal hpanics e c = Some t"
  shows "order_inv t"
proof (cases e)
  case (ReadEv r)
  with step show ?thesis using ws_same_traffic_inv [OF readPump_traffic inv] by (simp add: ws_do_def)
next
  case (WriteEv w)
  with step show ?thesis using writePump_inv [OF inv] by (simp add: ws_do_def)
next
  case (PingEv q)
  with step show ?thesis using ws_same_traffic_inv [OF pingPump_traffic inv] by (simp add: ws_do_def)
next
  case (SendEv m s q b)
  with step show ?thesis using ws_Send_inv [OF inv] by (auto simp: ws_do_def)
next
  case (CloseEv k)
  with step show ?thesis using ws_same_traffic_inv [OF ws_Close_traffic inv] by (simp add: ws_do_def)
next
  case RaceEv
  with step show ?thesis using ws_same_traffic_inv [OF write_race_traffic inv] by (simp add: ws_do_def)
qed

interpretation ws_order: event_invariant "ws_step unmarshal marshal hpanics" order_inv for unmarshal marshal hpanics
  by unfold_locales (auto elim!: ws_stepE simp: mark_race_inv intro: ws_do_inv)

lemma ws_started_inv: "NewWSClient parse dial url hs = Inr c0 \<Longrightarrow> order_inv (ws_Start c0)"
  by (auto simp: NewWSClient_def ws_Start_def order_inv_def make_chan_def texts_def split: sum.splits option.splits)

text \<open>
  C22. The wire keeps the order. In every run of a started client in which the writer and the ping
  goroutine were never in a write at the same time, the text messages written to the connection are,
  in this order, among the messages that calls of \<^verbatim>\<open>SendMessage\<close> put into the channel; those written,
  those lost in a failed write, the one being written and those still in the channel are together
  exactly the accepted ones, and nothing is written twice. The pings of both goroutines fall between
  the messages.
\<close>

theorem ws_wire_order:
  assumes "NewWSClient parse dial url hs = Inr c0"
    and "run_events (ws_step unmarshal marshal hpanics) es (ws_Start c0) = Some t" and "\<not> w_raced t"
  shows "w_taken t @ chan_buf (w_sendChan t) = w_accepted t \<and>
    subseq (texts (w_wire t) @ in_hand (w_writer t)) (w_taken t)"
  using ws_order.run_keeps [OF ws_started_inv [OF assms(1)] assms(2)] by (auto simp: order_inv_def)

definition demo_client :: WSClient where
  "demo_client = projr (NewWSClient (\<lambda>s. Inr s :: string + string) (\<lambda>_ _. None) ''ws://h'' [])"

lemma demo_client_new: "NewWSClient (\<lambda>s. Inr s :: string + string) (\<lambda>_ _. None) ''ws://h'' [] = Inr demo_client"
  by (simp add: demo_client_def NewWSClient_def)

definition demo_step :: "ws_event \<Rightarrow> WSClient \<Rightarrow> WSClient option" where
  "demo_step = ws_step (\<lambda>_. None) (\<lambda>m. Inr (Payload m)) (\<lambda>_. False)"

lemmas demo_eval = demo_step_def demo_client_def NewWSClient_def ws_Start_def ws_step_def ws_do_def ws_SendMessage_def ws_Close_def
  mark_race_def both_writing_def write_race_def
  writePump_def pingPump_def put_frame_def chan_send_def chan_recv_def chan_close_def make_chan_def

theorem ws_wire_order_witness:
  "\<exists>t. run_events demo_step [SendEv ''m'' ''s'' ''one'' True, SendEv ''m'' ''s'' ''two'' True, WriteEv WriteTake,
         WriteEv (WriteResult Opened), WriteEv (WriteResult Wrote), WriteEv (WriteResult Written), PingEv PingTick, PingEv (PingResult True)]
       (ws_Start demo_client) = Some t \<and>
     w_taken t @ chan_buf (w_sendChan t) = w_accepted t \<and> subseq (texts (w_wire t)) (w_taken t) \<and> w_wire t = [WText ''one'', WPing]"
proof -
  obtain t where t: "run_events demo_step [SendEv ''m'' ''s'' ''one'' True, SendEv ''m'' ''s'' ''two'' True, WriteEv WriteTake,
         WriteEv (WriteResult Opened), WriteEv (WriteResult Wrote), WriteEv (WriteResult Written), PingEv PingTick, PingEv (PingResult True)]
      (ws_Start demo_client) = Some t" "\<not> w_raced t" "w_wire t = [WText ''one'', WPing]" "w_writer t = WSelect"
    by (simp add: demo_eval)
  from ws_wire_order [OF demo_client_new t(1) [unfolded demo_step_def] t(2)] t show ?thesis by simp
qed

section \<open>Panics\<close>

definition gone_inv :: "WSClient \<Rightarrow> bool" where
  "gone_inv c \<longleftrightarrow> (w_done c \<longleftrightarrow> w_reader c = RGone)"

lemma reader_exit_fine: "gone_inv c \<Longrightarrow> w_reader c \<noteq> RGone \<Longrightarrow> gone_inv (reader_exit c) \<and> w_panic (reader_exit c) = w_panic c"
  by (simp add: gone_inv_def reader_exit_def)

lemma readPump_fine:
  assumes "gone_inv c" and "readPump unmarshal hpanics r c = Some t"
  shows "gone_inv t \<and> w_sendChan t = w_sendChan c \<and>
    (w_panic c = None \<longrightarrow> (w_panic t \<noteq> None \<longleftrightarrow> (\<exists>data msg. r = ReadMsg data \<and> unmarshal data = Some msg \<and> hpanics msg)))"
  using assms
  by (auto simp: readPump_def gone_inv_def reader_exit_def handleMessage_def
      split: reader_at.splits read_case.splits option.splits if_splits)

lemma writePump_fine:
  "writePump w c = Some t \<Longrightarrow> gone_inv t = gone_inv c \<and> w_panic t = w_panic c \<and> chan_closed (w_sendChan t) = chan_closed (w_sendChan c)"
  by (auto simp: writePump_def gone_inv_def writer_exit_def put_frame_def chan_recv_def
      split: writer_at.splits write_case.splits write_result.splits list.splits if_splits)

lemma pingPump_fine:
  "pingPump p c = Some t \<Longrightarrow> gone_inv t = gone_inv c \<and> w_panic t = w_panic c \<and> w_sendChan t = w_sendChan c"
  by (auto simp: pingPump_def gone_inv_def put_frame_def split: pinger_at.splits ping_case.splits bool.splits if_splits)

lemma ws_Send_fine:
  "ws_SendMessage marshal m s p b c = Some (r, t) \<Longrightarrow> gone_inv t = gone_inv c \<and>
     chan_closed (w_sendChan t) = chan_closed (w_sendChan c) \<and>
     (w_panic c = None \<longrightarrow> (w_panic t \<noteq> None \<longleftrightarrow> b \<and> chan_closed (w_sendChan c) \<and> (\<exists>d. marshal \<lparr>Main = m, Sub = s, Payload = p\<rparr> = Inr d)))"
  by (auto simp: ws_SendMessage_def gone_inv_def chan_send_def split: sum.splits if_splits)

lemma ws_Close_fine:
  "ws_Close k c = Some t \<Longrightarrow> gone_inv t = gone_inv c \<and>
     chan_closed (w_sendChan t) = (chan_closed (w_sendChan c) \<or> k = CloseChan) \<and>
     (w_panic c = None \<longrightarrow> (w_panic t \<noteq> None \<longleftrightarrow> k = CloseChan \<and> chan_closed (w_sendChan c)))"
  by (auto simp: ws_Close_def gone_inv_def chan_close_def split: close_case.splits if_splits)

lemma write_race_fine:
  "write_race c = Some t \<Longrightarrow> gone_inv t = gone_inv c \<and> w_panic t \<noteq> None \<and> w_sendChan t = w_sendChan c"
  by (auto simp: write_race_def gone_inv_def split: if_splits)

text \<open>The steps that panic.\<close>

definition panics_at ::
  "(bytes \<Rightarrow> Message option) \<Rightarrow> (Message \<Rightarrow> string + bytes) \<Rightarrow> (Message \<Rightarrow> bool) \<Rightarrow> bool \<Rightarrow> ws_event \<Rightarrow> bool" where
  "panics_at unmarshal marshal hpanics shut e \<longleftrightarrow>
     (case e of
        ReadEv r \<Rightarrow> (\<exists>data msg. r = ReadMsg data \<and> unmarshal data = Some msg \<and> hpanics msg)
      | SendEv m s p b \<Rightarrow> b \<and> shut \<and> (\<exists>d. marshal \<lparr>Main = m, Sub = s, Payload = p\<rparr> = Inr d)
      | CloseEv k \<Rightarrow> k = CloseChan \<and> shut
      | RaceEv \<Rightarrow> True
      | _ \<Rightarrow> False)"

lemma ws_do_fine:
  assumes "gone_inv c" and "w_panic c = None" and "ws_do unmarshal marshal hpanics e c = Some t"
  shows "gone_inv t \<and> chan_closed (w_sendChan t) = (chan_closed (w_sendChan c) \<or> e = CloseEv CloseChan) \<and>
    (w_panic t \<noteq> None \<longleftrightarrow> panics_at unmarshal marshal hpanics (chan_closed (w_sendChan c)) e)"
proof (cases e)
  case (ReadEv r)
  with assms readPump_fine [OF assms(1), of unmarshal hpanics r t] show ?thesis by (simp add: ws_do_def panics_at_def)
next
  case (WriteEv w)
  with assms writePump_fine [of w c t] show ?thesis by (simp add: ws_do_def panics_at_def)
next
  case (PingEv q)
  with assms pingPump_fine [of q c t] show ?thesis by (simp add: ws_do_def panics_at_def)
next
  case (SendEv m s q b)
  with assms obtain r where "ws_SendMessage marshal m s q b c = Some (r, t)" by (auto simp: ws_do_def)
  from ws_Send_fine [OF this] SendEv assms show ?thesis by (simp add: panics_at_def)
next
  case (CloseEv k)
  with assms have "ws_Close k c = Some t" by (simp add: ws_do_def)
  from ws_Close_fine [OF this] CloseEv assms show ?thesis by (simp add: panics_at_def)
next
  case RaceEv
  with assms write_race_fine [of c t] show ?thesis by (simp add: ws_do_def panics_at_def)
qed

lemma gone_inv_mark [simp]: "gone_inv (mark_race c) = gone_inv c"
  by (simp add: gone_inv_def)

lemma ws_step_fine:
  assumes "gone_inv c" and "ws_step unmarshal marshal hpanics e c = Some t"
  shows "gone_inv t \<and> chan_closed (w_sendChan t) = (chan_closed (w_sendChan c) \<or> e = CloseEv CloseChan) \<and>
    (w_panic t \<noteq> None \<longleftrightarrow> panics_at unmarshal marshal hpanics (chan_closed (w_sendChan c)) e)"
  using assms(2) by (rule ws_stepE) (use ws_do_fine [OF assms(1)] in simp)

lemma ws_run_fine:
  "gone_inv c \<Longrightarrow> run_events (ws_step unmarshal marshal hpanics) es c = Some t \<Longrightarrow>
     gone_inv t \<and> chan_closed (w_sendChan t) = (chan_closed (w_sendChan c) \<or> CloseEv CloseChan \<in> set es)"
proof (induction es arbitrary: c)
  case (Cons e es)
  then obtain c1 where c1: "ws_step unmarshal marshal hpanics e c = Some c1" "run_events (ws_step unmarshal marshal hpanics) es c1 = Some t"
    by (auto split: option.splits)
  with ws_step_fine [OF Cons.prems(1) c1(1)] Cons.IH [of c1] show ?case by auto
qed simp

text \<open>
  C32. When the client panics. After any run of a started client, a step makes the process panic
  exactly in these cases: a call of \<^verbatim>\<open>Close\<close> has already closed the channel, and the step is a second
  \<^verbatim>\<open>Close\<close> closing it again or the \<^verbatim>\<open>select\<close> of a \<^verbatim>\<open>SendMessage\<close> taking the channel; a message was read on
  which the handler panics (a nil handler does on each); or the websocket library notices that the
  writer and the ping goroutine are in a write at the same time, which it can exactly when they
  are.
\<close>

theorem ws_panics_exactly:
  assumes "NewWSClient parse dial url hs = Inr c0"
    and "run_events (ws_step unmarshal marshal hpanics) es (ws_Start c0) = Some t" and "w_panic t = None"
  shows "(\<forall>e t'. ws_step unmarshal marshal hpanics e t = Some t' \<longrightarrow>
       (w_panic t' \<noteq> None \<longleftrightarrow>
          (CloseEv CloseChan \<in> set es \<and>
             (e = CloseEv CloseChan \<or> (\<exists>m s p d. e = SendEv m s p True \<and> marshal \<lparr>Main = m, Sub = s, Payload = p\<rparr> = Inr d))) \<or>
          (\<exists>data msg. e = ReadEv (ReadMsg data) \<and> unmarshal data = Some msg \<and> hpanics msg) \<or>
          e = RaceEv)) \<and>
     (ws_step unmarshal marshal hpanics RaceEv t \<noteq> None \<longleftrightarrow> both_writing t)"
proof -
  have "gone_inv (ws_Start c0)" "\<not> chan_closed (w_sendChan (ws_Start c0))"
    using assms(1) by (auto simp: NewWSClient_def ws_Start_def gone_inv_def make_chan_def split: sum.splits option.splits)
  with ws_run_fine [OF _ assms(2)] have t: "gone_inv t" "chan_closed (w_sendChan t) = (CloseEv CloseChan \<in> set es)" by auto
  have "w_panic t' \<noteq> None \<longleftrightarrow> panics_at unmarshal marshal hpanics (CloseEv CloseChan \<in> set es) e"
    if "ws_step unmarshal marshal hpanics e t = Some t'" for e t'
    using ws_step_fine [OF t(1) that] t(2) by simp
  moreover have "panics_at unmarshal marshal hpanics shut e \<longleftrightarrow>
      (shut \<and> (e = CloseEv CloseChan \<or> (\<exists>m s p d. e = SendEv m s p True \<and> marshal \<lparr>Main = m, Sub = s, Payload = p\<rparr> = Inr d))) \<or>
      (\<exists>data msg. e = ReadEv (ReadMsg data) \<and> unmarshal data = Some msg \<and> hpanics msg) \<or> e = RaceEv" for shut e
    by (cases e) (auto simp: panics_at_def)
  ultimately show ?thesis using assms(3) by (simp add: ws_step_def ws_do_def write_race_def)
qed

theorem ws_panics_exactly_witness:
  "\<exists>t t'. run_events demo_step [CloseEv CancelCtx, CloseEv CloseChan] (ws_Start demo_client) = Some t \<and>
     demo_step (SendEv ''m'' ''s'' ''late'' True) t = Some t' \<and> w_panic t' \<noteq> None"
proof -
  obtain t t' where t: "run_events demo_step [CloseEv CancelCtx, CloseEv CloseChan] (ws_Start demo_client) = Some t"
    "w_panic t = None" "demo_step (SendEv ''m'' ''s'' ''late'' True) t = Some t'"
    by (simp add: demo_eval)
  from ws_panics_exactly [OF demo_client_new t(1) [unfolded demo_step_def] t(2)] t(3) have "w_panic t' \<noteq> None"
    unfolding demo_step_def by auto
  with t show ?thesis by blast
qed

text \<open>
  The two goroutines that write can do so at the same time: while the writer has a writer for a
  message and has not closed it, the ping is written.
\<close>

lemma concurrent_writes:
  "\<exists>t u. run_events demo_step [SendEv ''m'' ''s'' ''one'' True, WriteEv WriteTake, WriteEv (WriteResult Opened), PingEv PingTick]
       (ws_Start demo_client) = Some t \<and> w_raced t \<and> demo_step RaceEv t = Some u \<and> w_panic u = Some ConcurrentWrite"
  by (simp add: demo_eval)

end
