(* ===== verification/Services.thy ===== *)
theory Services
  imports Prelude
begin

text \<open>
  \<^verbatim>\<open>services/base_service.go\<close>: the life cycle of a service, the two kinds of services and their factory.
  A context is known by its number; the world counts the contexts made so far and records which of
  them are cancelled. \<^verbatim>\<open>protocol/response.go\<close>, the answers of HTTP handlers, is at the end.
\<close>

section \<open>Operations\<close>

record contexts =
  made :: nat
  cancelled :: "nat list"

definition WithCancel :: "contexts \<Rightarrow> nat \<times> contexts" where
  "WithCancel w = (made w, w\<lparr>made := Suc (made w)\<rparr>)"

definition cancel_ctx :: "nat \<Rightarrow> contexts \<Rightarrow> contexts" where
  "cancel_ctx i w = w\<lparr>cancelled := i # cancelled w\<rparr>"

record BaseService =
  ctx :: "nat option"
  isRun :: bool

definition zero_service :: BaseService where
  "zero_service = \<lparr>ctx = None, isRun = False\<rparr>"

definition Base_Init :: "BaseService \<Rightarrow> BaseService" where
  "Base_Init bs = bs\<lparr>isRun := False\<rparr>"

definition Base_Start :: "BaseService \<Rightarrow> contexts \<Rightarrow> BaseService \<times> contexts" where
  "Base_Start bs w =
     (if isRun bs then (bs, w)
      else case WithCancel w of (i, w1) \<Rightarrow> (bs\<lparr>ctx := Some i, isRun := True\<rparr>, w1))"

definition Base_Stop :: "BaseService \<Rightarrow> contexts \<Rightarrow> BaseService \<times> contexts" where
  "Base_Stop bs w =
     (if \<not> isRun bs then (bs, w)
      else (bs\<lparr>isRun := False\<rparr>, (case ctx bs of None \<Rightarrow> w | Some i \<Rightarrow> cancel_ctx i w)))"

definition Base_IsRunning :: "BaseService \<Rightarrow> bool" where
  "Base_IsRunning bs = isRun bs"

text \<open>A configuration value: a text, or something else.\<close>

datatype confval = ConfText string | ConfOther nat

datatype Service = HttpService BaseService string | QueueService BaseService string

definition first_text :: "confval list \<Rightarrow> string \<Rightarrow> string" where
  "first_text config old = (case config of ConfText v # _ \<Rightarrow> v | _ \<Rightarrow> old)"

fun Service_Init :: "confval list \<Rightarrow> Service \<Rightarrow> Service" where
  "Service_Init config (HttpService b c) = HttpService (Base_Init b) (first_text config c)"
| "Service_Init config (QueueService b q) = QueueService (Base_Init b) (first_text config q)"

fun base :: "Service \<Rightarrow> BaseService" where
  "base (HttpService b c) = b"
| "base (QueueService b q) = b"

fun with_base :: "BaseService \<Rightarrow> Service \<Rightarrow> Service" where
  "with_base b (HttpService _ c) = HttpService b c"
| "with_base b (QueueService _ q) = QueueService b q"

definition Service_Start :: "Service \<Rightarrow> contexts \<Rightarrow> Service \<times> contexts" where
  "Service_Start s w = (case Base_Start (base s) w of (b, w1) \<Rightarrow> (with_base b s, w1))"

definition Service_Stop :: "Service \<Rightarrow> contexts \<Rightarrow> Service \<times> contexts" where
  "Service_Stop s w = (case Base_Stop (base s) w of (b, w1) \<Rightarrow> (with_base b s, w1))"

definition ServiceFactory :: "string \<Rightarrow> Service option" where
  "ServiceFactory serviceType =
     (if serviceType = ''http'' then Some (HttpService zero_service [])
      else if serviceType = ''queue'' then Some (QueueService zero_service [])
      else None)"

section \<open>Life cycle\<close>

datatype service_event = InitCall "confval list" | StartCall | StopCall

fun service_step :: "service_event \<Rightarrow> Service \<times> contexts \<Rightarrow> (Service \<times> contexts) option" where
  "service_step (InitCall cfg) (s, w) = Some (Service_Init cfg s, w)"
| "service_step StartCall (s, w) = Some (Service_Start s w)"
| "service_step StopCall (s, w) = Some (Service_Stop s w)"

text \<open>The steps in which the service is not initialised while it runs.\<close>

definition tidy_step :: "service_event \<Rightarrow> Service \<times> contexts \<Rightarrow> (Service \<times> contexts) option" where
  "tidy_step e sw = (case e of InitCall _ \<Rightarrow> if isRun (base (fst sw)) then None else service_step e sw | _ \<Rightarrow> service_step e sw)"

definition live :: "contexts \<Rightarrow> nat set" where
  "live w = {i. i < made w \<and> i \<notin> set (cancelled w)}"

definition cycle_inv :: "Service \<times> contexts \<Rightarrow> bool" where
  "cycle_inv sw \<longleftrightarrow> (let b = base (fst sw); w = snd sw in
     (\<forall>i \<in> set (cancelled w). i < made w) \<and>
     live w = (if isRun b then {the (ctx b)} else {}) \<and> (isRun b \<longrightarrow> ctx b \<noteq> None))"

lemma base_simps [simp]: "base (with_base b s) = b" "isRun (base (Service_Init cfg s)) = False"
  "ctx (base (Service_Init cfg s)) = ctx (base s)"
  by (cases s; simp add: Base_Init_def)+

lemma live_made:
  "\<forall>i \<in> set (cancelled w). i < made w \<Longrightarrow> live (w\<lparr>made := Suc (made w)\<rparr>) = insert (made w) (live w)"
  by (auto simp: live_def)

lemma live_cancel: "live (cancel_ctx i w) = live w - {i}"
  by (auto simp: live_def cancel_ctx_def)

lemma cycle_inv_unfold:
  "cycle_inv (s, w) \<longleftrightarrow> (\<forall>i \<in> set (cancelled w). i < made w) \<and>
     live w = (if isRun (base s) then {the (ctx (base s))} else {}) \<and> (isRun (base s) \<longrightarrow> ctx (base s) \<noteq> None)"
  by (simp add: cycle_inv_def Let_def)

lemma Start_keeps:
  assumes "cycle_inv (s, w)" shows "cycle_inv (Service_Start s w)"
proof (cases "isRun (base s)")
  case True
  then have "Service_Start s w = (s, w)" by (cases s) (simp_all add: Service_Start_def Base_Start_def)
  then show ?thesis using assms by simp
next
  case False
  with assms show ?thesis
    by (simp add: Service_Start_def Base_Start_def WithCancel_def cycle_inv_unfold live_made less_Suc_eq)
qed

lemma Stop_keeps:
  assumes "cycle_inv (s, w)" shows "cycle_inv (Service_Stop s w)"
proof (cases "isRun (base s)")
  case True
  with assms obtain i where i: "ctx (base s) = Some i" "live w = {i}" "\<forall>i \<in> set (cancelled w). i < made w"
    by (auto simp: cycle_inv_unfold)
  then have "i < made w" by (auto simp: live_def)
  with True i show ?thesis
    by (simp add: Service_Stop_def Base_Stop_def cycle_inv_unfold live_cancel) (simp add: cancel_ctx_def)
next
  case False
  then have "Service_Stop s w = (s, w)" by (cases s) (simp_all add: Service_Stop_def Base_Stop_def)
  then show ?thesis using assms by simp
qed

lemma tidy_keeps:
  assumes "cycle_inv sw" and "tidy_step e sw = Some sw'"
  shows "cycle_inv sw'"
proof -
  obtain s w where sw: "sw = (s, w)" by force
  show ?thesis
  proof (cases e)
    case (InitCall cfg)
    with assms sw show ?thesis by (auto simp: tidy_step_def cycle_inv_unfold split: if_splits)
  qed (use assms sw Start_keeps Stop_keeps in \<open>auto simp: tidy_step_def\<close>)
qed

interpretation service_cycle: event_invariant tidy_step cycle_inv
  by unfold_locales (rule tidy_keeps)

lemma factory_inv: "ServiceFactory ty = Some s \<Longrightarrow> cycle_inv (s, \<lparr>made = 0, cancelled = []\<rparr>)"
  by (auto simp: ServiceFactory_def cycle_inv_def live_def zero_service_def split: if_splits)

text \<open>A context that the service has forgotten stays live, whatever is called afterwards.\<close>

definition forgotten :: "nat \<Rightarrow> Service \<times> contexts \<Rightarrow> bool" where
  "forgotten i sw \<longleftrightarrow> i \<in> live (snd sw) \<and> (ctx (base (fst sw)) \<noteq> Some i \<or> \<not> isRun (base (fst sw)))"

lemma forgotten_keeps:
  assumes "forgotten i sw" and "service_step e sw = Some sw'"
  shows "forgotten i sw'"
proof -
  obtain s w where sw: "sw = (s, w)" by force
  show ?thesis
    using assms sw
    by (cases e) (auto simp: forgotten_def live_def Service_Start_def Service_Stop_def Base_Start_def Base_Stop_def
        WithCancel_def cancel_ctx_def split: if_splits option.splits)
qed

interpretation service_leak: event_invariant service_step "forgotten i" for i
  by unfold_locales (rule forgotten_keeps)

text \<open>
  C31. The life cycle of a service. As long as nobody calls \<^verbatim>\<open>Init\<close> on a running service, a service
  from the factory owns exactly one live context while it runs and none while it does not: every
  context it made before is cancelled, \<^verbatim>\<open>Start\<close> and \<^verbatim>\<open>Stop\<close> may come in any order and number. But if
  \<^verbatim>\<open>Init\<close> is called while it runs, the context of that moment is never cancelled by anything that is
  called afterwards, and the next \<^verbatim>\<open>Start\<close> makes another one.
\<close>

theorem service_life_cycle:
  assumes "ServiceFactory ty = Some s0"
    and "run_events tidy_step es (s0, \<lparr>made = 0, cancelled = []\<rparr>) = Some (s, w)"
  shows "live w = (if isRun (base s) then {the (ctx (base s))} else {}) \<and>
    (isRun (base s) \<longrightarrow> (\<forall>cfg fs s' w'. run_events service_step (InitCall cfg # fs) (s, w) = Some (s', w') \<longrightarrow>
       the (ctx (base s)) \<in> live w'))"
proof (intro conjI impI allI)
  have inv: "cycle_inv (s, w)" using service_cycle.run_keeps [OF factory_inv [OF assms(1)] assms(2)] .
  then show l: "live w = (if isRun (base s) then {the (ctx (base s))} else {})" by (simp add: cycle_inv_def Let_def)
  fix cfg fs s' w'
  assume r: "isRun (base s)" and run: "run_events service_step (InitCall cfg # fs) (s, w) = Some (s', w')"
  have "forgotten (the (ctx (base s))) (Service_Init cfg s, w)"
    using l r by (simp add: forgotten_def)
  moreover have "run_events service_step fs (Service_Init cfg s, w) = Some (s', w')" using run by simp
  ultimately have "forgotten (the (ctx (base s))) (s', w')" by (rule service_leak.run_keeps)
  then show "the (ctx (base s)) \<in> live w'" by (simp add: forgotten_def)
qed

lemma service_total: "\<exists>s' w'. run_events service_step es (s, w) = Some (s', w')"
proof (induction es arbitrary: s w)
  case (Cons e es)
  obtain s1 w1 where "service_step e (s, w) = Some (s1, w1)" by (cases e) (auto intro: prod.exhaust)
  with Cons.IH show ?case by simp
qed simp

theorem service_life_cycle_witness:
  "\<exists>s0 s w s' w'. ServiceFactory ''http'' = Some s0 \<and>
     run_events tidy_step [InitCall [ConfText ''c''], StartCall, StopCall, StartCall] (s0, \<lparr>made = 0, cancelled = []\<rparr>) = Some (s, w) \<and>
     live w = {1} \<and> run_events service_step [InitCall [], StartCall, StopCall] (s, w) = Some (s', w') \<and> 1 \<in> live w'"
proof -
  obtain s0 where s0: "ServiceFactory ''http'' = Some s0" by (simp add: ServiceFactory_def)
  obtain s w where run: "run_events tidy_step [InitCall [ConfText ''c''], StartCall, StopCall, StartCall] (s0, \<lparr>made = 0, cancelled = []\<rparr>) = Some (s, w)"
    and r: "isRun (base s)" "ctx (base s) = Some 1"
    using s0 by (auto simp: ServiceFactory_def tidy_step_def Service_Start_def Service_Stop_def Base_Start_def Base_Stop_def
        Base_Init_def zero_service_def WithCancel_def cancel_ctx_def)
  obtain s' w' where run': "run_events service_step [InitCall [], StartCall, StopCall] (s, w) = Some (s', w')"
    using service_total by blast
  have "live w = {1}" using service_life_cycle [OF s0 run] r by simp
  moreover have "1 \<in> live w'"
    using service_life_cycle [OF s0 run, THEN conjunct2, rule_format, OF r(1) run'] r(2) by simp
  ultimately show ?thesis using s0 run run' by blast
qed

section \<open>Answers of handlers\<close>

text \<open>
  The answer as data: error code, message and, when it is there, the data. \<open>success_text\<close> is the
  fixed message of success. The error is its code and its message.
\<close>

record 'd BaseResponse =
  ErrCode :: int
  ErrMsg :: string
  Data :: "'d option"

definition Response :: "string \<Rightarrow> (int \<times> string) option \<Rightarrow> 'd option \<Rightarrow> nat \<times> 'd BaseResponse" where
  "Response success_text err data =
     (case err of
        None \<Rightarrow>
          (case data of
             Some d \<Rightarrow> (200, \<lparr>ErrCode = 0, ErrMsg = success_text, Data = Some d\<rparr>)
           | None \<Rightarrow> (200, \<lparr>ErrCode = 0, ErrMsg = success_text, Data = None\<rparr>))
      | Some (code, msg) \<Rightarrow> (200, \<lparr>ErrCode = code, ErrMsg = msg, Data = None\<rparr>))"

text \<open>An error answer carries no data, and an error of code 0 cannot be told from success by its code.\<close>

lemma Response_error: "Data (snd (Response t (Some e) d)) = None \<and> ErrCode (snd (Response t (Some e) d)) = fst e"
  by (cases e) (simp add: Response_def)

end
