(* ===== verification/Logging.thy ===== *)
theory Logging
  imports Prelude
begin

text \<open>
  \<^verbatim>\<open>libs/logs\<close>: the package's logger, its level and its two outputs, and the formatting of stack traces.
  The zap library is used as documented: a core writes an entry when the entry's level is at least
  the core's level, and a tee writes to all its cores. What is written is a list of entries, the
  newest last.
\<close>

section \<open>The logger\<close>

datatype sink = Console | File string

record LoggerConfig =
  Filename :: string
  MaxSize :: int
  MaxAge :: int
  MaxBackups :: int
  LocalTime :: bool
  Compress :: bool
  Level :: int

record logger =
  lg_level :: int
  lg_sinks :: "sink list"
  lg_module :: "string option"

record log_entry =
  en_sink :: sink
  en_level :: int
  en_msg :: string
  en_module :: "string option"

record logs_state =
  Log :: "logger option"
  written :: "log_entry list"

abbreviation (input) DebugLevel :: int where "DebugLevel \<equiv> - 1"
abbreviation (input) InfoLevel :: int where "InfoLevel \<equiv> 0"
abbreviation (input) WarnLevel :: int where "WarnLevel \<equiv> 1"
abbreviation (input) ErrorLevel :: int where "ErrorLevel \<equiv> 2"
abbreviation (input) FatalLevel :: int where "FatalLevel \<equiv> 5"

text \<open>\<^verbatim>\<open>zapcore.Level\<close> is an \<^verbatim>\<open>int8\<close>: the conversion keeps the lowest eight bits.\<close>

definition zap_Level :: "int \<Rightarrow> int" where
  "zap_Level n = sint (word_of_int n :: 8 word)"

definition effective_level :: "int \<Rightarrow> int" where
  "effective_level n =
     (let level = zap_Level n in if level < DebugLevel \<or> level > FatalLevel then InfoLevel else level)"

datatype log_panic = ParseFailed string | MarshalFailed

definition Init :: "(bytes \<Rightarrow> LoggerConfig \<times> string option) \<Rightarrow> bytes \<Rightarrow> logs_state \<Rightarrow> (log_panic, unit) outcome \<times> logs_state" where
  "Init parse logConfigJson st =
     (case parse logConfigJson of
        (_, Some err) \<Rightarrow> (Panics (ParseFailed err), st)
      | (logConfig, None) \<Rightarrow>
          (Returns (),
           st\<lparr>Log := Some \<lparr>lg_level = effective_level (Level logConfig), lg_sinks = [Console, File (Filename logConfig)],
                         lg_module = None\<rparr>\<rparr>))"

text \<open>What a logger does with an entry.\<close>

definition log_write :: "logger \<Rightarrow> int \<Rightarrow> string \<Rightarrow> logs_state \<Rightarrow> logs_state" where
  "log_write lg level msg st =
     (if lg_level lg \<le> level
      then st\<lparr>written := written st @ map (\<lambda>s. \<lparr>en_sink = s, en_level = level, en_msg = msg, en_module = lg_module lg\<rparr>) (lg_sinks lg)\<rparr>
      else st)"

text \<open>The functions of the package do nothing before the logger is made.\<close>

definition log_at :: "int \<Rightarrow> string \<Rightarrow> logs_state \<Rightarrow> logs_state" where
  "log_at level msg st = (case Log st of None \<Rightarrow> st | Some lg \<Rightarrow> log_write lg level msg st)"

definition Info :: "string \<Rightarrow> logs_state \<Rightarrow> logs_state" where "Info msg = log_at InfoLevel msg"
definition Warn :: "string \<Rightarrow> logs_state \<Rightarrow> logs_state" where "Warn msg = log_at WarnLevel msg"
definition Error :: "string \<Rightarrow> logs_state \<Rightarrow> logs_state" where "Error msg = log_at ErrorLevel msg"
definition Debug :: "string \<Rightarrow> logs_state \<Rightarrow> logs_state" where "Debug msg = log_at DebugLevel msg"

text \<open>
  An argument of a format: a value or, where the source forgets to spread its arguments, the slice
  of them as one argument. \<open>sprintf\<close> is \<^verbatim>\<open>fmt.Sprintf\<close>.
\<close>

datatype 'a fmt_arg = Value 'a | Slice "'a list"

definition Infof :: "(string \<Rightarrow> 'a fmt_arg list \<Rightarrow> string) \<Rightarrow> string \<Rightarrow> 'a list \<Rightarrow> logs_state \<Rightarrow> logs_state" where
  "Infof sprintf format args = log_at InfoLevel (sprintf format (map Value args))"

definition Warnf :: "(string \<Rightarrow> 'a fmt_arg list \<Rightarrow> string) \<Rightarrow> string \<Rightarrow> 'a list \<Rightarrow> logs_state \<Rightarrow> logs_state" where
  "Warnf sprintf format args = log_at WarnLevel (sprintf format (map Value args))"

definition Errorf :: "(string \<Rightarrow> 'a fmt_arg list \<Rightarrow> string) \<Rightarrow> string \<Rightarrow> 'a list \<Rightarrow> logs_state \<Rightarrow> logs_state" where
  "Errorf sprintf format args = log_at ErrorLevel (sprintf format (map Value args))"

definition Debugf :: "(string \<Rightarrow> 'a fmt_arg list \<Rightarrow> string) \<Rightarrow> string \<Rightarrow> 'a list \<Rightarrow> logs_state \<Rightarrow> logs_state" where
  "Debugf sprintf format args = log_at DebugLevel (sprintf format [Slice args])"

definition default_config :: LoggerConfig where
  "default_config = \<lparr>Filename = ''logs/app.log'', MaxSize = 60, MaxAge = 7, MaxBackups = 5, LocalTime = False,
     Compress = True, Level = - 1\<rparr>"

text \<open>\<open>marshal\<close> encodes the default configuration; \<open>None\<close> is an error.\<close>

definition GetLogger ::
  "(bytes \<Rightarrow> LoggerConfig \<times> string option) \<Rightarrow> (LoggerConfig \<Rightarrow> bytes option) \<Rightarrow> string \<Rightarrow> logs_state \<Rightarrow>
   (log_panic, logger option) outcome \<times> logs_state" where
  "GetLogger parse marshal m st =
     (case (if Log st \<noteq> None then (Returns (), st)
            else case marshal default_config of None \<Rightarrow> (Panics MarshalFailed, st) | Some jsonBytes \<Rightarrow> Init parse jsonBytes st) of
        (Panics e, st1) \<Rightarrow> (Panics e, st1)
      | (Returns _, st1) \<Rightarrow> (Returns (map_option (\<lambda>lg. lg\<lparr>lg_module := Some m\<rparr>) (Log st1)), st1))"

section \<open>Fields and stack traces\<close>

datatype 'e zap_field = FString string string | FInt string int | FError 'e | FSkip | FDuration string int

definition field_String :: "string \<Rightarrow> string \<Rightarrow> 'e zap_field" where "field_String k v = FString k v"
definition field_Int :: "string \<Rightarrow> int \<Rightarrow> 'e zap_field" where "field_Int k v = FInt k v"
definition field_Int64 :: "string \<Rightarrow> 64 word \<Rightarrow> 'e zap_field" where "field_Int64 k v = FInt k (sint v)"
definition field_Int32 :: "string \<Rightarrow> 32 word \<Rightarrow> 'e zap_field" where "field_Int32 k v = FInt k (sint v)"
definition field_Duration :: "string \<Rightarrow> int \<Rightarrow> 'e zap_field" where "field_Duration k v = FDuration k v"

definition ErrorInfo :: "'e option \<Rightarrow> 'e zap_field" where
  "ErrorInfo v = (case v of None \<Rightarrow> FSkip | Some e \<Rightarrow> FError e)"

definition newline :: char where "newline = char_of (10::nat)"
definition tab :: char where "tab = char_of (9::nat)"

text \<open>The lines the encoder hands to JSON.\<close>

definition JSONStacktraceEncoder :: "string \<Rightarrow> string list" where
  "JSONStacktraceEncoder stacktrace =
     (let lines = strings_Split stacktrace [newline]
      in if length lines > 0 \<and> lines ! (length lines - 1) = [] then take (length lines - 1) lines else lines)"

text \<open>The loop of \<^verbatim>\<open>StacktraceField\<close>: \<open>k\<close> is the index, \<open>result\<close> what was put together so far.\<close>

fun indent_loop :: "nat \<Rightarrow> string list \<Rightarrow> string \<Rightarrow> string" where
  "indent_loop k [] result = result"
| "indent_loop k (line # lines) result =
     indent_loop (Suc k) lines (if k = 0 then result @ line else result @ [newline, tab] @ line)"

text \<open>\<open>reformat\<close> is the JSON branch: \<open>None\<close> when the trace is not JSON.\<close>

definition StacktraceField :: "(string \<Rightarrow> string option) \<Rightarrow> string \<Rightarrow> string" where
  "StacktraceField reformat b =
     (case reformat b of
        None \<Rightarrow> indent_loop 0 (strings_Split b [newline]) []
      | Some formatted \<Rightarrow> formatted)"

section \<open>Properties\<close>

lemma zap_Level_mod: "zap_Level n = (n + 128) mod 256 - 128"
  by (simp add: zap_Level_def sint_sbintrunc' signed_take_bit_eq_take_bit_shift take_bit_eq_mod)

lemma zap_Level_wrap: "zap_Level (n + 256 * k) = zap_Level n"
proof -
  have "(n + 256 * k + 128) mod 256 = (n + 128 + 256 * k) mod 256" by (simp add: ac_simps)
  then show ?thesis by (simp add: zap_Level_mod)
qed

lemma zap_Level_small: "- 128 \<le> n \<Longrightarrow> n < 128 \<Longrightarrow> zap_Level n = n"
  by (simp add: zap_Level_mod)

text \<open>
  C37. Which entries are written. Once the logger is made from a configuration, an entry of level
  \<open>l\<close> goes to the console and to the configured file, in this order, if \<open>l\<close> is at least the effective
  level, and nowhere otherwise. The effective level is the configured one when that lies between
  debug and fatal, and info when it lies outside, as long as it is an 8-bit number; beyond that it
  wraps around, so that for example every \<open>256 k + 5\<close> silences everything below fatal.
\<close>

theorem log_levels:
  assumes "parse cfgb = (cfg, None)" and "Init parse cfgb st = (Returns (), st1)"
  shows "written (log_at l msg st1) = written st @
      (if effective_level (Level cfg) \<le> l
       then [\<lparr>en_sink = Console, en_level = l, en_msg = msg, en_module = None\<rparr>,
             \<lparr>en_sink = File (Filename cfg), en_level = l, en_msg = msg, en_module = None\<rparr>]
       else []) \<and>
    (- 128 \<le> Level cfg \<and> Level cfg < 128 \<longrightarrow>
       effective_level (Level cfg) = (if - 1 \<le> Level cfg \<and> Level cfg \<le> 5 then Level cfg else 0)) \<and>
    effective_level (Level cfg + 256 * k) = effective_level (Level cfg)"
proof -
  have "effective_level (Level cfg + 256 * k) = effective_level (Level cfg)"
    by (simp add: effective_level_def zap_Level_wrap)
  moreover have "effective_level (Level cfg) = (if - 1 \<le> Level cfg \<and> Level cfg \<le> 5 then Level cfg else 0)"
    if "- 128 \<le> Level cfg \<and> Level cfg < 128"
    using that zap_Level_small [of "Level cfg"] by (auto simp add: effective_level_def Let_def)
  moreover have "Log st1 = Some \<lparr>lg_level = effective_level (Level cfg), lg_sinks = [Console, File (Filename cfg)], lg_module = None\<rparr>"
    "written st1 = written st"
    using assms by (auto simp: Init_def)
  then have "written (log_at l msg st1) = written st @
      (if effective_level (Level cfg) \<le> l
       then [\<lparr>en_sink = Console, en_level = l, en_msg = msg, en_module = None\<rparr>,
             \<lparr>en_sink = File (Filename cfg), en_level = l, en_msg = msg, en_module = None\<rparr>]
       else [])"
    by (simp add: log_at_def log_write_def)
  ultimately show ?thesis by blast
qed

theorem log_levels_witness:
  "\<exists>st1. Init (\<lambda>_. (default_config, None)) [] \<lparr>Log = None, written = []\<rparr> = (Returns (), st1) \<and>
     written (log_at (- 1) ''m'' st1) =
       [\<lparr>en_sink = Console, en_level = - 1, en_msg = ''m'', en_module = None\<rparr>,
        \<lparr>en_sink = File ''logs/app.log'', en_level = - 1, en_msg = ''m'', en_module = None\<rparr>] \<and>
     effective_level 261 = 5"
proof -
  obtain st1 where st1: "Init (\<lambda>_. (default_config, None)) [] \<lparr>Log = None, written = []\<rparr> = (Returns (), st1)"
    by (simp add: Init_def)
  have "effective_level 261 = 5" by (simp add: effective_level_def zap_Level_mod Let_def)
  with log_levels [OF refl st1, of "- 1" "''m''" 0] st1 show ?thesis
    by (simp add: default_config_def)
qed

text \<open>Before the logger is made nothing is written; \<^verbatim>\<open>GetLogger\<close> makes one that lets everything through.\<close>

lemma log_before_init: "Log st = None \<Longrightarrow> log_at l msg st = st"
  by (simp add: log_at_def)

lemma GetLogger_default:
  assumes "Log st = None" and "marshal default_config = Some b" and "parse b = (default_config, None)"
  shows "\<exists>lg st1. GetLogger parse marshal m st = (Returns (Some lg), st1) \<and> lg_level lg = - 1 \<and> lg_module lg = Some m"
  using assms by (simp add: GetLogger_def Init_def effective_level_def zap_Level_mod default_config_def Let_def)

lemma indent_loop_Suc: "indent_loop (Suc k) ls r = r @ concat (map (\<lambda>l. [newline, tab] @ l) ls)"
  by (induction ls arbitrary: k r) simp_all

lemma Join_concat: "strings_Join (l # ls) sep = l @ concat (map (\<lambda>x. sep @ x) ls)"
  by (induction ls arbitrary: l) simp_all

text \<open>
  The loop that formats a stack trace that is not JSON is the replacement of every line break by a
  line break and a tab; no character of the trace is lost, but it is not output unchanged, as the
  comment in the source says.
\<close>

theorem stacktrace_is_replacement:
  "indent_loop 0 (strings_Split b [newline]) [] = strings_ReplaceAll b [newline] [newline, tab] \<and>
   filter (\<lambda>c. c \<noteq> tab) (indent_loop 0 (strings_Split b [newline]) []) = filter (\<lambda>c. c \<noteq> tab) b"
proof
  obtain l ls where ls: "strings_Split b [newline] = l # ls" by (cases "strings_Split b [newline]") auto
  show eq: "indent_loop 0 (strings_Split b [newline]) [] = strings_ReplaceAll b [newline] [newline, tab]"
    by (simp add: ls strings_ReplaceAll_def Join_concat indent_loop_Suc)
  have "filter (\<lambda>c. c \<noteq> tab) (strings_Join (l # ls) [newline, tab]) = filter (\<lambda>c. c \<noteq> tab) (strings_Join (l # ls) [newline])"
    unfolding Join_concat by (induction ls) (simp_all add: newline_def tab_def)
  also have "strings_Join (l # ls) [newline] = b" using strings_Join_Split [of "[newline]" b] ls by simp
  finally show "filter (\<lambda>c. c \<noteq> tab) (indent_loop 0 (strings_Split b [newline]) []) = filter (\<lambda>c. c \<noteq> tab) b"
    unfolding eq by (simp add: strings_ReplaceAll_def ls)
qed

end
