(* ===== verification/Llm.thy ===== *)
theory Llm
  imports Prelude
begin

text \<open>
  \<^verbatim>\<open>llm\<close>: the request to a chat service and its answer, and \<^verbatim>\<open>libs/databases/ztime.go\<close>, the text
  form of the time stamps of database rows. JSON and the HTTP client are parameters.
\<close>

section \<open>Chat requests\<close>

record ChatMessage =
  Role :: string
  Content :: string

text \<open>The two 32-bit floating point fields are kept as bit patterns.\<close>

record ChatRequest =
  req_Model :: string
  req_Messages :: "ChatMessage list"
  Temperature :: "32 word"
  TopP :: "32 word"
  MaxTokens :: int
  req_Stream :: bool
  User :: string

record ChatChoice =
  Index :: int
  choice_Message :: ChatMessage
  FinishReason :: string

record ChatResponse =
  ID :: string
  Object :: string
  Created :: "64 word"
  resp_Model :: string
  Choices :: "ChatChoice list"
  PromptTokens :: int
  CompletionTokens :: int
  TotalTokens :: int

record http_call =
  call_url :: string
  call_headers :: "(string \<times> string) list"
  call_body :: bytes

text \<open>
  \<open>post\<close> is the HTTP client: an error, or a status and a body. \<open>marshal\<close> and \<open>unmarshal\<close> are JSON;
  decoding starts from the zero value \<open>zero\<close>.
\<close>

definition chat_call :: "string \<Rightarrow> bytes \<Rightarrow> http_call" where
  "chat_call apiKey body =
     \<lparr>call_url = ''https://api.openai.com/v1/chat/completions'',
      call_headers = [(''Authorization'', ''Bearer '' @ apiKey), (''Content-Type'', ''application/json'')],
      call_body = body\<rparr>"

definition SendChatRequest ::
  "(string \<Rightarrow> string) \<Rightarrow> (ChatRequest \<Rightarrow> 'e + bytes) \<Rightarrow> (http_call \<Rightarrow> 'e + (nat \<times> bytes)) \<Rightarrow>
   (bytes \<Rightarrow> ChatResponse \<Rightarrow> ChatResponse \<times> 'e option) \<Rightarrow> ChatResponse \<Rightarrow> ChatRequest \<Rightarrow> 'e + ChatResponse" where
  "SendChatRequest getenv marshal post unmarshal zero req =
     (let apiKey = getenv ''OPENAI_API_KEY''
      in case marshal req of
           Inl err \<Rightarrow> Inl err
         | Inr body \<Rightarrow>
             (case post (chat_call apiKey body) of
                Inl err \<Rightarrow> Inl err
              | Inr (status, bytes') \<Rightarrow>
                  (case unmarshal bytes' zero of
                     (_, Some err) \<Rightarrow> Inl err
                   | (chatResp, None) \<Rightarrow> Inr chatResp)))"

text \<open>
  The status of the answer is not looked at: whatever it is, a body that decodes is returned as a
  successful answer, and a JSON error body whose fields are unknown decodes to the zero answer.
\<close>

lemma SendChatRequest_ignores_status:
  assumes "marshal req = Inr body" and "post (chat_call (getenv ''OPENAI_API_KEY'') body) = Inr (status, b)"
    and "unmarshal b zero = (zero, None)"
  shows "SendChatRequest getenv marshal post unmarshal zero req = Inr zero"
  using assms by (simp add: SendChatRequest_def)

section \<open>Time stamps\<close>

text \<open>A civil time, in the location of the value; years are between 0 and 9999.\<close>

record civil =
  year :: nat
  month :: nat
  day :: nat
  hour :: nat
  minute :: nat
  second :: nat

definition civil_ok :: "civil \<Rightarrow> bool" where
  "civil_ok t \<longleftrightarrow> year t < 10000 \<and> 1 \<le> month t \<and> month t \<le> 12 \<and> 1 \<le> day t \<and> day t \<le> 31 \<and>
     hour t < 24 \<and> minute t < 60 \<and> second t < 60"

definition digit :: "nat \<Rightarrow> char" where
  "digit n = char_of (48 + n mod 10)"

definition two :: "nat \<Rightarrow> string" where
  "two n = [digit (n div 10), digit n]"

definition four :: "nat \<Rightarrow> string" where
  "four n = [digit (n div 1000), digit (n div 100), digit (n div 10), digit n]"

definition ztime_FormatSimple :: "civil \<Rightarrow> string" where
  "ztime_FormatSimple t = four (year t) @ ''-'' @ two (month t) @ ''-'' @ two (day t)"

definition ztime_Format :: "civil \<Rightarrow> string" where
  "ztime_Format t = four (year t) @ ''-'' @ two (month t) @ ''-'' @ two (day t) @ '' '' @
     two (hour t) @ '':'' @ two (minute t) @ '':'' @ two (second t)"

definition MarshalJSON :: "civil \<Rightarrow> bytes" where
  "MarshalJSON t = [char_of (34::nat)] @ ztime_Format t @ [char_of (34::nat)]"

definition ztime_Time :: "civil \<Rightarrow> civil" where
  "ztime_Time t = t"

lemma digit_inject: "digit m = digit n \<longleftrightarrow> m mod 10 = n mod 10"
proof
  assume "digit m = digit n"
  then have "digit_val (char_of (48 + m mod 10)) = digit_val (char_of (48 + n mod 10))" by (simp add: digit_def)
  then show "m mod 10 = n mod 10" by (simp add: digit_val_char_of)
qed (simp add: digit_def)

lemma last_digit_inject: "m div 10 = n div 10 \<Longrightarrow> m mod 10 = n mod 10 \<Longrightarrow> m = (n::nat)"
  by (metis div_mult_mod_eq)

lemma two_inject: "m < 100 \<Longrightarrow> n < 100 \<Longrightarrow> two m = two n \<longleftrightarrow> m = n"
  by (auto simp: two_def digit_inject intro: last_digit_inject)

lemma four_inject:
  assumes "m < 10000" "n < 10000"
  shows "four m = four n \<longleftrightarrow> m = n"
proof
  assume "four m = four n"
  then have d: "m div 1000 mod 10 = n div 1000 mod 10" "m div 100 mod 10 = n div 100 mod 10"
    "m div 10 mod 10 = n div 10 mod 10" "m mod 10 = n mod 10"
    by (simp_all add: four_def digit_inject)
  have "m div 1000 = n div 1000" using d(1) assms by simp
  then have "m div 100 div 10 = n div 100 div 10" by (simp add: div_mult2_eq [symmetric])
  then have "m div 100 = n div 100" using d(2) by (rule last_digit_inject)
  then have "m div 10 div 10 = n div 10 div 10" by (simp add: div_mult2_eq [symmetric])
  then have "m div 10 = n div 10" using d(3) by (rule last_digit_inject)
  then show "m = n" using d(4) by (rule last_digit_inject)
qed simp

text \<open>
  The text of a time stamp has 19 characters and determines it: two valid time stamps with the same
  JSON form are equal.
\<close>

lemma length_ztime: "length (ztime_Format t) = 19" "length (ztime_FormatSimple t) = 10" "length (MarshalJSON t) = 21"
  by (simp_all add: ztime_Format_def ztime_FormatSimple_def MarshalJSON_def two_def four_def)

lemma MarshalJSON_inject:
  assumes "civil_ok s" and "civil_ok t" and "MarshalJSON s = MarshalJSON t"
  shows "s = t"
proof -
  have "four (year s) = four (year t)" "two (month s) = two (month t)" "two (day s) = two (day t)"
    "two (hour s) = two (hour t)" "two (minute s) = two (minute t)" "two (second s) = two (second t)"
    using assms(3) by (simp_all add: MarshalJSON_def ztime_Format_def two_def four_def)
  with assms(1,2) show ?thesis
    by (intro civil.equality) (simp_all add: civil_ok_def two_inject four_inject)
qed

end
