(* ===== verification/Spec2Isabelle.thy ===== *)
theory Spec2Isabelle
  imports Uuid Go_Errors Redis_Notification Redis_Store Endpoint Client_Manager Db_Store Nats Http_Server Pbe_Crypto
    Ws_Client Services Logging Llm
begin

text \<open>
  A verification development of TopLib, a Go library of infrastructure components: identifiers,
  errors, Redis and SQL access, messaging over NATS and websockets, an HTTP server with its access
  check, tokens and encryption, services, configuration and logging. The sources are under
  \<^verbatim>\<open>src/\<close>.

  \<^bold>\<open>How the parts of the program fit together.\<close> An application reads its configuration
  (\<^verbatim>\<open>libs/conf\<close>), which also sets the environment variables from which the token secret is built. It
  starts an HTTP server (\<^verbatim>\<open>libs/server\<close>) whose access check decodes a JWT (\<^verbatim>\<open>libs/jwt\<close>), compares
  its token with the one stored in Redis (\<^verbatim>\<open>libs/redis\<close>) and lets requests without a token in from the
  inner network only (\<^verbatim>\<open>utils\<close>). Websocket clients are registered with a manager
  (\<^verbatim>\<open>libs/server/ws_client_manager.go\<close>) and talk through a sender and a receiver (\<^verbatim>\<open>queue\<close>); the
  other end of such a connection is \<^verbatim>\<open>libs/ws_client\<close>. Data access goes through DAOs, entities and
  transaction wrappers over the xorm library (\<^verbatim>\<open>libs/databases\<close>), delayed work through Redis
  notifications, messages through NATS (\<^verbatim>\<open>libs/nats\<close>). Errors carry stacks and are caught by chains
  (\<^verbatim>\<open>libs/errors\<close>), identifiers come from a snowflake worker (\<^verbatim>\<open>libs/uuid\<close>).

  \<^bold>\<open>Modelling conventions.\<close> A struct is a \<open>record\<close>, an enumeration or a result with several shapes a
  \<open>datatype\<close>; Go strings and byte slices are \<open>string\<close>, an \<^verbatim>\<open>int64\<close> is a \<open>64 word\<close> where overflow matters
  and an integer with the wrap-around written out otherwise. An error result is an \<open>option\<close> or a sum,
  a panic the constructor \<open>Panics\<close> of \<open>outcome\<close>, a nil pointer \<open>None\<close>. Sequential code is a function that
  passes its state along. Concurrent code is an event machine: a step function \<open>event \<Rightarrow> state \<Rightarrow> state option\<close>
  with one event per atomic action of a goroutine (a case of a \<^verbatim>\<open>select\<close>, a lock operation, an access to a
  shared map, a write whose success the environment decides), run over arbitrary lists of events by \<open>run_events\<close>.
  Third-party libraries (go-redis, xorm, nats.go, echo, zap, jwt-go, gorilla/websocket, JSON, TOML)
  are arguments of the definitions, and where a property needs a law of them, the law is a named
  hypothesis with a concrete instance in the witness. Of Go's standard library what the sources use
  is modelled: \<^verbatim>\<open>strings\<close>, \<^verbatim>\<open>strconv\<close>, \<^verbatim>\<open>time.Duration\<close>, \<^verbatim>\<open>net.ParseIP\<close>, channels, contexts, MD5, DES,
  SHA-256, HMAC, base 64 and hex.

  \<^bold>\<open>Theories, sources and what is shown.\<close>

  \<^item> \<open>Prelude\<close>: strings, decimal numbers, buffered channels with the interface locale \<open>bounded_fifo\<close>
    (interpreted as \<open>go_chan\<close>), and the locales \<open>event_invariant\<close> and \<open>event_refinement\<close> over which the
    event machines are verified (interpreted for the sender, the receiver, the endpoint, the client manager, the
    NATS manager, the websocket client and the services).
  \<^item> \<open>Uuid\<close> (\<^verbatim>\<open>libs/uuid\<close>): identifiers of one worker increase strictly while fewer than
    4096 are drawn in a millisecond and the clock does not go back; the layout round trip; the
    wait loop ends as soon as the clock moves (a \<open>partial_function\<close>, so that not ending is a value);
    identifiers repeat after an overflow in a waiting millisecond; random strings.
  \<^item> \<open>Go_Errors\<close> (\<^verbatim>\<open>libs/errors\<close>): stack errors, wrapping, and the exact trace of the
    try/catch/finally chains.
  \<^item> \<open>Go_Time\<close>: \<^verbatim>\<open>time.ParseDuration\<close> and \<^verbatim>\<open>Duration.String\<close>.
  \<^item> \<open>Redis_View\<close> (\<^verbatim>\<open>libs/redis\<close> but the notifications): every command of a view, with the locale
    \<open>key_space\<close> for the isolation of views by prefix, the commands that break it, and results that lose
    data.
  \<^item> \<open>Redis_Store\<close>: the contract of a view. The locale \<open>redis_server\<close> states the documented behaviour of
    the commands, \<open>private_store\<close> what a user of a view relies on (a sublocale of it, interpreted on a
    reference server); every run of a view is a run of an abstract store of typed values, in which
    keys may expire and other clients work, and kinds of values are respected.
  \<^item> \<open>Redis_Notification\<close> (\<^verbatim>\<open>redis_notification.go\<close>): retry counts are bounded and complete, payloads
    round trip, and the lock excludes on every server of the locale \<open>lock_server\<close> and lets its holder in
    again on those of the extension \<open>retry_server\<close>.
  \<^item> \<open>Message_Queue\<close> (\<^verbatim>\<open>queue\<close>, \<^verbatim>\<open>protocol\<close>, \<^verbatim>\<open>codec\<close>): the sender refines an abstract FIFO, stopping
    terminates, the receiver loses nothing it accepted.
  \<^item> \<open>Endpoint\<close>: a receiver and a sender together. Every frame written is an answer to a received message
    or was sent directly, none twice; nothing panics while nobody stops them or takes the processor or
    the sender away, and a shutdown in the right order can crash the process.
  \<^item> \<open>Client_Manager\<close> (\<^verbatim>\<open>libs/server/ws_client.go\<close>, \<^verbatim>\<open>ws_client_manager.go\<close>): the loop of the manager and the
    calls of its methods interleave operation by operation on maps that have no lock. The registry is
    sound and nothing is closed twice as long as no two of them overlap; two kicks that do crash the
    process; and the runs in which the manager blocks.
  \<^item> \<open>Databases\<close>, \<open>Db_Session\<close> (\<^verbatim>\<open>libs/databases\<close>): DAOs, entities, connections; the locale
    \<open>tx_mapper\<close> states the documented behaviour of xorm's transactions: what the steps of an open
    transaction do is seen only when it is committed.
  \<^item> \<open>Db_Table\<close>, \<open>Db_Store\<close>: the contract of the data access. The locale \<open>table_mapper\<close>, an extension of
    \<open>tx_mapper\<close>, states the documented behaviour of xorm on one table and is interpreted on a mapper that
    computes; every run of a DAO or an entity is a run of an abstract table with transactions, pages
    cover the table, the transactions of both wrappers are committed exactly when all of their steps
    succeed, a chained transaction of the helpers does all of its work or none, and
    \<^verbatim>\<open>UpsertById\<close>, against its comment, never changes a stored row (it is not one of the operations of
    the runs).
  \<^item> \<open>Nats\<close> (\<^verbatim>\<open>libs/nats\<close>): connections, streams, subscriptions with at-least-once delivery,
    reconnections, and the connection manager, its start and its lock.
  \<^item> \<open>Net_Utils\<close> (\<^verbatim>\<open>utils\<close>): the inner network test is exact, for IPv4 and IPv6 texts; retried requests;
    signal channels.
  \<^item> \<open>App_Config\<close> (\<^verbatim>\<open>libs/conf\<close>, \<^verbatim>\<open>libs/jwt/keysutils.go\<close>, \<^verbatim>\<open>jwt.go\<close>): configuration, environment, token
    keys, tokens.
  \<^item> \<open>Http_Server\<close> (\<^verbatim>\<open>libs/server\<close>): middlewares, typed handlers, routes, start and shutdown of the server
    and of the backend; the access check guards every route; fields of a request stay in the handler's
    one request value, and a shutdown, by signal or by call, ends in \<^verbatim>\<open>Fatal\<close>.
  \<^item> \<open>Go_Crypto\<close>, \<open>Pbe_Crypto\<close> (\<^verbatim>\<open>libs/jwt/PBEWhithMD5AndDES.go\<close>, \<^verbatim>\<open>utils/security.go\<close>): the
    primitives, with the interface locale \<open>block_cipher\<close> interpreted on DES; decryption undoes
    encryption up to trailing padding characters.
  \<^item> \<open>Ws_Client\<close> (\<^verbatim>\<open>libs/ws_client\<close>): the two writing goroutines write frame by frame, so that a ping can
    come between the parts of a message; the order on the wire when it does not, and all the ways in
    which the client panics.
  \<^item> \<open>Services\<close> (\<^verbatim>\<open>services\<close>, \<^verbatim>\<open>protocol/response.go\<close>): the life cycle of contexts.
  \<^item> \<open>Logging\<close> (\<^verbatim>\<open>libs/logs\<close>): levels and stack traces. \<open>Llm\<close> (\<^verbatim>\<open>llm\<close>, \<^verbatim>\<open>libs/databases/ztime.go\<close>): the chat client, time stamps.
  \<^item> This theory: what holds of tokens, Redis and the access check together; the documented Redis server
    is a server for the lock (\<open>redis_server\<close> is a sublocale of \<open>lock_server\<close>).

  \<^bold>\<open>Bounds and fuel.\<close> No definition uses fuel. The only loop that may run for ever is the wait loop of
  the snowflake worker, an option valued partial function; its return is proved for every clock that
  moves. All other loops are structural or come with a termination proof. Channel capacities, retry
  counts, the 41, 10 and 12 bits of an identifier and the padding of eight bytes are those of the source.

  \<^bold>\<open>Not modelled.\<close> Logging calls inside other components (they have no effect on results); the
  encoding of log entries and the rotation of log files (zap, lumberjack); deadlines and time-outs of
  connections, which appear as errors the environment may report; the escaping rules of
  \<^verbatim>\<open>url.JoinPath\<close> (routes of plain characters only); floating point scores are bit patterns; the columns
  that xorm fills in by itself and writes back into the beans; the data race of two requests that are
  bound into one value at the same time (the handlers are run one after the other). The files
  \<^verbatim>\<open>libs/server/server.go\<close> and \<^verbatim>\<open>codec/protoc_codec.go\<close> are commented out, \<^verbatim>\<open>libs/redis/redis.go\<close> declares
  the interfaces that the modelled types implement.
\<close>

section \<open>The lock on a documented server\<close>

definition text_entry :: "string \<Rightarrow> rval \<times> bool" where
  "text_entry v = (RStr v, False)"

definition entry_text :: "rval \<times> bool \<Rightarrow> string option" where
  "entry_text e = (case as_str (Some e) of Some v \<Rightarrow> v | None \<Rightarrow> None)"

sublocale redis_server \<subseteq> locking: lock_server c look text_entry entry_text
proof unfold_locales
  show "(entry_text (text_entry x) = Some y) = (x = y)" for x y by (simp add: entry_text_def text_entry_def)
next
  fix k v s d e t
  assume b: "boolCmd c (Req ''SETNX'' [k] [ABytes v, ADur 0]) s = ((d, e), t)"
  have "fst (boolCmd c (Req ''SETNX'' [k] [ABytes v, ADur 0]) s) =
      fst (if look s k = None then ((True, None), Some (RStr v, False)) else ((False, None), look s k))"
    "look (snd (boolCmd c (Req ''SETNX'' [k] [ABytes v, ADur 0]) s)) =
      (look s)(k := snd (if look s k = None then ((True, None :: rerr option), Some (RStr v, False)) else ((False, None), look s k)))"
    using SETNX [of 0 k v] unfolding on_key_def by auto
  with b show "if look s k = None then d \<and> look t = (look s)(k \<mapsto> text_entry v) else \<not> d \<and> look t = look s"
    by (auto simp: text_entry_def fun_upd_idem split: if_splits)
next
  fix k s v e t
  assume g: "stringCmd c (Req ''GET'' [k] []) s = ((v, e), t)"
  have r: "(v, e) = fst (typed as_str [] (\<lambda>x. (case x of None \<Rightarrow> ([], Some redis_nil) | Some y \<Rightarrow> (y, None), look s k)) (look s k))"
    and l: "look t = look s"
    using GET [of k] g by (auto simp: on_key_def typed_def dest!: spec [of _ s] split: option.splits)
  show "look t = look s \<and> (case Option.bind (look s k) entry_text of Some x \<Rightarrow> v = x \<and> e = None | None \<Rightarrow> e \<noteq> None)"
    using r l by (cases "look s k" rule: as_str.cases) (auto simp: typed_def entry_text_def)
qed

context redis_server
begin

lemma locks: "lock_server c look text_entry entry_text"
  by (rule locking.lock_server_axioms)

end

interpretation ref_retry: retry_server ref_client "\<lambda>s. s" text_entry entry_text
  by unfold_locales (simp add: on_first_def at_key_def case_prod_unfold)

text \<open>
  On a Redis server that behaves as documented, whatever its keys hold, a lock that was taken is
  refused to every other node and goroutine and is left as it is.
\<close>

theorem lock_on_redis:
  assumes "redis_server (cmd (cache n)) look arity" and "cache n' = cache n" and "nkey n' = nkey n"
    and "Payload.Value p' = Payload.Value p" and "fst (lock fr gid n p s)"
  shows "(fst (lock fr gid' n' p' (snd (lock fr gid n p s))) \<longleftrightarrow> node n' = node n \<and> gid' = gid) \<and>
         look (snd (lock fr gid' n' p' (snd (lock fr gid n p s)))) = look (snd (lock fr gid n p s))"
  by (rule lock_server.lock_excludes [OF redis_server.locks [OF assms(1)] refl assms(2-5)])

section \<open>Tokens, Redis and the access check together\<close>

lemma access_token_check:
  assumes jwt: "let cl = [(''id'', ClaimStr id'), (''token'', ClaimStr tok), (''iss'', ClaimStr ''admin'')];
                    key = jwt_secret (a_env A)
                in a_parse A (sign cl key) (hmac_key key) = Inr (Some cl, True)"
    and "a_env A ''DEBUG'' \<noteq> ''true''" and "a_redis A = Some R"
    and "r_header (c_req c) ''jwt'' = JWTEncrypt sign id' tok (jwt_secret (a_env A))"
    and "r_header (c_req c) ''jwt'' \<noteq> []"
    and redis: "stringCmd R (Req ''GET'' [UserTokenKey (a_keys A) id'] []) (c_db c) = ((cur, err), db')"
  shows "Access A nxt c =
    (if err \<noteq> None then deny TokenFetchError (c\<lparr>c_db := db'\<rparr>)
     else if tok = cur then nxt (add_id id' (c\<lparr>c_db := db'\<rparr>)) else deny LoggedInElsewhere (c\<lparr>c_db := db'\<rparr>))"
proof -
  define cl where "cl = [(''id'', ClaimStr id'), (''token'', ClaimStr tok), (''iss'', ClaimStr ''admin'')]"
  have dec: "JWTDecrypt (a_parse A) (r_header (c_req c) ''jwt'') (jwt_secret (a_env A)) = Some cl"
    using assms(4) jwt by (simp add: JWTDecrypt_def JWTEncrypt_def cl_def Let_def)
  have "claim_of cl ''id'' = ClaimStr id'" "claim_of cl ''token'' = ClaimStr tok"
    by (simp_all add: cl_def claim_of_def)
  with dec assms show ?thesis by (cases err) (simp_all add: Access_def)
qed

text \<open>
  C2. The latest login wins. Let the JWT library decode what it signed with the same key, and let
  Redis behave as documented. A request that carries a token made by \<^verbatim>\<open>JWTEncrypt\<close> for a user, with
  the server's secret, outside debug mode, changes nothing in Redis, and passes the access check
  exactly when the token text in it is the string that Redis holds under the key of that user, which
  is the one stored last; it then reaches the next handler with the user's id in the query. With
  another text it is told that the account is logged in elsewhere, and when the key has expired, was
  deleted or holds something that is no string, that the token cannot be fetched.
\<close>

theorem latest_login_wins:
  fixes c :: "('d, 'db) ctx" and look :: "'db \<Rightarrow> store" and nxt :: "('d, 'db, 'e) handler_fn"
  assumes jwt: "let cl = [(''id'', ClaimStr id'), (''token'', ClaimStr tok), (''iss'', ClaimStr ''admin'')];
                    key = jwt_secret (a_env A)
                in a_parse A (sign cl key) (hmac_key key) = Inr (Some cl, True)"
    and "a_env A ''DEBUG'' \<noteq> ''true''" and "a_redis A = Some R"
    and "r_header (c_req c) ''jwt'' = JWTEncrypt sign id' tok (jwt_secret (a_env A))"
    and "r_header (c_req c) ''jwt'' \<noteq> []"
    and redis: "redis_server R look arity"
  shows "\<exists>db'. look db' = look (c_db c) \<and>
    Access A nxt c =
      (if \<exists>ttl. look (c_db c) (UserTokenKey (a_keys A) id') = Some (RStr tok, ttl)
       then nxt (add_id id' (c\<lparr>c_db := db'\<rparr>))
       else if \<exists>other ttl. look (c_db c) (UserTokenKey (a_keys A) id') = Some (RStr other, ttl)
       then deny LoggedInElsewhere (c\<lparr>c_db := db'\<rparr>)
       else deny TokenFetchError (c\<lparr>c_db := db'\<rparr>))"
proof -
  let ?k = "UserTokenKey (a_keys A) id'"
  obtain cur err db' where g: "stringCmd R (Req ''GET'' [?k] []) (c_db c) = ((cur, err), db')" by (metis prod.collapse)
  from redis_server.GET [OF redis, of ?k] g
  have l: "look db' = look (c_db c)"
    and r: "(cur, err) = fst (typed as_str [] (\<lambda>v. (case v of None \<Rightarrow> ([], Some redis_nil) | Some x \<Rightarrow> (x, None), look (c_db c) ?k))
        (look (c_db c) ?k))"
    by (auto simp: on_key_def typed_def dest!: spec [of _ "c_db c"] split: option.splits)
  show ?thesis
    using access_token_check [OF assms(1-5) g, of nxt] l r
    by (intro exI [of _ db'], cases "look (c_db c) ?k" rule: as_str.cases) (auto simp: typed_def)
qed

text \<open>A JWT library whose tokens are the id and the token text around a dot, signed with the key.\<close>

definition dot_sign :: "claims \<Rightarrow> string \<Rightarrow> string" where
  "dot_sign cl key =
     (case (claim_of cl ''id'', claim_of cl ''token'') of (ClaimStr i, ClaimStr t) \<Rightarrow> i @ ''.'' @ t @ ''.'' @ key | _ \<Rightarrow> [])"

definition dot_parse :: jwt_parser where
  "dot_parse s keyfn =
     (case strings_Split s ''.'' of
        [i, t, k] \<Rightarrow>
          if keyfn (HMAC ''HS256'') = Some k
          then Inr (Some [(''id'', ClaimStr i), (''token'', ClaimStr t), (''iss'', ClaimStr ''admin'')], True)
          else Inl ''signature''
      | _ \<Rightarrow> Inl ''malformed'')"

definition dot_env :: "store access_env" where
  "dot_env = \<lparr>a_env = (\<lambda>_. [])(''APP_NAME'' := ''shop'', ''APP_VERSION'' := ''1''), a_keys = \<lparr>appName = [], appVersion = []\<rparr>,
     a_redis = Some ref_client, a_parse = dot_parse\<rparr>"

definition login_ctx :: "string \<Rightarrow> (unit, store) ctx" where
  "login_ctx tok = \<lparr>c_req = \<lparr>r_method = ''GET'',
       r_header = (\<lambda>k. if k = ''jwt'' then JWTEncrypt dot_sign ''7'' tok ''shop-1'' else []), r_remoteAddr = [],
       r_xff_ip = [], r_body = [], r_query = []\<rparr>, c_headers = [], c_reply = None, c_db = ['':user:token:7'' \<mapsto> (RStr ''new'', True)]\<rparr>"

lemma dot_parse_sign:
  "let cl = [(''id'', ClaimStr ''7''), (''token'', ClaimStr tok), (''iss'', ClaimStr ''admin'')];
       key = jwt_secret (a_env dot_env)
   in a_parse dot_env (dot_sign cl key) (hmac_key key) = Inr (Some cl, True)"
  if "CHR ''.'' \<notin> set tok"
proof -
  have "strings_Split (''7'' @ CHR ''.'' # tok @ CHR ''.'' # ''shop-1'') ''.'' = [''7'', tok, ''shop-1'']"
    using that by (subst strings_Split_char_first) simp_all
  then show ?thesis
    by (simp add: dot_env_def dot_sign_def dot_parse_def claim_of_def jwt_secret_def hmac_key_def)
qed

theorem latest_login_wins_witness:
  "\<forall>nxt :: (unit, store, unit) handler_fn.
     Access dot_env nxt (login_ctx ''new'') = nxt (add_id ''7'' (login_ctx ''new'')) \<and>
     Access dot_env nxt (login_ctx ''old'') = deny LoggedInElsewhere (login_ctx ''old'')"
proof -
  have e: "a_env dot_env ''DEBUG'' \<noteq> ''true''" "a_redis dot_env = Some ref_client" "jwt_secret (a_env dot_env) = ''shop-1''"
    by (simp_all add: dot_env_def jwt_secret_def)
  have h: "r_header (c_req (login_ctx tok)) ''jwt'' = JWTEncrypt dot_sign ''7'' tok (jwt_secret (a_env dot_env))"
    "r_header (c_req (login_ctx tok)) ''jwt'' \<noteq> []" for tok
    by (simp_all add: login_ctx_def e JWTEncrypt_def dot_sign_def claim_of_def)
  have k: "c_db (login_ctx tok) (UserTokenKey (a_keys dot_env) ''7'') = Some (RStr ''new'', True)" for tok
    by (simp add: UserTokenKey_def dot_env_def login_ctx_def)
  note w = latest_login_wins [OF dot_parse_sign e(1,2) h ref.redis_server_axioms]
  have "Access dot_env nxt (login_ctx ''new'') = nxt (add_id ''7'' (login_ctx ''new''))" for nxt :: "(unit, store, unit) handler_fn"
    using w [of "''new''" nxt] by (simp add: k ex_bool_eq all_bool_eq)
  moreover have "Access dot_env nxt (login_ctx ''old'') = deny LoggedInElsewhere (login_ctx ''old'')" for nxt :: "(unit, store, unit) handler_fn"
    using w [of "''old''" nxt] by (simp add: k ex_bool_eq all_bool_eq)
  ultimately show ?thesis by blast
qed

end
